(* ===== verification/Shield_Prelude.thy ===== *)
theory Shield_Prelude
  imports Main "HOL-Library.Word" "HOL-Library.AList"
begin

unbundle bit_operations_syntax

section \<open>Shared types, containers and lemmas\<close>

text \<open>
  The types every component uses and the generic facts on lists, association lists and words.
  \<^item> Machine integers keep their width: \<open>std::uint8_t\<close> is \<open>u8\<close>, and so on.  A \<open>std::size_t\<close>
    that counts the elements of a container is a \<open>nat\<close>; where the source compares with
    \<open>std::numeric_limits<std::size_t>::max()\<close> the bound is \<open>SIZE_MAX\<close> of a 64-bit platform.
  \<^item> A \<open>std::string\<close> is a \<open>string\<close> (a list of 8-bit characters).
  \<^item> A \<open>std::unordered_map\<close> is an association list with distinct keys.  The order of its
    entries stands for the unspecified iteration order: no theorem depends on it.
\<close>

type_synonym u8 = "8 word"
type_synonym u16 = "16 word"
type_synonym u32 = "32 word"
type_synonym u64 = "64 word"
type_synonym bytes = "u8 list"
type_synonym ('k, 'v) umap = "('k \<times> 'v) list"

definition SIZE_MAX :: nat where
  "SIZE_MAX = 2 ^ 64 - 1"

definition UINT32_MAX :: nat where
  "UINT32_MAX = 2 ^ 32 - 1"

definition UINT16_MAX :: nat where
  "UINT16_MAX = 2 ^ 16 - 1"

named_theorems shield_defs \<open>definitions of small operations, unfolded in component proofs\<close>
named_theorems umap_simps \<open>lookup after update on unordered maps\<close>

subsection \<open>Unordered maps\<close>

text \<open>
  \<open>find\<close>/\<open>contains\<close>/\<open>emplace\<close>/\<open>insert_or_assign\<close>/\<open>erase\<close>/\<open>size\<close> of
  \<open>std::unordered_map\<close>.  \<open>emplace\<close> leaves an existing entry alone and reports whether it
  inserted.
\<close>

definition umap_find :: "'k \<Rightarrow> ('k, 'v) umap \<Rightarrow> 'v option" where
  "umap_find k m = map_of m k"

definition umap_contains :: "'k \<Rightarrow> ('k, 'v) umap \<Rightarrow> bool" where
  "umap_contains k m = (umap_find k m \<noteq> None)"

definition umap_emplace :: "'k \<Rightarrow> 'v \<Rightarrow> ('k, 'v) umap \<Rightarrow> ('k, 'v) umap \<times> bool" where
  "umap_emplace k v m = (if umap_contains k m then (m, False) else (AList.update k v m, True))"

definition umap_put :: "'k \<Rightarrow> 'v \<Rightarrow> ('k, 'v) umap \<Rightarrow> ('k, 'v) umap" where
  "umap_put k v m = AList.update k v m"

definition umap_erase :: "'k \<Rightarrow> ('k, 'v) umap \<Rightarrow> ('k, 'v) umap" where
  "umap_erase k m = AList.delete k m"

definition umap_size :: "('k, 'v) umap \<Rightarrow> nat" where
  "umap_size m = length m"

definition umap_wf :: "('k, 'v) umap \<Rightarrow> bool" where
  "umap_wf m = distinct (map fst m)"

lemma umap_find_Nil [simp]: "umap_find k [] = None"
  by (simp add: umap_find_def)

lemma umap_find_put [simp, umap_simps]:
  "umap_find k' (umap_put k v m) = (if k' = k then Some v else umap_find k' m)"
  by (simp add: umap_find_def umap_put_def update_conv')

lemma umap_find_erase [simp, umap_simps]:
  "umap_find k' (umap_erase k m) = (if k' = k then None else umap_find k' m)"
  by (simp add: umap_find_def umap_erase_def delete_conv')

lemma umap_find_emplace [simp, umap_simps]:
  "umap_find k' (fst (umap_emplace k v m)) =
     (if k' = k \<and> umap_find k m = None then Some v else umap_find k' m)"
  by (auto simp: umap_emplace_def umap_contains_def umap_find_def update_conv')

lemma umap_emplace_inserted [simp, umap_simps]:
  "snd (umap_emplace k v m) = (umap_find k m = None)"
  by (simp add: umap_emplace_def umap_contains_def)

lemma umap_contains_iff [simp]: "umap_contains k m \<longleftrightarrow> (\<exists>v. umap_find k m = Some v)"
  by (simp add: umap_contains_def)

lemma umap_wf_Nil [simp, intro]: "umap_wf []"
  by (simp add: umap_wf_def)

lemma umap_wf_put [simp, intro]: "umap_wf m \<Longrightarrow> umap_wf (umap_put k v m)"
  by (simp add: umap_wf_def umap_put_def distinct_update)

lemma umap_wf_erase [simp, intro]: "umap_wf m \<Longrightarrow> umap_wf (umap_erase k m)"
  by (simp add: umap_wf_def umap_erase_def distinct_delete)

lemma umap_wf_emplace [simp, intro]: "umap_wf m \<Longrightarrow> umap_wf (fst (umap_emplace k v m))"
  by (simp add: umap_emplace_def umap_wf_def distinct_update)

lemma umap_find_mem: "umap_find k m = Some v \<Longrightarrow> (k, v) \<in> set m"
  by (simp add: umap_find_def map_of_SomeD)

lemma umap_mem_find: "umap_wf m \<Longrightarrow> (k, v) \<in> set m \<Longrightarrow> umap_find k m = Some v"
  by (simp add: umap_find_def umap_wf_def map_of_eq_Some_iff)

lemma umap_find_iff_mem: "umap_wf m \<Longrightarrow> umap_find k m = Some v \<longleftrightarrow> (k, v) \<in> set m"
  using umap_find_mem umap_mem_find by metis

lemma option_eq_by_Some: "(\<And>x. a = Some x \<longleftrightarrow> b = Some x) \<Longrightarrow> a = b"
  by (cases a; cases b) auto

subsection \<open>Strings\<close>

text \<open>
  \<open>std::to_string\<close> of an unsigned integer, \<open>std::string::find\<close> of a character and of a
  substring, and \<open>find_first_not_of\<close>; \<open>None\<close> is \<open>npos\<close>.
\<close>

fun to_string_nat :: "nat \<Rightarrow> string" where
  "to_string_nat n =
     (if n < 10 then [char_of (48 + n)] else to_string_nat (n div 10) @ [char_of (48 + n mod 10)])"

declare to_string_nat.simps [simp del]

fun find_pos :: "('a \<Rightarrow> bool) \<Rightarrow> 'a list \<Rightarrow> nat option" where
  "find_pos p [] = None"
| "find_pos p (x # xs) = (if p x then Some 0 else map_option Suc (find_pos p xs))"

fun has_prefix :: "'a list \<Rightarrow> 'a list \<Rightarrow> bool" where
  "has_prefix [] ys = True"
| "has_prefix (x # xs) [] = False"
| "has_prefix (x # xs) (y # ys) = (x = y \<and> has_prefix xs ys)"

fun contains_substring :: "'a list \<Rightarrow> 'a list \<Rightarrow> bool" where
  "contains_substring pat [] = (pat = [])"
| "contains_substring pat (y # ys) = (has_prefix pat (y # ys) \<or> contains_substring pat ys)"

lemma find_pos_Some:
  "find_pos p xs = Some i \<Longrightarrow> i < length xs \<and> p (xs ! i) \<and> (\<forall>x \<in> set (take i xs). \<not> p x)"
  by (induction xs arbitrary: i) (auto split: if_splits)

lemma find_pos_None: "find_pos p xs = None \<longleftrightarrow> (\<forall>x \<in> set xs. \<not> p x)"
  by (induction xs) auto

lemma find_pos_append:
  "find_pos p (xs @ ys) =
     (case find_pos p xs of Some i \<Rightarrow> Some i | None \<Rightarrow> map_option ((+) (length xs)) (find_pos p ys))"
proof (induction xs)
  case Nil
  have "map_option ((+) 0) (find_pos p ys) = find_pos p ys"
    by (cases "find_pos p ys") auto
  then show ?case by simp
next
  case (Cons x xs)
  then show ?case
    by (cases "find_pos p xs"; cases "find_pos p ys") auto
qed

lemma has_prefix_iff: "has_prefix xs ys \<longleftrightarrow> (\<exists>zs. ys = xs @ zs)"
  by (induction xs ys rule: has_prefix.induct) auto

lemma contains_substring_iff: "contains_substring pat xs \<longleftrightarrow> (\<exists>us vs. xs = us @ pat @ vs)"
proof (induction xs)
  case Nil
  then show ?case by auto
next
  case (Cons x xs)
  show ?case
  proof
    assume "contains_substring pat (x # xs)"
    then consider "has_prefix pat (x # xs)" | "contains_substring pat xs" by auto
    then show "\<exists>us vs. x # xs = us @ pat @ vs"
    proof cases
      case 1
      then show ?thesis by (metis append_Nil has_prefix_iff)
    next
      case 2
      then show ?thesis using Cons.IH by (metis append_Cons)
    qed
  next
    assume "\<exists>us vs. x # xs = us @ pat @ vs"
    then obtain us vs where eq: "x # xs = us @ pat @ vs" by blast
    show "contains_substring pat (x # xs)"
    proof (cases us)
      case Nil
      then have "has_prefix pat (x # xs)" using eq by (auto simp: has_prefix_iff)
      then show ?thesis by simp
    next
      case (Cons u us')
      then show ?thesis using eq Cons.IH by auto
    qed
  qed
qed

subsection \<open>Words\<close>

lemma unat_u64_less: "unat (x :: u64) < 18446744073709551616"
proof -
  have "unat x < 2 ^ LENGTH(64)" by (rule unsigned_less)
  then show ?thesis by simp
qed

lemma unat_u32_less: "unat (x :: u32) < 4294967296"
proof -
  have "unat x < 2 ^ LENGTH(32)" by (rule unsigned_less)
  then show ?thesis by simp
qed

lemma unat_u16_less: "unat (x :: u16) < 65536"
proof -
  have "unat x < 2 ^ LENGTH(16)" by (rule unsigned_less)
  then show ?thesis by simp
qed

lemma unat_push_bit_1:
  assumes "n < 64"
  shows "unat (push_bit n 1 :: u64) = 2 ^ n"
proof -
  have "(2 :: nat) ^ n < 2 ^ 64" using assms by (intro power_strict_increasing) auto
  moreover have "unat (push_bit n 1 :: u64) = take_bit 64 (push_bit n 1)"
    by (simp only: unsigned_push_bit_eq) simp
  ultimately show ?thesis by (simp add: take_bit_eq_mod push_bit_eq_mult)
qed

lemma ucast_and_255 [simp]: "(ucast (x AND 255 :: 'a::len word) :: u8) = ucast x"
  if "8 \<le> LENGTH('a)"
proof (rule bit_word_eqI)
  fix n assume "n < LENGTH(8)"
  then have "bit (255 :: 'a word) n"
    using that by (simp add: bit_simps numeral_eq_Suc less_Suc_eq) (auto simp: bit_simps)
  then show "bit (ucast (x AND 255) :: u8) n = bit (ucast x :: u8) n"
    by (simp add: bit_simps)
qed

lemma unat_of_nat_u64: "n < 2 ^ 64 \<Longrightarrow> unat (of_nat n :: u64) = n"
  by (simp add: unsigned_of_nat take_bit_nat_eq_self)

lemma unat_of_nat_u32: "n < 2 ^ 32 \<Longrightarrow> unat (of_nat n :: u32) = n"
  by (simp add: unsigned_of_nat take_bit_nat_eq_self)

lemma ucast_u32_u64_u32 [simp]: "(ucast (ucast (x :: u32) :: u64) :: u32) = x"
  by (rule bit_word_eqI) (auto simp: bit_simps)

text \<open>\<open>static_cast<int>\<close> of a wider integer.\<close>

definition to_int32 :: "int \<Rightarrow> int" where
  "to_int32 i = sint (word_of_int i :: 32 word)"

subsection \<open>Results\<close>

text \<open>A computation that fails with a value of type \<open>'e\<close>; \<open>attempt\<close> goes on with its result.\<close>

definition attempt :: "'e + 'a \<Rightarrow> ('a \<Rightarrow> 'e + 'b) \<Rightarrow> 'e + 'b" where
  "attempt m f = (case m of Inl e \<Rightarrow> Inl e | Inr x \<Rightarrow> f x)"

lemma attempt_simps [simp]: "attempt (Inl e) f = Inl e" "attempt (Inr x) f = f x"
  by (simp_all add: attempt_def)

lemma attempt_eq_Inr: "attempt m f = Inr y \<longleftrightarrow> (\<exists>x. m = Inr x \<and> f x = Inr y)"
  by (cases m) auto

lemma attempt_eq_Inl: "attempt m f = Inl e \<longleftrightarrow> m = Inl e \<or> (\<exists>x. m = Inr x \<and> f x = Inl e)"
  by (cases m) auto

end
