(* ===== verification/Byte_Order.thy ===== *)
theory Byte_Order
  imports Shield_Prelude
begin

section \<open>Integers on the wire\<close>

text \<open>
  The width and byte-order helpers at the top of \<open>src/src/transport/protocol.cpp\<close>:
  \<open>valid_integer_width\<close>, \<open>read_uint\<close>, \<open>write_uint\<close>, \<open>fits_width\<close> and
  \<open>body_length_from_field\<close>.  The lemmas show that reading back a written integer gives the
  integer whenever it fits the width, for both byte orders, and that \<open>write_uint\<close> always
  appends exactly \<open>width\<close> bytes.
\<close>

datatype Endian = Big | Little

definition valid_integer_width :: "u8 \<Rightarrow> bool" where
  "valid_integer_width width \<longleftrightarrow> width = 1 \<or> width = 2 \<or> width = 4 \<or> width = 8"

text \<open>The two loops of \<open>read_uint\<close>, over the bytes that are left.\<close>

fun read_uint_be :: "u64 \<Rightarrow> bytes \<Rightarrow> u64" where
  "read_uint_be value [] = value"
| "read_uint_be value (byte # data) = read_uint_be (push_bit 8 value OR ucast byte) data"

fun read_uint_le :: "nat \<Rightarrow> u64 \<Rightarrow> bytes \<Rightarrow> u64" where
  "read_uint_le i value [] = value"
| "read_uint_le i value (byte # data) =
     read_uint_le (i + 1) (value OR push_bit (i * 8) (ucast byte)) data"

definition read_uint :: "bytes \<Rightarrow> Endian \<Rightarrow> u64" where
  "read_uint data endian = (if endian = Big then read_uint_be 0 data else read_uint_le 0 0 data)"

definition write_uint :: "u64 \<Rightarrow> u8 \<Rightarrow> Endian \<Rightarrow> bytes \<Rightarrow> bytes" where
  "write_uint value width endian out =
     (if endian = Big
      then out @ map (\<lambda>i. ucast (drop_bit ((unat width - 1 - i) * 8) value AND 255)) [0..<unat width]
      else out @ map (\<lambda>i. ucast (drop_bit (i * 8) value AND 255)) [0..<unat width])"

definition fits_width :: "u64 \<Rightarrow> u8 \<Rightarrow> bool" where
  "fits_width value width \<longleftrightarrow> (if 8 \<le> unat width then True else value < push_bit (unat width * 8) 1)"

text \<open>
  On a 64-bit platform the comparison with the maximum of \<open>std::size_t\<close> is always false for a
  \<open>std::uint64_t\<close>; it is kept as the source has it.
\<close>

definition body_length_from_field :: "u64 \<Rightarrow> nat \<Rightarrow> bool \<Rightarrow> nat option" where
  "body_length_from_field length_field header_size includes_header =
     (if \<not> includes_header
      then (if SIZE_MAX < unat length_field then None else Some (unat length_field))
      else if unat length_field < header_size \<or> SIZE_MAX < unat length_field then None
      else Some (unat length_field - header_size))"

subsection \<open>Lengths\<close>

lemma length_write_uint [simp]:
  "length (write_uint value width endian out) = length out + unat width"
  by (simp add: write_uint_def)

lemma write_uint_append: "write_uint value width endian out = out @ write_uint value width endian []"
  by (simp add: write_uint_def)

lemma valid_integer_width_pos: "valid_integer_width w \<Longrightarrow> 0 < unat w"
  by (auto simp: valid_integer_width_def)

lemma valid_integer_width_le: "valid_integer_width w \<Longrightarrow> unat w \<le> 8"
  by (auto simp: valid_integer_width_def)

lemma SIZE_MAX_u64: "\<not> SIZE_MAX < unat (x :: u64)"
  using unat_u64_less [of x] by (simp add: SIZE_MAX_def)

subsection \<open>Reading back what was written\<close>

lemma read_uint_be_step:
  "push_bit 8 (drop_bit (Suc k * 8) x) OR ucast (ucast (drop_bit (k * 8) x) :: u8) =
   drop_bit (k * 8) (x :: u64)"
proof (rule bit_word_eqI)
  fix n assume "n < LENGTH(64)"
  show "bit (push_bit 8 (drop_bit (Suc k * 8) x) OR ucast (ucast (drop_bit (k * 8) x) :: u8)) n =
        bit (drop_bit (k * 8) x) n"
  proof (cases "n < 8")
    case True
    then show ?thesis by (simp add: bit_simps)
  next
    case False
    then have "8 + k * 8 + (n - 8) = k * 8 + n" by simp
    then show ?thesis using False \<open>n < LENGTH(64)\<close> by (simp add: bit_simps)
  qed
qed

lemma be_bytes_Suc:
  "map (\<lambda>i. f (Suc k - 1 - i)) [0..<Suc k] = f k # map (\<lambda>i. f (k - 1 - i)) [0..<k]"
proof -
  have "map (\<lambda>i. f (Suc k - 1 - i)) [0..<Suc k] = f k # map (\<lambda>i. f (k - Suc i)) [0..<k]"
    by (simp add: upt_rec [of 0 "Suc k"] map_Suc_upt [symmetric] del: upt_Suc)
  then show ?thesis by simp
qed

lemma read_uint_be_bytes:
  "read_uint_be (drop_bit (k * 8) x) (map (\<lambda>i. ucast (drop_bit ((k - 1 - i) * 8) x)) [0..<k]) = x"
proof (induction k)
  case 0
  then show ?case by simp
next
  case (Suc k)
  have "map (\<lambda>i. ucast (drop_bit ((Suc k - 1 - i) * 8) x) :: u8) [0..<Suc k] =
        ucast (drop_bit (k * 8) x) # map (\<lambda>i. ucast (drop_bit ((k - 1 - i) * 8) x)) [0..<k]"
    by (rule be_bytes_Suc [where f = "\<lambda>j. ucast (drop_bit (j * 8) x)"])
  then show ?case
    using Suc.IH by (simp only: read_uint_be.simps read_uint_be_step)
qed

lemma read_uint_le_step:
  "take_bit (i * 8) x OR push_bit (i * 8) (ucast (ucast (drop_bit (i * 8) x) :: u8)) =
   take_bit (Suc i * 8) (x :: u64)"
proof (rule bit_word_eqI)
  fix n assume "n < LENGTH(64)"
  then show "bit (take_bit (i * 8) x OR push_bit (i * 8) (ucast (ucast (drop_bit (i * 8) x) :: u8))) n =
        bit (take_bit (Suc i * 8) x) n"
    by (cases "n < i * 8") (auto simp: bit_simps)
qed

lemma read_uint_le_bytes:
  "i \<le> k \<Longrightarrow>
   read_uint_le i (take_bit (i * 8) x) (map (\<lambda>j. ucast (drop_bit (j * 8) x)) [i..<k]) =
   take_bit (k * 8) x"
proof (induction "k - i" arbitrary: i)
  case 0
  then show ?case by simp
next
  case (Suc d)
  then have lt: "i < k" by simp
  have "read_uint_le i (take_bit (i * 8) x) (map (\<lambda>j. ucast (drop_bit (j * 8) x)) [i..<k]) =
        read_uint_le (Suc i) (take_bit (Suc i * 8) x) (map (\<lambda>j. ucast (drop_bit (j * 8) x)) [Suc i..<k])"
    using lt by (simp add: upt_conv_Cons read_uint_le_step [simplified mult_Suc] del: mult_Suc)
      (simp add: read_uint_le_step)
  also have "\<dots> = take_bit (k * 8) x"
    using Suc lt by (intro Suc.hyps) auto
  finally show ?case .
qed

lemma fits_width_unat:
  assumes "valid_integer_width w"
  shows "fits_width v w \<longleftrightarrow> unat v < 2 ^ (unat w * 8)"
proof (cases "8 \<le> unat w")
  case True
  with valid_integer_width_le [OF assms] have "unat w = 8" by simp
  then show ?thesis using unat_u64_less [of v] by (simp add: fits_width_def)
next
  case False
  then have "unat w * 8 < 64" by simp
  then have "unat (push_bit (unat w * 8) 1 :: u64) = 2 ^ (unat w * 8)"
    by (rule unat_push_bit_1)
  with False show ?thesis by (simp add: fits_width_def word_less_nat_alt)
qed

lemma fits_width_drop_bit:
  assumes "valid_integer_width w" "fits_width v w"
  shows "drop_bit (unat w * 8) v = 0"
proof -
  have "unat v < 2 ^ (unat w * 8)" using assms by (simp add: fits_width_unat)
  then have "unat (drop_bit (unat w * 8) v) = 0" by (simp only: unat_drop_bit_eq) (simp add: drop_bit_eq_div)
  then show ?thesis by (simp add: unat_eq_zero)
qed

lemma fits_width_take_bit:
  assumes "valid_integer_width w" "fits_width v w"
  shows "take_bit (unat w * 8) v = v"
proof -
  have "unat v < 2 ^ (unat w * 8)" using assms by (simp add: fits_width_unat)
  then have "unat (take_bit (unat w * 8) v) = unat v" by (simp add: unsigned_take_bit_eq) (simp add: take_bit_eq_mod)
  then show ?thesis by (rule word_unat_eq_iff [THEN iffD2])
qed

lemma read_write_uint [simp]:
  assumes "valid_integer_width w" "fits_width v w"
  shows "read_uint (write_uint v w e []) e = v"
proof (cases e)
  case Big
  then show ?thesis
    using read_uint_be_bytes [of "unat w" v] fits_width_drop_bit [OF assms]
    by (simp add: read_uint_def write_uint_def)
next
  case Little
  then show ?thesis
    using read_uint_le_bytes [of 0 "unat w" v] fits_width_take_bit [OF assms]
    by (simp add: read_uint_def write_uint_def)
qed

end
