(* ===== verification/Stream_Scan.thy ===== *)
theory Stream_Scan
  imports Shield_Prelude
begin

section \<open>Cutting packets off a byte stream\<close>

text \<open>
  Every \<open>feed\<close> of the transport layer appends the new bytes to a buffer and then runs a loop that
  looks at the front of the buffer: it waits for more bytes, fails (and drops the buffer), or cuts
  one packet off and goes round again.  \<open>scan\<close> is the outcome of one look and \<open>drain\<close> the loop.
  The loop is a partial function: \<open>None\<close> is a loop that never ends.

  The locale \<open>stream_scanner\<close> is the contract between such a decoder and its clients: a look never
  changes its mind when more bytes arrive.  From it follow, once for all decoders, that the loop
  ends, that no byte is lost or invented and that the packets do not depend on how the network
  split the stream.  \<open>framed_stream\<close> adds the encoder of the same format and gives the round trip
  for whole streams.
\<close>

datatype 'p scan = Wait | Fail string | Emit 'p nat

partial_function (option) drain ::
  "(bytes \<Rightarrow> 'p scan) \<Rightarrow> bytes \<Rightarrow> 'p list \<Rightarrow> ('p list \<times> bytes \<times> string) option" where
  "drain look buffer packets =
     (case look buffer of
        Wait \<Rightarrow> Some (packets, buffer, [])
      | Fail e \<Rightarrow> Some (packets, [], e)
      | Emit p n \<Rightarrow> drain look (drop n buffer) (packets @ [p]))"

text \<open>Several reads of a connection, which is given up at the first failure.\<close>

fun drain_chunks ::
  "(bytes \<Rightarrow> 'p scan) \<Rightarrow> bytes \<Rightarrow> bytes list \<Rightarrow> ('p list \<times> bytes \<times> string) option" where
  "drain_chunks look buffer [] = Some ([], buffer, [])"
| "drain_chunks look buffer (c # cs) =
     (case drain look (buffer @ c) [] of
        None \<Rightarrow> None
      | Some (ps, rest, e) \<Rightarrow>
          if e \<noteq> [] then Some (ps, rest, e)
          else map_option (\<lambda>(qs, r, e'). (ps @ qs, r, e')) (drain_chunks look rest cs))"

abbreviation after_packets ::
  "'p list \<Rightarrow> ('p list \<times> bytes \<times> string) option \<Rightarrow> ('p list \<times> bytes \<times> string) option" where
  "after_packets ps \<equiv> map_option (\<lambda>(qs, r, e). (ps @ qs, r, e))"

lemma drain_simps:
  "look b = Wait \<Longrightarrow> drain look b acc = Some (acc, b, [])"
  "look b = Fail e \<Longrightarrow> drain look b acc = Some (acc, [], e)"
  "look b = Emit p n \<Longrightarrow> drain look b acc = drain look (drop n b) (acc @ [p])"
  by (simp_all add: drain.simps [of look b])

locale stream_scanner =
  fixes ok :: "'c \<Rightarrow> bool"
    and scan :: "'c \<Rightarrow> bytes \<Rightarrow> 'p scan"
    and raw :: "'p \<Rightarrow> bytes"
  assumes empty_wait: "ok c \<Longrightarrow> scan c [] = Wait"
    and emit_raw: "ok c \<Longrightarrow> scan c b = Emit p n \<Longrightarrow> 0 < n \<and> n \<le> length b \<and> raw p = take n b"
    and emit_extend: "ok c \<Longrightarrow> scan c b = Emit p n \<Longrightarrow> scan c (b @ more) = Emit p n"
    and fail_extend: "ok c \<Longrightarrow> scan c b = Fail e \<Longrightarrow> scan c (b @ more) = Fail e"
    and fail_named: "ok c \<Longrightarrow> scan c b = Fail e \<Longrightarrow> e \<noteq> []"
begin

lemma drain_acc:
  "ok c \<Longrightarrow> drain (scan c) b acc = after_packets acc (drain (scan c) b [])"
proof (induction b arbitrary: acc rule: length_induct)
  case (1 b)
  show ?case
  proof (cases "scan c b")
    case (Emit p n)
    with emit_raw [OF "1.prems"] have "length (drop n b) < length b" by fastforce
    with "1.IH" "1.prems"
    have IH: "\<And>acc. drain (scan c) (drop n b) acc = after_packets acc (drain (scan c) (drop n b) [])"
      by blast
    have "drain (scan c) b acc = after_packets (acc @ [p]) (drain (scan c) (drop n b) [])"
      using Emit IH [of "acc @ [p]"] by (simp add: drain.simps [of "scan c" b])
    moreover have "drain (scan c) b [] = after_packets [p] (drain (scan c) (drop n b) [])"
      using Emit IH [of "[p]"] by (simp add: drain.simps [of "scan c" b])
    ultimately show ?thesis
      by (cases "drain (scan c) (drop n b) []") auto
  qed (simp_all add: drain.simps [of "scan c" b])
qed

lemma drain_Emit:
  "ok c \<Longrightarrow> scan c b = Emit p n \<Longrightarrow>
   drain (scan c) b [] = after_packets [p] (drain (scan c) (drop n b) [])"
  using drain_acc [of c "drop n b" "[p]"] by (simp add: drain.simps [of "scan c" b])

lemma drain_Wait [simp]: "scan c b = Wait \<Longrightarrow> drain (scan c) b acc = Some (acc, b, [])"
  by (simp add: drain.simps [of "scan c" b])

lemma drain_Fail [simp]: "scan c b = Fail e \<Longrightarrow> drain (scan c) b acc = Some (acc, [], e)"
  by (simp add: drain.simps [of "scan c" b])

lemma drain_induct [consumes 1, case_names Wait Fail Emit]:
  assumes "ok c"
    and "\<And>b. ok c \<Longrightarrow> scan c b = Wait \<Longrightarrow> P b"
    and "\<And>b e. ok c \<Longrightarrow> scan c b = Fail e \<Longrightarrow> P b"
    and "\<And>b p n. ok c \<Longrightarrow> scan c b = Emit p n \<Longrightarrow> 0 < n \<Longrightarrow> n \<le> length b \<Longrightarrow> raw p = take n b \<Longrightarrow>
           P (drop n b) \<Longrightarrow> P b"
  shows "P b"
proof (induction b rule: length_induct)
  case (1 b)
  show ?case
  proof (cases "scan c b")
    case (Emit p n)
    with emit_raw [OF assms(1)] have n: "0 < n" "n \<le> length b" "raw p = take n b" by blast+
    then have "P (drop n b)" using "1.IH" by simp
    with assms(1) Emit n show ?thesis by (rule assms(4))
  qed (use assms in blast)+
qed

text \<open>The loop ends on every buffer.\<close>

lemma drain_returns: "ok c \<Longrightarrow> \<exists>ps rest e. drain (scan c) b [] = Some (ps, rest, e)"
  by (induction b rule: drain_induct) (auto simp: drain_Emit)

text \<open>The packets and what is left over are the buffer, byte for byte.\<close>

lemma drain_conserves:
  "ok c \<Longrightarrow> drain (scan c) b [] = Some (ps, rest, []) \<Longrightarrow> concat (map raw ps) @ rest = b"
proof (induction b arbitrary: ps rest rule: drain_induct)
  case (Emit b p n)
  from Emit.prems Emit.hyps \<open>ok c\<close> obtain qs where
    q: "drain (scan c) (drop n b) [] = Some (qs, rest, [])" "ps = p # qs"
    by (auto simp: drain_Emit)
  from q(1) have "concat (map raw qs) @ rest = drop n b" by (rule Emit.IH)
  with Emit.hyps q(2) show ?case by simp
qed (auto dest: fail_named)

text \<open>Even when the loop fails, what it delivered before is a prefix of the buffer.\<close>

lemma drain_prefix:
  "ok c \<Longrightarrow> drain (scan c) b [] = Some (ps, rest, e) \<Longrightarrow> \<exists>tail. b = concat (map raw ps) @ tail"
proof (induction b arbitrary: ps rest rule: drain_induct)
  case (Emit b p n)
  from Emit.prems Emit.hyps \<open>ok c\<close> obtain qs where
    q: "drain (scan c) (drop n b) [] = Some (qs, rest, e)" "ps = p # qs"
    by (auto simp: drain_Emit)
  with Emit.IH obtain tail where tail: "drop n b = concat (map raw qs) @ tail" by blast
  have "concat (map raw ps) @ tail = take n b @ drop n b"
    using Emit.hyps q(2) tail by simp
  then show ?case by (metis append_take_drop_id)
qed auto

lemma drain_idle:
  "ok c \<Longrightarrow> drain (scan c) b [] = Some (ps, rest, e) \<Longrightarrow> scan c rest = Wait"
proof (induction b arbitrary: ps rest rule: drain_induct)
  case (Emit b p n)
  from Emit.prems Emit.hyps \<open>ok c\<close> obtain qs where
    "drain (scan c) (drop n b) [] = Some (qs, rest, e)" by (auto simp: drain_Emit)
  then show ?case by (rule Emit.IH)
qed (auto intro: empty_wait)

lemma drain_append:
  "ok c \<Longrightarrow> drain (scan c) b [] = Some (ps, rest, []) \<Longrightarrow>
   drain (scan c) (b @ more) [] = after_packets ps (drain (scan c) (rest @ more) [])"
proof (induction b arbitrary: ps rest rule: drain_induct)
  case (Wait b)
  then show ?case by (cases "drain (scan c) (b @ more) []") auto
next
  case (Fail b e)
  then show ?case by (auto dest: fail_named)
next
  case (Emit b p n)
  from Emit.prems Emit.hyps \<open>ok c\<close> obtain qs where
    q: "drain (scan c) (drop n b) [] = Some (qs, rest, [])" "ps = p # qs"
    by (auto simp: drain_Emit)
  have "drain (scan c) (b @ more) [] = after_packets [p] (drain (scan c) (drop n (b @ more)) [])"
    using Emit.hyps \<open>ok c\<close> by (intro drain_Emit emit_extend) auto
  also have "drop n (b @ more) = drop n b @ more" using Emit.hyps by simp
  also have "drain (scan c) (drop n b @ more) [] = after_packets qs (drain (scan c) (rest @ more) [])"
    using q(1) by (rule Emit.IH)
  finally show ?case using q(2) by (cases "drain (scan c) (rest @ more) []") auto
qed

lemma drain_append_fail:
  "ok c \<Longrightarrow> drain (scan c) b [] = Some (ps, rest, e) \<Longrightarrow> e \<noteq> [] \<Longrightarrow>
   drain (scan c) (b @ more) [] = Some (ps, [], e)"
proof (induction b arbitrary: ps rest rule: drain_induct)
  case (Fail b e')
  then show ?case using fail_extend [of c b e' more] by simp
next
  case (Emit b p n)
  from Emit.prems Emit.hyps \<open>ok c\<close> obtain qs where
    q: "drain (scan c) (drop n b) [] = Some (qs, rest, e)" "ps = p # qs"
    by (auto simp: drain_Emit)
  have "drain (scan c) (b @ more) [] = after_packets [p] (drain (scan c) (drop n b @ more) [])"
    using Emit.hyps \<open>ok c\<close> drain_Emit [OF _ emit_extend [of c b p n more]] by simp
  with Emit.IH [OF q(1) Emit.prems(2)] q(2) show ?case by simp
qed simp

lemma drain_fail_rest:
  "ok c \<Longrightarrow> drain (scan c) b [] = Some (ps, rest, e) \<Longrightarrow> e \<noteq> [] \<Longrightarrow> rest = []"
proof (induction b arbitrary: ps rest rule: drain_induct)
  case (Emit b p n)
  from Emit.prems Emit.hyps \<open>ok c\<close> obtain qs where
    "drain (scan c) (drop n b) [] = Some (qs, rest, e)" by (auto simp: drain_Emit)
  then show ?case using Emit.prems(2) by (rule Emit.IH)
qed auto

text \<open>How the stream was split into reads does not matter.\<close>

lemma drain_chunks_concat:
  "ok c \<Longrightarrow> scan c b = Wait \<Longrightarrow>
   drain_chunks (scan c) b cs = drain (scan c) (b @ concat cs) []"
proof (induction cs arbitrary: b)
  case Nil
  then show ?case by simp
next
  case (Cons x cs)
  obtain ps rest e where d: "drain (scan c) (b @ x) [] = Some (ps, rest, e)"
    using drain_returns [OF Cons.prems(1)] by blast
  show ?case
  proof (cases "e = []")
    case True
    then have "drain_chunks (scan c) rest cs = drain (scan c) (rest @ concat cs) []"
      using Cons drain_idle [OF Cons.prems(1) d] by simp
    with True d show ?thesis
      using drain_append [OF Cons.prems(1), of "b @ x" ps rest "concat cs"] by simp
  next
    case False
    with d show ?thesis
      using drain_append_fail [OF Cons.prems(1) d False, of "concat cs"]
        drain_fail_rest [OF Cons.prems(1) d False] by simp
  qed
qed

end

locale framed_stream = stream_scanner ok scan raw
  for ok :: "'c \<Rightarrow> bool" and scan :: "'c \<Rightarrow> bytes \<Rightarrow> 'p scan" and raw :: "'p \<Rightarrow> bytes" +
  fixes sendable :: "'c \<Rightarrow> 'm \<Rightarrow> bool"
    and enc :: "'c \<Rightarrow> 'm \<Rightarrow> bytes"
    and pkt :: "'c \<Rightarrow> 'm \<Rightarrow> 'p"
  assumes enc_scan: "ok c \<Longrightarrow> sendable c m \<Longrightarrow> scan c (enc c m) = Emit (pkt c m) (length (enc c m))"
begin

text \<open>A receiver gets back exactly the messages of a stream, in order, and nothing is left.\<close>

lemma drain_encoded:
  "ok c \<Longrightarrow> list_all (sendable c) ms \<Longrightarrow>
   drain (scan c) (concat (map (enc c) ms)) [] = Some (map (pkt c) ms, [], [])"
proof (induction ms)
  case Nil
  then show ?case by (simp add: empty_wait)
next
  case (Cons m ms)
  then have m: "scan c (enc c m) = Emit (pkt c m) (length (enc c m))" by (simp add: enc_scan)
  have "scan c (enc c m @ concat (map (enc c) ms)) = Emit (pkt c m) (length (enc c m))"
    using Cons.prems(1) m by (rule emit_extend)
  with Cons show ?case by (simp add: drain_Emit)
qed

lemma drain_chunks_encoded:
  "ok c \<Longrightarrow> list_all (sendable c) ms \<Longrightarrow> concat chunks = concat (map (enc c) ms) \<Longrightarrow>
   drain_chunks (scan c) [] chunks = Some (map (pkt c) ms, [], [])"
  using drain_chunks_concat [of c "[]" chunks] by (simp add: drain_encoded empty_wait)

end

end
