(* ===== verification/Frame.thy ===== *)
theory Frame
  imports Stream_Scan
begin

section \<open>Length-prefixed frames\<close>

text \<open>
  \<open>src/include/shield/transport/frame.hpp\<close> and \<open>src/src/transport/frame.cpp\<close>: the 8-byte frame
  header in network byte order, \<open>Frame::serialize\<close> and \<open>Frame::parse\<close>, and the incremental
  \<open>FrameDecoder\<close> with its cached header.  \<open>frame_scan\<close> states what the decoder has to find at the
  front of its buffer; the decoder loop, which remembers a header between two calls, is shown to
  implement it, and so inherits the stream laws of \<open>framed_stream\<close>.
\<close>

subsection \<open>Headers and frames\<close>

record FrameHeader =
  fh_length :: u32
  fh_flags :: u16
  fh_type :: u16

definition HEADER_SIZE :: nat where
  "HEADER_SIZE = 8"

text \<open>The callers pass at least \<open>HEADER_SIZE\<close> bytes.\<close>

definition from_network :: "bytes \<Rightarrow> FrameHeader" where
  "from_network data =
     \<lparr> fh_length = push_bit 24 (ucast (data ! 0)) OR push_bit 16 (ucast (data ! 1))
         OR push_bit 8 (ucast (data ! 2)) OR ucast (data ! 3),
       fh_flags = push_bit 8 (ucast (data ! 4)) OR ucast (data ! 5),
       fh_type = push_bit 8 (ucast (data ! 6)) OR ucast (data ! 7) \<rparr>"

definition to_network :: "FrameHeader \<Rightarrow> bytes" where
  "to_network h =
     [ucast (drop_bit 24 (fh_length h) AND 255), ucast (drop_bit 16 (fh_length h) AND 255),
      ucast (drop_bit 8 (fh_length h) AND 255), ucast (fh_length h AND 255),
      ucast (drop_bit 8 (fh_flags h) AND 255), ucast (fh_flags h AND 255),
      ucast (drop_bit 8 (fh_type h) AND 255), ucast (fh_type h AND 255)]"

record Frame =
  fr_header :: FrameHeader
  fr_payload :: bytes

text \<open>The constructor casts the payload size to 32 bits.\<close>

definition new_Frame :: "u16 \<Rightarrow> bytes \<Rightarrow> Frame" where
  "new_Frame type payload =
     \<lparr> fr_header = \<lparr> fh_length = of_nat (length payload), fh_flags = 0, fh_type = type \<rparr>,
       fr_payload = payload \<rparr>"

text \<open>Both operands of \<open>HEADER_SIZE + header_.length\<close> are 32 bits wide, and so is the sum.\<close>

definition total_size :: "Frame \<Rightarrow> nat" where
  "total_size f = unat (8 + fh_length (fr_header f) :: u32)"

definition serialize :: "Frame \<Rightarrow> bytes" where
  "serialize f = to_network (fr_header f) @ fr_payload f"

text \<open>An incomplete frame has overwritten the header when \<open>parse\<close> returns false.\<close>

definition parse_frame :: "Frame \<Rightarrow> bytes \<Rightarrow> bool \<times> Frame" where
  "parse_frame f data =
     (if length data < HEADER_SIZE then (False, f)
      else let h = from_network data; f' = f\<lparr> fr_header := h \<rparr> in
        if length data - HEADER_SIZE < unat (fh_length h) then (False, f')
        else (True, f'\<lparr> fr_payload := take (unat (fh_length h)) (drop HEADER_SIZE data) \<rparr>))"

subsection \<open>The decoder\<close>

record FrameDecoder =
  fd_buffer :: bytes
  fd_header :: FrameHeader
  fd_needed :: nat
  fd_have_header :: bool
  fd_max_frame_size :: nat
  fd_error :: string

definition new_FrameDecoder :: "nat \<Rightarrow> FrameDecoder" where
  "new_FrameDecoder max_frame_size =
     \<lparr> fd_buffer = [], fd_header = \<lparr> fh_length = 0, fh_flags = 0, fh_type = 0 \<rparr>,
       fd_needed = HEADER_SIZE, fd_have_header = False,
       fd_max_frame_size = max_frame_size, fd_error = [] \<rparr>"

definition set_max_frame_size :: "nat \<Rightarrow> FrameDecoder \<Rightarrow> FrameDecoder" where
  "set_max_frame_size n d = d\<lparr> fd_max_frame_size := n \<rparr>"

definition reset_decoder :: "FrameDecoder \<Rightarrow> FrameDecoder" where
  "reset_decoder d = d\<lparr> fd_buffer := [], fd_needed := HEADER_SIZE, fd_have_header := False \<rparr>"

definition too_large_error :: "nat \<Rightarrow> nat \<Rightarrow> string" where
  "too_large_error len max_size =
     ''frame too large: '' @ to_string_nat len @ '' bytes (max '' @ to_string_nat max_size @ '')''"

text \<open>The first half of an iteration: \<open>Inl\<close> is the state at a \<open>break\<close>.\<close>

definition acquire_header :: "FrameDecoder \<Rightarrow> FrameDecoder + FrameDecoder" where
  "acquire_header d =
     (if fd_have_header d then Inr d
      else if length (fd_buffer d) < HEADER_SIZE
        then Inl (d\<lparr> fd_needed := HEADER_SIZE - length (fd_buffer d) \<rparr>)
      else let h = from_network (fd_buffer d) in
        if 0 < fd_max_frame_size d \<and> fd_max_frame_size d < unat (fh_length h)
        then Inl (reset_decoder (d\<lparr> fd_header := h,
               fd_error := too_large_error (unat (fh_length h)) (fd_max_frame_size d) \<rparr>))
        else Inr (d\<lparr> fd_header := h, fd_needed := unat (fh_length h), fd_have_header := True \<rparr>))"

lemma acquire_header_buffer: "acquire_header d = Inr d' \<Longrightarrow> fd_buffer d' = fd_buffer d"
  by (auto simp: acquire_header_def Let_def split: if_splits)

function feed_loop :: "FrameDecoder \<Rightarrow> Frame list \<Rightarrow> Frame list \<times> FrameDecoder" where
  "feed_loop d frames =
     (if fd_buffer d = [] then (frames, d)
      else case acquire_header d of
        Inl d' \<Rightarrow> (frames, d')
      | Inr d' \<Rightarrow>
          if length (fd_buffer d') < HEADER_SIZE + fd_needed d' then (frames, d')
          else let n = unat (fh_length (fd_header d')) in
            feed_loop
              (d'\<lparr> fd_buffer := drop (HEADER_SIZE + n) (fd_buffer d'),
                   fd_have_header := False, fd_needed := HEADER_SIZE \<rparr>)
              (frames @ [\<lparr> fr_header = fd_header d',
                           fr_payload = take n (drop HEADER_SIZE (fd_buffer d')) \<rparr>]))"
  by pat_completeness auto
termination
  by (relation "measure (\<lambda>(d, frames). length (fd_buffer d))")
    (auto simp: HEADER_SIZE_def dest: acquire_header_buffer)

declare feed_loop.simps [simp del]

definition decoder_feed :: "FrameDecoder \<Rightarrow> bytes \<Rightarrow> Frame list \<times> FrameDecoder" where
  "decoder_feed d data =
     feed_loop (d\<lparr> fd_error := [], fd_buffer := fd_buffer d @ data \<rparr>) []"

definition encoder_encode :: "Frame \<Rightarrow> bytes" where
  "encoder_encode f = serialize f"

text \<open>Consecutive reads handed to one decoder, with all the frames it produced.\<close>

fun decoder_feed_all :: "FrameDecoder \<Rightarrow> bytes list \<Rightarrow> Frame list \<times> FrameDecoder" where
  "decoder_feed_all d [] = ([], d)"
| "decoder_feed_all d (chunk # chunks) =
     (let (fs, d') = decoder_feed d chunk; (gs, d'') = decoder_feed_all d' chunks in (fs @ gs, d''))"

subsection \<open>What the decoder has to find\<close>

definition frame_scan :: "nat \<Rightarrow> bytes \<Rightarrow> Frame scan" where
  "frame_scan max_size b =
     (if length b < HEADER_SIZE then Wait
      else let h = from_network b; n = unat (fh_length h) in
        if 0 < max_size \<and> max_size < n then Fail (too_large_error n max_size)
        else if length b < HEADER_SIZE + n then Wait
        else Emit \<lparr> fr_header = h, fr_payload = take n (drop HEADER_SIZE b) \<rparr> (HEADER_SIZE + n))"

definition well_formed_frame :: "nat \<Rightarrow> Frame \<Rightarrow> bool" where
  "well_formed_frame max_size f \<longleftrightarrow>
     unat (fh_length (fr_header f)) = length (fr_payload f) \<and>
     (0 < max_size \<longrightarrow> length (fr_payload f) \<le> max_size)"

definition decoder_inv :: "FrameDecoder \<Rightarrow> bool" where
  "decoder_inv d \<longleftrightarrow>
     (fd_have_header d \<longrightarrow>
        HEADER_SIZE \<le> length (fd_buffer d) \<and>
        fd_header d = from_network (fd_buffer d) \<and>
        fd_needed d = unat (fh_length (fd_header d)) \<and>
        (0 < fd_max_frame_size d \<longrightarrow> fd_needed d \<le> fd_max_frame_size d))"

subsection \<open>Header round trips\<close>

lemma length_to_network [simp]: "length (to_network h) = HEADER_SIZE"
  by (simp add: to_network_def HEADER_SIZE_def)

lemma join_u32:
  "push_bit 24 (ucast (ucast (drop_bit 24 x) :: u8)) OR push_bit 16 (ucast (ucast (drop_bit 16 x) :: u8))
     OR push_bit 8 (ucast (ucast (drop_bit 8 x) :: u8)) OR ucast (ucast x :: u8) = (x :: u32)"
  (is "?joined = x")
proof (rule bit_word_eqI)
  fix n assume n: "n < LENGTH(32)"
  then consider "n < 8" | "8 \<le> n" "n < 16" | "16 \<le> n" "n < 24" | "24 \<le> n" "n < 32" by fastforce
  then show "bit ?joined n = bit x n"
    by cases (auto simp: bit_simps)
qed

lemma join_u16: "push_bit 8 (ucast (ucast (drop_bit 8 x) :: u8)) OR ucast (ucast x :: u8) = (x :: u16)"
  (is "?joined = x")
proof (rule bit_word_eqI)
  fix n assume "n < LENGTH(16)"
  then show "bit ?joined n = bit x n"
    by (cases "n < 8") (auto simp: bit_simps)
qed

lemma from_to_network [simp]: "from_network (to_network h @ rest) = h"
  by (simp add: from_network_def to_network_def join_u32 join_u16)

lemma from_network_extend: "HEADER_SIZE \<le> length b \<Longrightarrow> from_network (b @ tail) = from_network b"
  by (auto simp: from_network_def HEADER_SIZE_def nth_append)

lemma split_u32:
  fixes a b c d :: u8
  defines "x \<equiv> push_bit 24 (ucast a) OR push_bit 16 (ucast b) OR push_bit 8 (ucast c) OR ucast d :: u32"
  shows "ucast (drop_bit 24 x) = a" "ucast (drop_bit 16 x) = b" "ucast (drop_bit 8 x) = c" "ucast x = d"
  unfolding x_def by (rule bit_word_eqI; auto simp: bit_simps dest: bit_imp_le_length)+

lemma split_u16:
  fixes a b :: u8
  defines "x \<equiv> push_bit 8 (ucast a) OR ucast b :: u16"
  shows "ucast (drop_bit 8 x) = a" "ucast x = b"
  unfolding x_def by (rule bit_word_eqI; auto simp: bit_simps dest: bit_imp_le_length)+

lemma to_from_network: "HEADER_SIZE \<le> length b \<Longrightarrow> to_network (from_network b) = take HEADER_SIZE b"
proof -
  assume "HEADER_SIZE \<le> length b"
  then obtain b0 b1 b2 b3 b4 b5 b6 b7 bs where "b = b0 # b1 # b2 # b3 # b4 # b5 # b6 # b7 # bs"
    by (auto simp: HEADER_SIZE_def numeral_eq_Suc Suc_le_length_iff)
  then show ?thesis
    by (simp add: to_network_def from_network_def HEADER_SIZE_def split_u32 split_u16 del: drop_bit_or)
qed

subsection \<open>The scanner keeps the contract\<close>

lemma frame_scan_Emit:
  "frame_scan m b = Emit f n \<longleftrightarrow>
     HEADER_SIZE \<le> length b \<and> n = HEADER_SIZE + unat (fh_length (from_network b)) \<and> n \<le> length b \<and>
     (0 < m \<longrightarrow> unat (fh_length (from_network b)) \<le> m) \<and>
     f = \<lparr> fr_header = from_network b,
           fr_payload = take (unat (fh_length (from_network b))) (drop HEADER_SIZE b) \<rparr>"
  by (auto simp: frame_scan_def Let_def)

lemma frame_scan_Fail:
  "frame_scan m b = Fail e \<longleftrightarrow>
     HEADER_SIZE \<le> length b \<and> 0 < m \<and> m < unat (fh_length (from_network b)) \<and>
     e = too_large_error (unat (fh_length (from_network b))) m"
  by (auto simp: frame_scan_def Let_def)

lemma frame_scan_Wait_bound:
  "frame_scan m b = Wait \<Longrightarrow> 0 < m \<Longrightarrow> length b < HEADER_SIZE + m"
  by (auto simp: frame_scan_def Let_def split: if_splits)

interpretation frames: framed_stream "\<lambda>_. True" frame_scan serialize well_formed_frame
  "\<lambda>_. serialize" "\<lambda>_ f. f"
proof
  fix m b p n
  assume "frame_scan m b = Emit p n"
  then show "0 < n \<and> n \<le> length b \<and> serialize p = take n b"
    by (auto simp: frame_scan_Emit serialize_def to_from_network take_add HEADER_SIZE_def)
next
  fix m b p n tail
  assume "frame_scan m b = Emit p n"
  then show "frame_scan m (b @ tail) = Emit p n"
    by (auto simp: frame_scan_Emit from_network_extend)
next
  fix m b e tail
  assume "frame_scan m b = Fail e"
  then show "frame_scan m (b @ tail) = Fail e"
    by (auto simp: frame_scan_Fail from_network_extend)
next
  fix m f
  assume "well_formed_frame m f"
  then show "frame_scan m (serialize f) = Emit f (length (serialize f))"
    by (auto simp: frame_scan_Emit well_formed_frame_def serialize_def)
next
  fix m b e
  assume "frame_scan m b = Fail e"
  then show "e \<noteq> []" by (simp add: frame_scan_Fail too_large_error_def)
qed (simp add: frame_scan_def HEADER_SIZE_def)

subsection \<open>The decoder implements the scanner\<close>

lemma acquire_header_Inl:
  assumes "acquire_header d = Inl d'" "fd_error d = []"
  shows "drain (frame_scan (fd_max_frame_size d)) (fd_buffer d) frames =
           Some (frames, fd_buffer d', fd_error d')"
    and "decoder_inv d'" and "fd_max_frame_size d' = fd_max_frame_size d"
proof -
  show "drain (frame_scan (fd_max_frame_size d)) (fd_buffer d) frames =
           Some (frames, fd_buffer d', fd_error d')"
    using assms
    by (auto simp: acquire_header_def reset_decoder_def Let_def frame_scan_def
        intro!: drain_simps(1,2) split: if_splits)
qed (use assms in \<open>auto simp: acquire_header_def decoder_inv_def reset_decoder_def Let_def split: if_splits\<close>)

lemma acquire_header_Inr:
  assumes "acquire_header d = Inr d'" "decoder_inv d"
  shows "decoder_inv d'" "fd_have_header d'" "fd_error d' = fd_error d"
    "fd_buffer d' = fd_buffer d" "fd_max_frame_size d' = fd_max_frame_size d"
  using assms by (auto simp: acquire_header_def decoder_inv_def Let_def split: if_splits)

lemma have_header_scan:
  assumes "decoder_inv d" "fd_have_header d"
  shows "frame_scan (fd_max_frame_size d) (fd_buffer d) =
    (if length (fd_buffer d) < HEADER_SIZE + fd_needed d then Wait
     else Emit \<lparr> fr_header = fd_header d,
                 fr_payload = take (unat (fh_length (fd_header d))) (drop HEADER_SIZE (fd_buffer d)) \<rparr>
            (HEADER_SIZE + unat (fh_length (fd_header d))))"
  using assms by (auto simp: frame_scan_def decoder_inv_def Let_def)

lemma feed_loop_drain:
  assumes "decoder_inv d" "fd_error d = []" "feed_loop d frames = (fs, d')"
  shows "drain (frame_scan (fd_max_frame_size d)) (fd_buffer d) frames = Some (fs, fd_buffer d', fd_error d')
    \<and> decoder_inv d' \<and> fd_max_frame_size d' = fd_max_frame_size d"
  using assms
proof (induction d frames rule: feed_loop.induct)
  case (1 d frames)
  show ?case
  proof (cases "fd_buffer d = []")
    case True
    with "1.prems" show ?thesis
      by (auto simp: feed_loop.simps [of d] frame_scan_def HEADER_SIZE_def intro!: drain_simps(1))
  next
    case nonempty: False
    show ?thesis
    proof (cases "acquire_header d")
      case (Inl d1)
      with nonempty "1.prems" acquire_header_Inl [OF Inl] show ?thesis
        by (auto simp: feed_loop.simps [of d])
    next
      case (Inr d1)
      note h = acquire_header_Inr [OF Inr "1.prems"(1)]
      note sc = have_header_scan [OF h(1,2)]
      show ?thesis
      proof (cases "length (fd_buffer d1) < HEADER_SIZE + fd_needed d1")
        case True
        with nonempty Inr "1.prems" h sc show ?thesis
          by (auto simp: feed_loop.simps [of d] intro!: drain_simps(1))
      next
        case False
        let ?n = "unat (fh_length (fd_header d1))"
        let ?d2 = "d1\<lparr> fd_buffer := drop (HEADER_SIZE + ?n) (fd_buffer d1),
                      fd_have_header := False, fd_needed := HEADER_SIZE \<rparr>"
        let ?f = "\<lparr> fr_header = fd_header d1, fr_payload = take ?n (drop HEADER_SIZE (fd_buffer d1)) \<rparr>"
        have "feed_loop ?d2 (frames @ [?f]) = (fs, d')"
          using "1.prems"(3) nonempty Inr False by (simp add: feed_loop.simps [of d] Let_def)
        then have "drain (frame_scan (fd_max_frame_size ?d2)) (fd_buffer ?d2) (frames @ [?f]) =
              Some (fs, fd_buffer d', fd_error d')
            \<and> decoder_inv d' \<and> fd_max_frame_size d' = fd_max_frame_size ?d2"
          using "1.prems"(2) h(3) by (intro "1.IH" [OF nonempty Inr False refl]) (auto simp: decoder_inv_def)
        with False sc h show ?thesis
          by (simp add: drain_simps(3))
      qed
    qed
  qed
qed

lemma decoder_feed_drain:
  assumes "decoder_inv d" "decoder_feed d data = (fs, d')"
  shows "drain (frame_scan (fd_max_frame_size d)) (fd_buffer d @ data) [] =
           Some (fs, fd_buffer d', fd_error d')"
    and "decoder_inv d'" and "fd_max_frame_size d' = fd_max_frame_size d"
proof -
  let ?d = "d\<lparr> fd_error := [], fd_buffer := fd_buffer d @ data \<rparr>"
  have "decoder_inv ?d" using assms(1) by (auto simp: decoder_inv_def from_network_extend)
  from feed_loop_drain [OF this _ assms(2) [unfolded decoder_feed_def]]
  show "drain (frame_scan (fd_max_frame_size d)) (fd_buffer d @ data) [] =
           Some (fs, fd_buffer d', fd_error d')"
    and "decoder_inv d'" and "fd_max_frame_size d' = fd_max_frame_size d" by auto
qed

lemma fr_payload_new [simp]: "fr_payload (new_Frame t p) = p"
  by (simp add: new_Frame_def)

lemma decoder_inv_new [simp]: "decoder_inv (new_FrameDecoder n)"
  by (simp add: decoder_inv_def new_FrameDecoder_def)

lemma decoder_feed_all_drain:
  assumes "decoder_inv d"
    and "drain_chunks (frame_scan (fd_max_frame_size d)) (fd_buffer d) chunks = Some (fs, rest, [])"
    and "fd_error d = []"
  shows "\<exists>d'. decoder_feed_all d chunks = (fs, d') \<and> fd_buffer d' = rest \<and> fd_error d' = []"
  using assms
proof (induction chunks arbitrary: d fs)
  case Nil
  then show ?case by simp
next
  case (Cons chunk chunks)
  obtain gs d1 where f: "decoder_feed d chunk = (gs, d1)" by fastforce
  note D = decoder_feed_drain [OF Cons.prems(1) f]
  from Cons.prems(2) D(1) obtain hs where
    "drain_chunks (frame_scan (fd_max_frame_size d1)) (fd_buffer d1) chunks = Some (hs, rest, [])"
    "fs = gs @ hs"
    and "fd_error d1 = []"
    using D(3) by (auto split: if_splits)
  with Cons.IH [OF D(2)] f show ?case by force
qed

subsection \<open>Properties\<close>

text \<open>
  C3. Whatever way the network splits a stream of serialized frames into reads, a fresh
  \<open>FrameDecoder\<close> hands out exactly those frames, in order, with an empty buffer and no error at
  the end.
\<close>

theorem decoder_reassembles_frames:
  assumes "list_all (well_formed_frame n) fs"
    and "concat chunks = concat (map encoder_encode fs)"
  shows "\<exists>d'. decoder_feed_all (new_FrameDecoder n) chunks = (fs, d') \<and> fd_buffer d' = [] \<and> fd_error d' = []"
proof (rule decoder_feed_all_drain)
  have "concat (map encoder_encode fs) = concat (map serialize fs)"
    by (simp add: encoder_encode_def cong: map_cong)
  then show "drain_chunks (frame_scan (fd_max_frame_size (new_FrameDecoder n)))
          (fd_buffer (new_FrameDecoder n)) chunks = Some (fs, [], [])"
    using assms frames.drain_chunks_encoded [of n fs chunks] by (simp add: new_FrameDecoder_def)
qed (simp, simp add: new_FrameDecoder_def)

theorem decoder_reassembles_frames_witness:
  "\<exists>d'. decoder_feed_all (new_FrameDecoder 16) [[0, 0, 0], [2, 0, 0, 0, 7, 65], [66]] =
      ([new_Frame 7 [65, 66]], d') \<and> fd_buffer d' = [] \<and> fd_error d' = []"
  by (rule decoder_reassembles_frames)
    (simp_all add: well_formed_frame_def new_Frame_def encoder_encode_def serialize_def to_network_def)

text \<open>
  With a frame limit set, a decoder never keeps more than one header and one frame of that size
  between two reads, whatever the peer sends.
\<close>

theorem decoder_buffer_bounded:
  assumes "decoder_inv d" "0 < fd_max_frame_size d" "decoder_feed d data = (fs, d')"
  shows "length (fd_buffer d') < HEADER_SIZE + fd_max_frame_size d"
  using frames.drain_idle [OF TrueI decoder_feed_drain(1) [OF assms(1,3)]] assms(2)
  by (rule frame_scan_Wait_bound)

theorem decoder_buffer_bounded_witness:
  "length (fd_buffer (snd (decoder_feed (new_FrameDecoder 16) [0, 0, 0, 2, 0, 0, 0, 7, 65]))) < HEADER_SIZE + 16"
  using decoder_buffer_bounded [of "new_FrameDecoder 16" "[0, 0, 0, 2, 0, 0, 0, 7, 65]"
      "fst (decoder_feed (new_FrameDecoder 16) [0, 0, 0, 2, 0, 0, 0, 7, 65])"
      "snd (decoder_feed (new_FrameDecoder 16) [0, 0, 0, 2, 0, 0, 0, 7, 65])"]
  by (simp add: new_FrameDecoder_def decoder_inv_def)

text \<open>
  \<open>Frame::parse\<close> inverts \<open>Frame::serialize\<close> on a frame whose length field is right, ignores
  what follows the frame, and refuses every proper prefix of it.
\<close>

theorem parse_serialize:
  assumes "well_formed_frame 0 f"
  shows "parse_frame g (serialize f @ rest) = (True, f) \<and>
    (\<forall>k < length (serialize f). \<not> fst (parse_frame g (take k (serialize f))))"
proof (intro conjI allI impI)
  show "parse_frame g (serialize f @ rest) = (True, f)"
    using assms by (auto simp: parse_frame_def serialize_def well_formed_frame_def Let_def)
next
  fix k
  assume k: "k < length (serialize f)"
  show "\<not> fst (parse_frame g (take k (serialize f)))"
  proof (cases "k < HEADER_SIZE")
    case True
    with k have "length (take k (serialize f)) < HEADER_SIZE" by simp
    then show ?thesis by (simp add: parse_frame_def)
  next
    case False
    then have "from_network (take k (serialize f)) = fr_header f"
      by (simp add: serialize_def)
    with False k assms show ?thesis
      by (auto simp: parse_frame_def serialize_def well_formed_frame_def Let_def)
  qed
qed

theorem parse_serialize_witness:
  "parse_frame (new_Frame 0 []) (serialize (new_Frame 7 [65, 66]) @ [1]) = (True, new_Frame 7 [65, 66])
   \<and> \<not> fst (parse_frame (new_Frame 0 []) (take 9 (serialize (new_Frame 7 [65, 66]))))"
proof -
  have w: "well_formed_frame 0 (new_Frame 7 [65, 66])"
    by (simp add: well_formed_frame_def new_Frame_def)
  have "9 < length (serialize (new_Frame 7 [65, 66]))"
    by (simp add: serialize_def HEADER_SIZE_def)
  then show ?thesis
    using parse_serialize [OF w, of "new_Frame 0 []" "[1]"] by blast
qed

text \<open>
  \<open>Frame::total_size\<close> is the length of the serialized frame only below 4 GiB less the header:
  the 32-bit sum wraps around for the eight largest payload lengths.
\<close>

theorem total_size_exact_iff:
  assumes "well_formed_frame 0 f"
  shows "total_size f = length (serialize f) \<longleftrightarrow> length (fr_payload f) < 2 ^ 32 - 8"
proof -
  have "unat (8 + fh_length (fr_header f)) = (8 + length (fr_payload f)) mod 2 ^ 32"
    using assms by (simp add: well_formed_frame_def unat_word_ariths)
  moreover have "length (fr_payload f) < 2 ^ 32"
    using assms unat_u32_less [of "fh_length (fr_header f)"] by (simp add: well_formed_frame_def)
  ultimately show ?thesis
    by (auto simp: total_size_def serialize_def HEADER_SIZE_def mod_if)
qed

theorem total_size_exact_iff_witness:
  "total_size (new_Frame 7 [65, 66]) = length (serialize (new_Frame 7 [65, 66])) \<longleftrightarrow>
     length (fr_payload (new_Frame 7 [65, 66])) < 2 ^ 32 - 8"
  by (rule total_size_exact_iff) (simp add: well_formed_frame_def new_Frame_def)

end
