(* ===== verification/Protocol_Types.thy ===== *)
theory Protocol_Types
  imports Byte_Order
begin

section \<open>Data of the protocol layer\<close>

text \<open>
  The enumerations and plain structs of \<open>src/include/shield/transport/protocol.hpp\<close>.  Field names
  carry a prefix where the bare name is taken by HOL or shared by two structs.  A
  \<open>nlohmann::json\<close> value is of the type parameter \<open>'j\<close>: the library itself is not modelled.  A
  \<open>PacketRef\<close> is a view into the buffers of a \<open>Packet\<close>; both are the record \<open>Packet\<close>.  A
  \<open>const RouteEntry*\<close> is an optional entry.
\<close>

datatype PacketKind = Message | Request | Response | Push | Control

definition packet_kind_code :: "PacketKind \<Rightarrow> u16" where
  "packet_kind_code k =
     (case k of Message \<Rightarrow> 0 | Request \<Rightarrow> 1 | Response \<Rightarrow> 2 | Push \<Rightarrow> 3 | Control \<Rightarrow> 4)"

datatype RouteSource = RS_None | RS_Header | RS_Body

datatype RouteAction = DecodeLocal | ForwardRaw | Drop

datatype EnvelopeKind = LenPrefix | IdLen | TypeLen | Delimiter

datatype RouteDirection = ClientToServer | ServerToClient | Bidirectional

record Packet =
  pk_route_id :: u32
  pk_kind :: u16
  pk_flags :: u16
  pk_seq :: u32
  pk_body :: bytes
  pk_raw_frame :: bytes

definition new_Packet :: Packet where
  "new_Packet = \<lparr> pk_route_id = 0, pk_kind = packet_kind_code Message, pk_flags = 0, pk_seq = 0,
     pk_body = [], pk_raw_frame = [] \<rparr>"

record RoutePolicy =
  rp_action :: RouteAction
  rp_lazy_decode :: bool

record RouteEntry =
  re_route_id :: u32
  re_direction :: RouteDirection
  re_requires_auth :: bool
  re_codec_id :: u16
  re_schema_id :: u16
  re_kind :: PacketKind
  re_debug_name :: string
  re_policy :: RoutePolicy

definition new_RouteEntry :: RouteEntry where
  "new_RouteEntry = \<lparr> re_route_id = 0, re_direction = ClientToServer, re_requires_auth = True,
     re_codec_id = 0, re_schema_id = 0, re_kind = Message, re_debug_name = [],
     re_policy = \<lparr> rp_action = DecodeLocal, rp_lazy_decode = True \<rparr> \<rparr>"

record EnvelopeConfig =
  ec_endian :: Endian
  ec_length_bytes :: u8
  ec_route_id_bytes :: u8
  ec_length_includes_header :: bool
  ec_delimiter :: u8
  ec_max_frame_size :: nat
  ec_route_source :: RouteSource

definition new_EnvelopeConfig :: EnvelopeConfig where
  "new_EnvelopeConfig = \<lparr> ec_endian = Big, ec_length_bytes = 0, ec_route_id_bytes = 0,
     ec_length_includes_header = False, ec_delimiter = 10, ec_max_frame_size = 0,
     ec_route_source = RS_Body \<rparr>"

record BodyRouteKey =
  bk_route_id :: u32
  bk_route_name :: string

definition route_key_empty :: "BodyRouteKey \<Rightarrow> bool" where
  "route_key_empty k \<longleftrightarrow> bk_route_id k = 0 \<and> bk_route_name k = []"

record 'j DecodedBody =
  db_route_id :: u32
  db_codec_id :: u16
  db_schema_id :: u16
  db_route_name :: string
  db_bytes :: bytes
  db_message :: "'j option"

definition new_DecodedBody :: "'j DecodedBody" where
  "new_DecodedBody = \<lparr> db_route_id = 0, db_codec_id = 0, db_schema_id = 0, db_route_name = [],
     db_bytes = [], db_message = None \<rparr>"

record ProtocolProfile =
  pf_name :: string
  pf_envelope_kind :: EnvelopeKind
  pf_envelope :: EnvelopeConfig
  pf_default_codec_id :: u16
  pf_route_source :: RouteSource
  pf_unknown_route_action :: RouteAction
  pf_decode_body_route :: bool
  pf_decode_before_dispatch :: bool

definition new_ProtocolProfile :: ProtocolProfile where
  "new_ProtocolProfile = \<lparr> pf_name = [], pf_envelope_kind = LenPrefix,
     pf_envelope = new_EnvelopeConfig, pf_default_codec_id = 0, pf_route_source = RS_Body,
     pf_unknown_route_action = Drop, pf_decode_body_route = True,
     pf_decode_before_dispatch = False \<rparr>"

record 'j DispatchResult =
  dr_packet :: Packet
  dr_route :: "RouteEntry option"
  dr_action :: RouteAction
  dr_decoded_body :: "'j DecodedBody option"
  dr_error :: string

definition new_DispatchResult :: "'j DispatchResult" where
  "new_DispatchResult = \<lparr> dr_packet = new_Packet, dr_route = None, dr_action = Drop,
     dr_decoded_body = None, dr_error = [] \<rparr>"

definition result_ok :: "'j DispatchResult \<Rightarrow> bool" where
  "result_ok r \<longleftrightarrow> dr_error r = []"

definition should_drop :: "'j DispatchResult \<Rightarrow> bool" where
  "should_drop r \<longleftrightarrow> dr_action r = Drop \<and> dr_error r = []"

definition should_forward_raw :: "'j DispatchResult \<Rightarrow> bool" where
  "should_forward_raw r \<longleftrightarrow> dr_action r = ForwardRaw"

definition result_decoded :: "'j DispatchResult \<Rightarrow> bool" where
  "result_decoded r \<longleftrightarrow> dr_decoded_body r \<noteq> None"

end
