(* ===== verification/Named_Table.thy ===== *)
theory Named_Table
  imports Shield_Prelude
begin

section \<open>Tables indexed by id and by name\<close>

text \<open>
  \<open>RouteTable\<close> and \<open>BodyCodecRegistry\<close> have the same contract: entries live under a numeric id,
  an optional unique name leads to the same entry, \<open>add\<close> refuses to overwrite either and
  \<open>upsert\<close> replaces the entry of an id.  The locale states that contract; its lemmas are what the
  loaders and the pipeline rely on.
\<close>

locale named_table =
  fixes inv :: "'t \<Rightarrow> bool"
    and empty :: 't
    and lookup :: "'t \<Rightarrow> 'id \<Rightarrow> 'e option"
    and by_name :: "'t \<Rightarrow> string \<Rightarrow> 'e option"
    and name_of :: "'e \<Rightarrow> string"
    and keyed :: "'id \<Rightarrow> 'e \<Rightarrow> bool"
    and add :: "'id \<Rightarrow> 'e \<Rightarrow> 't \<Rightarrow> 't \<times> bool"
    and upsert :: "'id \<Rightarrow> 'e \<Rightarrow> 't \<Rightarrow> 't"
  assumes inv_empty: "inv empty"
    and lookup_empty: "lookup empty i = None"
    and by_name_sound:
      "inv t \<Longrightarrow> by_name t n = Some e \<Longrightarrow> n \<noteq> [] \<and> name_of e = n \<and> (\<exists>i. lookup t i = Some e)"
    and by_name_complete:
      "inv t \<Longrightarrow> lookup t i = Some e \<Longrightarrow> name_of e \<noteq> [] \<Longrightarrow> by_name t (name_of e) = Some e"
    and inv_add: "inv t \<Longrightarrow> keyed i e \<Longrightarrow> inv (fst (add i e t))"
    and add_accepts:
      "inv t \<Longrightarrow> keyed i e \<Longrightarrow> snd (add i e t) \<longleftrightarrow>
         lookup t i = None \<and> (name_of e = [] \<or> by_name t (name_of e) = None)"
    and add_lookup:
      "inv t \<Longrightarrow> keyed i e \<Longrightarrow> lookup (fst (add i e t)) = (if snd (add i e t) then (lookup t)(i \<mapsto> e) else lookup t)"
    and inv_upsert:
      "inv t \<Longrightarrow> keyed i e \<Longrightarrow>
       name_of e = [] \<or> by_name t (name_of e) = None \<or> by_name t (name_of e) = lookup t i \<Longrightarrow>
       inv (upsert i e t)"
    and upsert_lookup: "keyed i e \<Longrightarrow> lookup (upsert i e t) = (lookup t)(i \<mapsto> e)"
begin

text \<open>Adding entries one after the other, as a loader does; it stops at the first refusal.\<close>

fun add_all :: "('id \<times> 'e) list \<Rightarrow> 't \<Rightarrow> 't \<times> bool" where
  "add_all [] t = (t, True)"
| "add_all ((i, e) # es) t = (let (t', ok) = add i e t in if ok then add_all es t' else (t', False))"

lemma names_unique:
  "inv t \<Longrightarrow> lookup t i = Some e \<Longrightarrow> lookup t j = Some f \<Longrightarrow> name_of e = name_of f \<Longrightarrow>
   name_of e \<noteq> [] \<Longrightarrow> e = f"
  by (metis by_name_complete option.inject)

lemma by_name_iff:
  "inv t \<Longrightarrow> n \<noteq> [] \<Longrightarrow>
   by_name t n = Some e \<longleftrightarrow> name_of e = n \<and> (\<exists>i. lookup t i = Some e)"
  using by_name_complete by_name_sound by blast

lemma add_found:
  assumes "inv t" "keyed i e" "snd (add i e t)"
  shows "lookup (fst (add i e t)) i = Some e"
    and "name_of e \<noteq> [] \<Longrightarrow> by_name (fst (add i e t)) (name_of e) = Some e"
proof -
  show "lookup (fst (add i e t)) i = Some e"
    using assms by (simp add: add_lookup)
  with inv_add [OF assms(1,2)]
  show "name_of e \<noteq> [] \<Longrightarrow> by_name (fst (add i e t)) (name_of e) = Some e"
    by (rule by_name_complete)
qed

lemma add_keeps:
  "inv t \<Longrightarrow> keyed i e \<Longrightarrow> lookup t j = Some f \<Longrightarrow> lookup (fst (add i e t)) j = Some f"
  by (auto simp: add_lookup add_accepts)

lemma upsert_found:
  assumes "inv t" "keyed i e"
    and "name_of e = [] \<or> by_name t (name_of e) = None \<or> by_name t (name_of e) = lookup t i"
  shows "lookup (upsert i e t) i = Some e"
    and "name_of e \<noteq> [] \<Longrightarrow> by_name (upsert i e t) (name_of e) = Some e"
proof -
  show "lookup (upsert i e t) i = Some e" using assms(2) by (simp add: upsert_lookup)
  with inv_upsert [OF assms]
  show "name_of e \<noteq> [] \<Longrightarrow> by_name (upsert i e t) (name_of e) = Some e"
    by (rule by_name_complete)
qed

lemma add_all_Cons:
  "add_all ((i, e) # es) t =
     (if snd (add i e t) then add_all es (fst (add i e t)) else (fst (add i e t), False))"
  by (simp add: split_beta)

declare add_all.simps(2) [simp del]
declare add_all_Cons [simp]

lemma inv_add_all: "inv t \<Longrightarrow> \<forall>(i, e) \<in> set es. keyed i e \<Longrightarrow> inv (fst (add_all es t))"
proof (induction es arbitrary: t)
  case (Cons x es)
  then show ?case by (cases x) (auto intro: inv_add)
qed simp

lemma add_all_keeps:
  "inv t \<Longrightarrow> \<forall>(i, e) \<in> set es. keyed i e \<Longrightarrow> lookup t j = Some f \<Longrightarrow>
   lookup (fst (add_all es t)) j = Some f"
proof (induction es arbitrary: t)
  case (Cons x es)
  obtain i e where x: "x = (i, e)" by fastforce
  with Cons.prems have k: "keyed i e" by simp
  show ?case
    using Cons.IH [OF inv_add [OF Cons.prems(1) k] _ add_keeps [OF Cons.prems(1) k Cons.prems(3)]]
      add_keeps [OF Cons.prems(1) k Cons.prems(3)] Cons.prems(2) by (simp add: x)
qed simp

text \<open>If the whole list was accepted, every entry is found under its id and under its name.\<close>

lemma add_all_found:
  assumes "inv t" "\<forall>(i, e) \<in> set es. keyed i e" "snd (add_all es t)" "(i, e) \<in> set es"
  shows "lookup (fst (add_all es t)) i = Some e"
  using assms
proof (induction es arbitrary: t)
  case (Cons x es)
  obtain j f where x: "x = (j, f)" by fastforce
  with Cons.prems have k: "keyed j f" and ok: "snd (add j f t)"
    and rest: "snd (add_all es (fst (add j f t)))" by (auto split: if_splits)
  have inv': "inv (fst (add j f t))" using Cons.prems(1) k by (rule inv_add)
  show ?case
  proof (cases "(i, e) = x")
    case True
    then show ?thesis
      using add_all_keeps [OF inv' _ add_found(1) [OF Cons.prems(1) k ok]] ok Cons.prems(2) by (simp add: x)
  next
    case False
    then show ?thesis
      using Cons.IH [OF inv' _ rest] Cons.prems(2,4) ok by (auto simp: x)
  qed
qed simp

lemma add_all_found_by_name:
  "inv t \<Longrightarrow> \<forall>(i, e) \<in> set es. keyed i e \<Longrightarrow> snd (add_all es t) \<Longrightarrow> (i, e) \<in> set es \<Longrightarrow>
   name_of e \<noteq> [] \<Longrightarrow> by_name (fst (add_all es t)) (name_of e) = Some e"
  by (rule by_name_complete [OF inv_add_all add_all_found])

end

end
