(* ===== verification/Route_Table.thy ===== *)
theory Route_Table
  imports Protocol_Types Named_Table
begin

section \<open>The route table\<close>

text \<open>
  \<open>RouteTable\<close> of \<open>src/src/transport/protocol.cpp\<close>: routes by id and an index of their names.
  \<open>route_table_inv\<close> says that the name index holds exactly the non-empty names of the routes.
  \<open>add\<close> keeps it without conditions; \<open>upsert\<close> keeps it when the new name is free or already
  belongs to the same route, which is what the configuration loader checks before it calls it.
\<close>

record RouteTable =
  rt_routes :: "(u32, RouteEntry) umap"
  rt_route_names :: "(string, u32) umap"

definition empty_RouteTable :: RouteTable where
  "empty_RouteTable = \<lparr> rt_routes = [], rt_route_names = [] \<rparr>"

definition route_add :: "RouteEntry \<Rightarrow> RouteTable \<Rightarrow> RouteTable \<times> bool" where
  "route_add entry t =
     (if re_debug_name entry \<noteq> [] \<and> umap_contains (re_debug_name entry) (rt_route_names t)
      then (t, False)
      else let (routes, inserted) = umap_emplace (re_route_id entry) entry (rt_routes t);
               t' = t\<lparr> rt_routes := routes \<rparr> in
        if inserted \<and> re_debug_name entry \<noteq> []
        then (t'\<lparr> rt_route_names :=
                fst (umap_emplace (re_debug_name entry) (re_route_id entry) (rt_route_names t)) \<rparr>, inserted)
        else (t', inserted))"

definition route_upsert :: "RouteEntry \<Rightarrow> RouteTable \<Rightarrow> RouteTable" where
  "route_upsert entry t =
     (let route_id = re_route_id entry;
          route_name = re_debug_name entry;
          names1 = (case umap_find route_id (rt_routes t) of
              None \<Rightarrow> rt_route_names t
            | Some existing \<Rightarrow>
                if re_debug_name existing \<noteq> [] \<and>
                   umap_find (re_debug_name existing) (rt_route_names t) = Some route_id
                then umap_erase (re_debug_name existing) (rt_route_names t)
                else rt_route_names t) in
      \<lparr> rt_routes = umap_put route_id entry (rt_routes t),
        rt_route_names = (if route_name \<noteq> [] then umap_put route_name route_id names1 else names1) \<rparr>)"

definition route_find :: "RouteTable \<Rightarrow> u32 \<Rightarrow> RouteEntry option" where
  "route_find t route_id = umap_find route_id (rt_routes t)"

definition route_find_by_name :: "RouteTable \<Rightarrow> string \<Rightarrow> RouteEntry option" where
  "route_find_by_name t name =
     (case umap_find name (rt_route_names t) of None \<Rightarrow> None | Some route_id \<Rightarrow> route_find t route_id)"

definition route_only :: "RouteTable \<Rightarrow> RouteEntry option" where
  "route_only t = (case rt_routes t of [(_, entry)] \<Rightarrow> Some entry | _ \<Rightarrow> None)"

definition route_contains :: "RouteTable \<Rightarrow> u32 \<Rightarrow> bool" where
  "route_contains t route_id = umap_contains route_id (rt_routes t)"

definition route_clear :: "RouteTable \<Rightarrow> RouteTable" where
  "route_clear t = \<lparr> rt_routes = [], rt_route_names = [] \<rparr>"

definition route_size :: "RouteTable \<Rightarrow> nat" where
  "route_size t = umap_size (rt_routes t)"

subsection \<open>The invariant\<close>

definition route_table_inv :: "RouteTable \<Rightarrow> bool" where
  "route_table_inv t \<longleftrightarrow>
     umap_wf (rt_routes t) \<and> umap_wf (rt_route_names t) \<and>
     (\<forall>i e. umap_find i (rt_routes t) = Some e \<longrightarrow> re_route_id e = i) \<and>
     (\<forall>n i. umap_find n (rt_route_names t) = Some i \<longleftrightarrow>
        n \<noteq> [] \<and> (\<exists>e. umap_find i (rt_routes t) = Some e \<and> re_debug_name e = n))"

lemma route_table_invD:
  assumes "route_table_inv t"
  shows "umap_wf (rt_routes t)" "umap_wf (rt_route_names t)"
    and "umap_find i (rt_routes t) = Some e \<Longrightarrow> re_route_id e = i"
    and "umap_find n (rt_route_names t) = Some i \<Longrightarrow>
       n \<noteq> [] \<and> (\<exists>e. umap_find i (rt_routes t) = Some e \<and> re_debug_name e = n)"
    and "umap_find i (rt_routes t) = Some e \<Longrightarrow> re_debug_name e \<noteq> [] \<Longrightarrow>
       umap_find (re_debug_name e) (rt_route_names t) = Some i"
  using assms by (auto simp: route_table_inv_def)

lemma names_iff:
  "route_table_inv t \<Longrightarrow> umap_find n (rt_route_names t) = Some i \<longleftrightarrow>
     n \<noteq> [] \<and> (\<exists>e. umap_find i (rt_routes t) = Some e \<and> re_debug_name e = n)"
  by (simp add: route_table_inv_def)

lemma route_table_inv_empty [simp]: "route_table_inv empty_RouteTable"
  by (simp add: route_table_inv_def empty_RouteTable_def)

lemma route_add_accepts:
  "snd (route_add e t) \<longleftrightarrow>
     umap_find (re_route_id e) (rt_routes t) = None \<and>
     (re_debug_name e = [] \<or> umap_find (re_debug_name e) (rt_route_names t) = None)"
  by (auto simp: route_add_def split_beta Let_def)

lemma route_add_state:
  assumes "snd (route_add e t)"
  shows "umap_find i (rt_routes (fst (route_add e t))) =
           (if i = re_route_id e then Some e else umap_find i (rt_routes t))"
    and "umap_find n (rt_route_names (fst (route_add e t))) =
           (if n = re_debug_name e \<and> n \<noteq> [] then Some (re_route_id e) else umap_find n (rt_route_names t))"
  using assms by (auto simp: route_add_accepts route_add_def split_beta Let_def)

lemma route_add_refused: "\<not> snd (route_add e t) \<Longrightarrow> fst (route_add e t) = t"
  by (auto simp: route_add_def split_beta Let_def umap_emplace_def split: if_splits)

lemma route_add_wf:
  "umap_wf (rt_routes t) \<Longrightarrow> umap_wf (rt_routes (fst (route_add e t)))"
  "umap_wf (rt_route_names t) \<Longrightarrow> umap_wf (rt_route_names (fst (route_add e t)))"
  by (auto simp: route_add_def split_beta Let_def)

lemma route_add_inv:
  assumes "route_table_inv t"
  shows "route_table_inv (fst (route_add e t))"
proof (cases "snd (route_add e t)")
  case True
  note D = route_table_invD [OF assms]
  from True have free: "umap_find (re_route_id e) (rt_routes t) = None"
    and name: "re_debug_name e = [] \<or> umap_find (re_debug_name e) (rt_route_names t) = None"
    by (auto simp: route_add_accepts)
  have "umap_find n (rt_route_names (fst (route_add e t))) = Some i \<longleftrightarrow>
      n \<noteq> [] \<and> (\<exists>x. umap_find i (rt_routes (fst (route_add e t))) = Some x \<and> re_debug_name x = n)" for n i
    using free name names_iff [OF assms, of n "re_route_id e"] names_iff [OF assms, of n i]
    by (cases "i = re_route_id e") (auto simp: route_add_state [OF True])
  moreover have "umap_find i (rt_routes (fst (route_add e t))) = Some x \<Longrightarrow> re_route_id x = i" for i x
    using D(3) by (auto simp: route_add_state [OF True] split: if_splits)
  ultimately show ?thesis
    using route_add_wf(1) [OF D(1)] route_add_wf(2) [OF D(2)] by (simp add: route_table_inv_def)
qed (use assms route_add_refused in auto)

lemma route_upsert_routes:
  "umap_find i (rt_routes (route_upsert e t)) =
     (if i = re_route_id e then Some e else umap_find i (rt_routes t))"
  by (simp add: route_upsert_def Let_def)

lemma route_upsert_names:
  assumes "route_table_inv t"
  shows "umap_find n (rt_route_names (route_upsert e t)) =
    (if n = re_debug_name e \<and> n \<noteq> [] then Some (re_route_id e)
     else if umap_find n (rt_route_names t) = Some (re_route_id e) then None
     else umap_find n (rt_route_names t))"
proof (cases "umap_find (re_route_id e) (rt_routes t)")
  case None
  then have "umap_find n (rt_route_names t) \<noteq> Some (re_route_id e)"
    by (simp add: names_iff [OF assms])
  with None show ?thesis by (auto simp: route_upsert_def Let_def)
next
  case (Some old)
  have own: "umap_find m (rt_route_names t) = Some (re_route_id e) \<longleftrightarrow> m \<noteq> [] \<and> re_debug_name old = m" for m
    by (simp add: names_iff [OF assms] Some)
  show ?thesis
    using Some own [of n] own [of "re_debug_name old"] by (auto simp: route_upsert_def Let_def)
qed

lemma route_upsert_wf:
  "umap_wf (rt_routes t) \<Longrightarrow> umap_wf (rt_routes (route_upsert e t))"
  "umap_wf (rt_route_names t) \<Longrightarrow> umap_wf (rt_route_names (route_upsert e t))"
  by (auto simp: route_upsert_def Let_def split: option.splits)

lemma route_find_by_name_Some:
  "route_find_by_name t n = Some e \<longleftrightarrow>
     (\<exists>i. umap_find n (rt_route_names t) = Some i \<and> umap_find i (rt_routes t) = Some e)"
  by (auto simp: route_find_by_name_def route_find_def split: option.splits)

lemma route_find_by_name_inv:
  assumes "route_table_inv t"
  shows "route_find_by_name t n = Some e \<longleftrightarrow>
    n \<noteq> [] \<and> re_debug_name e = n \<and> route_find t (re_route_id e) = Some e"
proof
  assume "route_find_by_name t n = Some e"
  then obtain i where "umap_find n (rt_route_names t) = Some i" "umap_find i (rt_routes t) = Some e"
    by (auto simp: route_find_by_name_Some)
  with route_table_invD(3) [OF assms] show "n \<noteq> [] \<and> re_debug_name e = n \<and> route_find t (re_route_id e) = Some e"
    by (auto simp: names_iff [OF assms] route_find_def)
qed (auto simp: route_find_by_name_Some names_iff [OF assms] route_find_def)

lemma route_find_id: "route_table_inv t \<Longrightarrow> route_find t i = Some e \<Longrightarrow> re_route_id e = i"
  using route_table_invD(3) by (simp add: route_find_def)

lemma route_find_by_name_None:
  assumes "route_table_inv t"
  shows "route_find_by_name t n = None \<longleftrightarrow> umap_find n (rt_route_names t) = None"
proof (cases "umap_find n (rt_route_names t)")
  case (Some i)
  then obtain e where "umap_find i (rt_routes t) = Some e" by (auto simp: names_iff [OF assms])
  with Some show ?thesis by (simp add: route_find_by_name_def route_find_def)
qed (simp add: route_find_by_name_def)

lemma route_upsert_inv:
  assumes "route_table_inv t"
    and "re_debug_name e = [] \<or> route_find_by_name t (re_debug_name e) = None \<or>
         route_find_by_name t (re_debug_name e) = route_find t (re_route_id e)"
  shows "route_table_inv (route_upsert e t)"
proof -
  note D = route_table_invD [OF assms(1)]
  have own: "re_debug_name e = [] \<or> umap_find (re_debug_name e) (rt_route_names t) = None \<or>
      umap_find (re_debug_name e) (rt_route_names t) = Some (re_route_id e)"
  proof (cases "umap_find (re_debug_name e) (rt_route_names t)")
    case (Some i)
    with D(4) obtain old where "umap_find i (rt_routes t) = Some old" "re_route_id old = i"
      using D(3) by blast
    with Some assms(2) D(3) [of "re_route_id e" old] show ?thesis
      by (auto simp: route_find_by_name_def route_find_def)
  qed simp
  have "umap_find n (rt_route_names (route_upsert e t)) = Some i \<longleftrightarrow>
      n \<noteq> [] \<and> (\<exists>x. umap_find i (rt_routes (route_upsert e t)) = Some x \<and> re_debug_name x = n)" for n i
    using own names_iff [OF assms(1), of n i]
    by (cases "i = re_route_id e") (auto simp: route_upsert_routes route_upsert_names [OF assms(1)])
  moreover have "umap_find i (rt_routes (route_upsert e t)) = Some x \<Longrightarrow> re_route_id x = i" for i x
    using D(3) by (auto simp: route_upsert_routes split: if_splits)
  ultimately show ?thesis
    using route_upsert_wf(1) [OF D(1)] route_upsert_wf(2) [OF D(2)] by (simp add: route_table_inv_def)
qed

interpretation routes: named_table route_table_inv empty_RouteTable route_find route_find_by_name
  "re_debug_name :: RouteEntry \<Rightarrow> string" "\<lambda>i e. re_route_id e = i" "\<lambda>i. route_add" "\<lambda>i. route_upsert"
proof
  fix t n and e :: RouteEntry
  assume "route_table_inv t" "route_find_by_name t n = Some e"
  then show "n \<noteq> [] \<and> re_debug_name e = n \<and> (\<exists>i. route_find t i = Some e)"
    by (auto simp: route_find_by_name_inv)
next
  fix t i and e :: RouteEntry
  assume "route_table_inv t" "route_find t i = Some e" "re_debug_name e \<noteq> []"
  then show "route_find_by_name t (re_debug_name e) = Some e"
    by (auto simp: route_find_by_name_inv route_find_def route_table_inv_def)
next
  fix t i and e :: RouteEntry
  assume "route_table_inv t" "re_route_id e = i"
  then show "snd (route_add e t) \<longleftrightarrow>
      route_find t i = None \<and> (re_debug_name e = [] \<or> route_find_by_name t (re_debug_name e) = None)"
    by (auto simp: route_add_accepts route_find_by_name_None route_find_def)
next
  fix t i and e :: RouteEntry
  assume "route_table_inv t" "re_route_id e = i"
  then show "route_find (fst (route_add e t)) =
      (if snd (route_add e t) then (route_find t)(i \<mapsto> e) else route_find t)"
    using route_add_state(1) [of e t] route_add_refused [of e t]
    by (auto simp: route_find_def fun_eq_iff)
next
  fix i
  show "route_find empty_RouteTable i = None"
    by (simp add: route_find_def empty_RouteTable_def)
qed (auto simp: route_find_def route_upsert_routes fun_eq_iff intro: route_add_inv route_upsert_inv)

lemma route_find_upsert [simp]:
  "route_find (route_upsert e t) = (route_find t)(re_route_id e \<mapsto> e)"
  by (rule routes.upsert_lookup) simp

subsection \<open>Properties\<close>

text \<open>
  \<open>RouteTable::add\<close> is all or nothing: it succeeds exactly when neither the id nor the
  non-empty name is taken, then the entry (and only it) is new under its id and its name; otherwise
  the table is unchanged.  Either way the name index stays exact.
\<close>

theorem route_add_correct:
  assumes "route_table_inv t"
  shows "route_table_inv (fst (route_add e t)) \<and>
    (snd (route_add e t) \<longleftrightarrow> route_find t (re_route_id e) = None \<and>
       (re_debug_name e = [] \<or> route_find_by_name t (re_debug_name e) = None)) \<and>
    (if snd (route_add e t)
     then route_find (fst (route_add e t)) = (route_find t)(re_route_id e \<mapsto> e) \<and>
          (re_debug_name e \<noteq> [] \<longrightarrow> route_find_by_name (fst (route_add e t)) (re_debug_name e) = Some e)
     else fst (route_add e t) = t)"
  using routes.inv_add [OF assms refl, of e] routes.add_accepts [OF assms refl, of e]
    routes.add_lookup [OF assms refl, of e] routes.add_found(2) [OF assms refl, of e]
    route_add_refused [of e t]
  by auto

theorem route_add_correct_witness:
  "snd (route_add (new_RouteEntry\<lparr> re_route_id := 7, re_debug_name := ''login'' \<rparr>) empty_RouteTable) \<and>
   route_find_by_name (fst (route_add (new_RouteEntry\<lparr> re_route_id := 7, re_debug_name := ''login'' \<rparr>)
     empty_RouteTable)) ''login'' = Some (new_RouteEntry\<lparr> re_route_id := 7, re_debug_name := ''login'' \<rparr>)"
proof -
  have "route_find empty_RouteTable 7 = None" "route_find_by_name empty_RouteTable ''login'' = None"
    by (simp_all add: routes.lookup_empty route_find_by_name_def) (simp add: empty_RouteTable_def)
  then show ?thesis
    using route_add_correct [OF route_table_inv_empty,
        of "new_RouteEntry\<lparr> re_route_id := 7, re_debug_name := ''login'' \<rparr>"] by (simp split: if_splits)
qed

text \<open>
  C29. \<open>RouteTable::upsert\<close> with a name that is free or already belongs to the same route replaces
  the entry of its id, makes the new name lead to it, forgets the old name of that id and leaves
  every other route and name alone.
\<close>

theorem route_upsert_correct:
  assumes "route_table_inv t"
    and "re_debug_name e = [] \<or> route_find_by_name t (re_debug_name e) = None \<or>
         route_find_by_name t (re_debug_name e) = route_find t (re_route_id e)"
  shows "route_table_inv (route_upsert e t) \<and>
    route_find (route_upsert e t) = (route_find t)(re_route_id e \<mapsto> e) \<and>
    (\<forall>n. route_find_by_name (route_upsert e t) n =
       (if n \<noteq> [] \<and> n = re_debug_name e then Some e
        else case route_find t (re_route_id e) of
          None \<Rightarrow> route_find_by_name t n
        | Some old \<Rightarrow> if re_debug_name old = n then None else route_find_by_name t n))"
proof (intro conjI allI)
  show inv': "route_table_inv (route_upsert e t)" using assms by (rule route_upsert_inv)
  show "route_find (route_upsert e t) = (route_find t)(re_route_id e \<mapsto> e)"
    by simp
  fix n
  have by_name': "route_find_by_name (route_upsert e t) n = Some x \<longleftrightarrow>
      n \<noteq> [] \<and> re_debug_name x = n \<and>
      (if re_route_id x = re_route_id e then x = e else route_find t (re_route_id x) = Some x)" for x
    by (auto simp: route_find_by_name_inv [OF inv'])
  have taken: "re_route_id x = re_route_id e"
    if "route_find t (re_route_id x) = Some x" "re_debug_name x = re_debug_name e" "re_debug_name e \<noteq> []" for x
  proof -
    have "route_find_by_name t (re_debug_name e) = Some x"
      using routes.by_name_complete [OF assms(1) that(1)] that(2,3) by simp
    then have "route_find t (re_route_id e) = Some x" using assms(2) that(3) by simp
    then show ?thesis by (rule route_find_id [OF assms(1)])
  qed
  have "route_find_by_name (route_upsert e t) n = Some x \<longleftrightarrow>
      (if n \<noteq> [] \<and> n = re_debug_name e then Some e
        else case route_find t (re_route_id e) of
          None \<Rightarrow> route_find_by_name t n
        | Some old \<Rightarrow> if re_debug_name old = n then None else route_find_by_name t n) = Some x" for x
  proof (cases "route_find t (re_route_id e)")
    case None
    show ?thesis
    proof (cases "route_find t (re_route_id x) = Some x")
      case True
      with None have ne: "re_route_id x \<noteq> re_route_id e" by (metis option.distinct(1))
      then have "re_debug_name x \<noteq> re_debug_name e \<or> re_debug_name e = []" using True taken by blast
      with True ne None show ?thesis
        by (auto simp: by_name' route_find_by_name_inv [OF assms(1)])
    next
      case False
      with None show ?thesis
        by (auto simp: by_name' route_find_by_name_inv [OF assms(1)])
    qed
  next
    case (Some old)
    note old_id = route_find_id [OF assms(1) Some]
    show ?thesis
    proof (cases "route_find t (re_route_id x) = Some x \<and> re_route_id x \<noteq> re_route_id e")
      case True
      then have "x \<noteq> old" using old_id by blast
      then have "re_debug_name x \<noteq> re_debug_name old \<or> re_debug_name old = []"
        using routes.names_unique [OF assms(1) _ Some, of "re_route_id x" x] True by metis
      moreover have "re_debug_name x \<noteq> re_debug_name e \<or> re_debug_name e = []" using True taken by blast
      ultimately show ?thesis using True Some
        by (auto simp: by_name' route_find_by_name_inv [OF assms(1)])
    next
      case False
      then consider "re_route_id x = re_route_id e" | "route_find t (re_route_id x) \<noteq> Some x" "re_route_id x \<noteq> re_route_id e"
        by blast
      then show ?thesis
        by cases (use Some in \<open>auto simp: by_name' route_find_by_name_inv [OF assms(1)]\<close>)
    qed
  qed
  then show "route_find_by_name (route_upsert e t) n =
       (if n \<noteq> [] \<and> n = re_debug_name e then Some e
        else case route_find t (re_route_id e) of
          None \<Rightarrow> route_find_by_name t n
        | Some old \<Rightarrow> if re_debug_name old = n then None else route_find_by_name t n)"
    by (rule option_eq_by_Some)
qed

theorem route_upsert_correct_witness:
  "route_find_by_name (route_upsert (new_RouteEntry\<lparr> re_route_id := 7, re_debug_name := ''b'' \<rparr>)
      (route_upsert (new_RouteEntry\<lparr> re_route_id := 7, re_debug_name := ''a'' \<rparr>) empty_RouteTable)) ''a'' = None"
proof -
  let ?t = "route_upsert (new_RouteEntry\<lparr> re_route_id := 7, re_debug_name := ''a'' \<rparr>) empty_RouteTable"
  have inv: "route_table_inv ?t"
    by (rule route_upsert_inv [OF route_table_inv_empty]) (simp add: route_find_by_name_def empty_RouteTable_def)
  have old: "route_find ?t 7 = Some (new_RouteEntry\<lparr> re_route_id := 7, re_debug_name := ''a'' \<rparr>)"
    by simp
  have free: "route_find_by_name ?t ''b'' = None"
    by (simp add: route_find_by_name_None [OF inv] route_upsert_names [OF route_table_inv_empty])
      (simp add: empty_RouteTable_def)
  show ?thesis
    using route_upsert_correct [OF inv, of "new_RouteEntry\<lparr> re_route_id := 7, re_debug_name := ''b'' \<rparr>"] old free
    by simp
qed

text \<open>
  Without that condition \<open>upsert\<close> loses names: when route 2 takes the name of route 1 and is
  renamed afterwards, route 1 still carries the name but is no longer found by it.
\<close>

theorem route_upsert_steals_name:
  "let r1 = new_RouteEntry\<lparr> re_route_id := 1, re_debug_name := ''a'' \<rparr>;
       r2 = new_RouteEntry\<lparr> re_route_id := 2, re_debug_name := ''a'' \<rparr>;
       r3 = new_RouteEntry\<lparr> re_route_id := 2, re_debug_name := ''b'' \<rparr>;
       t = route_upsert r3 (route_upsert r2 (route_upsert r1 empty_RouteTable))
   in route_find t 1 = Some r1 \<and> re_debug_name r1 = ''a'' \<and> route_find_by_name t ''a'' = None"
  by (simp add: Let_def route_upsert_def route_find_def route_find_by_name_def empty_RouteTable_def)

end
