(* ===== verification/Envelope.thy ===== *)
theory Envelope
  imports Protocol_Types Stream_Scan
begin

section \<open>Envelopes\<close>

text \<open>
  The four envelopes of \<open>src/src/transport/protocol.cpp\<close>: \<open>LenPrefixEnvelope\<close>,
  \<open>IdLenEnvelope\<close>, \<open>TypeLenEnvelope\<close> and \<open>DelimiterEnvelope\<close>.  The class hierarchy is one record
  with a kind.  For every envelope there is one look at the buffer (the body of the loop in
  \<open>feed\<close>), \<open>feed\<close> itself, and \<open>encode\<close>.  A \<open>feed\<close> gets a pointer, \<open>None\<close> when it is null, and a
  size; it returns \<open>None\<close> only if its loop does not end, which is shown never to happen.
\<close>

record Envelope =
  en_kind :: EnvelopeKind
  en_config :: EnvelopeConfig
  en_buffer :: bytes
  en_error :: string

definition new_Envelope :: "EnvelopeKind \<Rightarrow> EnvelopeConfig \<Rightarrow> Envelope" where
  "new_Envelope kind config = \<lparr> en_kind = kind, en_config = config, en_buffer = [], en_error = [] \<rparr>"

definition has_error :: "Envelope \<Rightarrow> bool" where
  "has_error env \<longleftrightarrow> en_error env \<noteq> []"

definition envelope_reset :: "Envelope \<Rightarrow> Envelope" where
  "envelope_reset env = env\<lparr> en_buffer := [], en_error := [] \<rparr>"

definition append_data :: "bytes \<Rightarrow> bytes option \<Rightarrow> nat \<Rightarrow> bytes" where
  "append_data buffer data n =
     (if 0 < n then buffer @ take n (case data of None \<Rightarrow> [] | Some d \<Rightarrow> d) else buffer)"

definition reject :: "Envelope \<Rightarrow> string \<Rightarrow> (Packet list \<times> Envelope) option" where
  "reject env e = Some ([], env\<lparr> en_error := e, en_buffer := [] \<rparr>)"

text \<open>The loop of a \<open>feed\<close>, run on the extended buffer.\<close>

definition run_feed ::
  "(bytes \<Rightarrow> Packet scan) \<Rightarrow> Envelope \<Rightarrow> bytes option \<Rightarrow> nat \<Rightarrow> (Packet list \<times> Envelope) option" where
  "run_feed look env data n =
     map_option (\<lambda>(packets, rest, e). (packets, env\<lparr> en_buffer := rest, en_error := e \<rparr>))
       (drain look (append_data (en_buffer env) data n) [])"

subsection \<open>Length prefix\<close>

definition new_LenPrefixEnvelope :: "EnvelopeConfig \<Rightarrow> Envelope" where
  "new_LenPrefixEnvelope config = new_Envelope LenPrefix
     (config\<lparr> ec_length_bytes := (if ec_length_bytes config = 0 then 4 else ec_length_bytes config),
              ec_route_id_bytes := 0, ec_route_source := RS_Body \<rparr>)"

definition lenprefix_scan :: "EnvelopeConfig \<Rightarrow> bytes \<Rightarrow> Packet scan" where
  "lenprefix_scan c buffer =
     (let header_size = unat (ec_length_bytes c) in
      if length buffer < header_size then Wait
      else case body_length_from_field (read_uint (take header_size buffer) (ec_endian c)) header_size
                  (ec_length_includes_header c) of
        None \<Rightarrow> Fail ''lenprefix frame length overflow''
      | Some payload_len \<Rightarrow>
          if SIZE_MAX - header_size < payload_len then Fail ''lenprefix frame length overflow''
          else if 0 < ec_max_frame_size c \<and> ec_max_frame_size c < payload_len
            then Fail ''lenprefix frame too large''
          else if length buffer < payload_len + header_size then Wait
          else Emit (new_Packet\<lparr> pk_body := take payload_len (drop header_size buffer),
                                 pk_raw_frame := take (payload_len + header_size) buffer \<rparr>)
                 (payload_len + header_size))"

definition lenprefix_feed ::
  "Envelope \<Rightarrow> bytes option \<Rightarrow> nat \<Rightarrow> (Packet list \<times> Envelope) option" where
  "lenprefix_feed env data n =
     (if data = None \<and> 0 < n then reject env ''lenprefix feed received null data''
      else if \<not> valid_integer_width (ec_length_bytes (en_config env))
        then reject env ''invalid lenprefix length width''
      else run_feed (lenprefix_scan (en_config env)) env data n)"

definition lenprefix_encode :: "Envelope \<Rightarrow> Packet \<Rightarrow> bytes \<times> Envelope" where
  "lenprefix_encode env packet =
     (let c = en_config env;
          length_field = (if ec_length_includes_header c
            then of_nat (length (pk_body packet)) + ucast (ec_length_bytes c)
            else of_nat (length (pk_body packet))) in
      if \<not> valid_integer_width (ec_length_bytes c)
        then ([], env\<lparr> en_error := ''invalid lenprefix length width'' \<rparr>)
      else if \<not> fits_width length_field (ec_length_bytes c)
        then ([], env\<lparr> en_error := ''lenprefix payload length does not fit header'' \<rparr>)
      else (write_uint length_field (ec_length_bytes c) (ec_endian c) [] @ pk_body packet,
            env\<lparr> en_error := [] \<rparr>))"

subsection \<open>Route id and length\<close>

definition new_IdLenEnvelope :: "EnvelopeConfig \<Rightarrow> Envelope" where
  "new_IdLenEnvelope config = new_Envelope IdLen
     (config\<lparr> ec_route_id_bytes := (if ec_route_id_bytes config = 0 then 2 else ec_route_id_bytes config),
              ec_length_bytes := (if ec_length_bytes config = 0 then 2 else ec_length_bytes config),
              ec_route_source := RS_Header \<rparr>)"

definition idlen_scan :: "EnvelopeConfig \<Rightarrow> bytes \<Rightarrow> Packet scan" where
  "idlen_scan c buffer =
     (let id_size = unat (ec_route_id_bytes c);
          len_size = unat (ec_length_bytes c);
          header_size = id_size + len_size in
      if length buffer < header_size then Wait
      else let route_id = read_uint (take id_size buffer) (ec_endian c);
               length_field = read_uint (take len_size (drop id_size buffer)) (ec_endian c) in
        if UINT32_MAX < unat route_id then Fail ''idlen route id overflow''
        else case body_length_from_field length_field header_size (ec_length_includes_header c) of
          None \<Rightarrow> Fail ''idlen frame length overflow''
        | Some payload_len \<Rightarrow>
            if SIZE_MAX - header_size < payload_len then Fail ''idlen frame length overflow''
            else if 0 < ec_max_frame_size c \<and> ec_max_frame_size c < payload_len
              then Fail ''idlen frame too large''
            else if length buffer < payload_len + header_size then Wait
            else Emit (new_Packet\<lparr> pk_route_id := ucast route_id,
                                   pk_body := take payload_len (drop header_size buffer),
                                   pk_raw_frame := take (payload_len + header_size) buffer \<rparr>)
                   (payload_len + header_size))"

definition idlen_feed ::
  "Envelope \<Rightarrow> bytes option \<Rightarrow> nat \<Rightarrow> (Packet list \<times> Envelope) option" where
  "idlen_feed env data n =
     (if data = None \<and> 0 < n then reject env ''idlen feed received null data''
      else if \<not> valid_integer_width (ec_route_id_bytes (en_config env)) \<or>
              \<not> valid_integer_width (ec_length_bytes (en_config env))
        then reject env ''invalid idlen integer width''
      else run_feed (idlen_scan (en_config env)) env data n)"

definition idlen_encode :: "Envelope \<Rightarrow> Packet \<Rightarrow> bytes \<times> Envelope" where
  "idlen_encode env packet =
     (let c = en_config env;
          length_field = (if ec_length_includes_header c
            then of_nat (length (pk_body packet)) + ucast (ec_route_id_bytes c) + ucast (ec_length_bytes c)
            else of_nat (length (pk_body packet))) in
      if \<not> valid_integer_width (ec_route_id_bytes c) \<or> \<not> valid_integer_width (ec_length_bytes c)
        then ([], env\<lparr> en_error := ''invalid idlen integer width'' \<rparr>)
      else if \<not> fits_width (ucast (pk_route_id packet)) (ec_route_id_bytes c)
        then ([], env\<lparr> en_error := ''idlen route id does not fit header'' \<rparr>)
      else if \<not> fits_width length_field (ec_length_bytes c)
        then ([], env\<lparr> en_error := ''idlen payload length does not fit header'' \<rparr>)
      else (write_uint length_field (ec_length_bytes c) (ec_endian c)
              (write_uint (ucast (pk_route_id packet)) (ec_route_id_bytes c) (ec_endian c) [])
              @ pk_body packet,
            env\<lparr> en_error := [] \<rparr>))"

subsection \<open>Type id and length\<close>

definition new_TypeLenEnvelope :: "EnvelopeConfig \<Rightarrow> Envelope" where
  "new_TypeLenEnvelope config = new_Envelope TypeLen
     (config\<lparr> ec_route_id_bytes := (if ec_route_id_bytes config = 0 then 1 else ec_route_id_bytes config),
              ec_length_bytes := (if ec_length_bytes config = 0 then 4 else ec_length_bytes config),
              ec_route_source := RS_Header \<rparr>)"

definition typelen_scan :: "EnvelopeConfig \<Rightarrow> bytes \<Rightarrow> Packet scan" where
  "typelen_scan c buffer =
     (let id_size = unat (ec_route_id_bytes c);
          len_size = unat (ec_length_bytes c);
          header_size = id_size + len_size in
      if length buffer < header_size then Wait
      else let type_id = read_uint (take id_size buffer) (ec_endian c);
               length_field = read_uint (take len_size (drop id_size buffer)) (ec_endian c) in
        if UINT32_MAX < unat type_id then Fail ''typed_len type id overflow''
        else case body_length_from_field length_field header_size (ec_length_includes_header c) of
          None \<Rightarrow> Fail ''typed_len frame length overflow''
        | Some payload_len \<Rightarrow>
            if SIZE_MAX - header_size < payload_len then Fail ''typed_len frame length overflow''
            else if 0 < ec_max_frame_size c \<and> ec_max_frame_size c < payload_len
              then Fail ''typed_len frame too large''
            else if length buffer < payload_len + header_size then Wait
            else Emit (new_Packet\<lparr> pk_route_id := ucast type_id,
                                   pk_kind := ucast (type_id AND 65535),
                                   pk_body := take payload_len (drop header_size buffer),
                                   pk_raw_frame := take (payload_len + header_size) buffer \<rparr>)
                   (payload_len + header_size))"

definition typelen_feed ::
  "Envelope \<Rightarrow> bytes option \<Rightarrow> nat \<Rightarrow> (Packet list \<times> Envelope) option" where
  "typelen_feed env data n =
     (if data = None \<and> 0 < n then reject env ''typed_len feed received null data''
      else if \<not> valid_integer_width (ec_route_id_bytes (en_config env)) \<or>
              \<not> valid_integer_width (ec_length_bytes (en_config env))
        then reject env ''invalid typed_len integer width''
      else run_feed (typelen_scan (en_config env)) env data n)"

definition typelen_type_id :: "Packet \<Rightarrow> u32" where
  "typelen_type_id packet = (if pk_route_id packet \<noteq> 0 then pk_route_id packet else ucast (pk_kind packet))"

definition typelen_encode :: "Envelope \<Rightarrow> Packet \<Rightarrow> bytes \<times> Envelope" where
  "typelen_encode env packet =
     (let c = en_config env;
          type_id = typelen_type_id packet;
          length_field = (if ec_length_includes_header c
            then of_nat (length (pk_body packet)) + ucast (ec_route_id_bytes c) + ucast (ec_length_bytes c)
            else of_nat (length (pk_body packet))) in
      if \<not> valid_integer_width (ec_route_id_bytes c) \<or> \<not> valid_integer_width (ec_length_bytes c)
        then ([], env\<lparr> en_error := ''invalid typed_len integer width'' \<rparr>)
      else if \<not> fits_width (ucast type_id) (ec_route_id_bytes c)
        then ([], env\<lparr> en_error := ''typed_len type id does not fit header'' \<rparr>)
      else if \<not> fits_width length_field (ec_length_bytes c)
        then ([], env\<lparr> en_error := ''typed_len payload length does not fit header'' \<rparr>)
      else (write_uint length_field (ec_length_bytes c) (ec_endian c)
              (write_uint (ucast type_id) (ec_route_id_bytes c) (ec_endian c) [])
              @ pk_body packet,
            env\<lparr> en_error := [] \<rparr>))"

subsection \<open>Delimiter\<close>

definition new_DelimiterEnvelope :: "EnvelopeConfig \<Rightarrow> Envelope" where
  "new_DelimiterEnvelope config = new_Envelope Delimiter
     (config\<lparr> ec_length_bytes := 0, ec_route_id_bytes := 0, ec_route_source := RS_Body \<rparr>)"

definition delimiter_scan :: "EnvelopeConfig \<Rightarrow> bytes \<Rightarrow> Packet scan" where
  "delimiter_scan c buffer =
     (case find_pos (\<lambda>b. b = ec_delimiter c) buffer of
        None \<Rightarrow> if 0 < ec_max_frame_size c \<and> ec_max_frame_size c < length buffer
          then Fail ''delimiter frame too large'' else Wait
      | Some body_len \<Rightarrow> if 0 < ec_max_frame_size c \<and> ec_max_frame_size c < body_len
          then Fail ''delimiter frame too large''
          else Emit (new_Packet\<lparr> pk_body := take body_len buffer,
                                 pk_raw_frame := take (body_len + 1) buffer \<rparr>) (body_len + 1))"

definition delimiter_feed ::
  "Envelope \<Rightarrow> bytes option \<Rightarrow> nat \<Rightarrow> (Packet list \<times> Envelope) option" where
  "delimiter_feed env data n =
     (if data = None \<and> 0 < n then reject env ''delimiter feed received null data''
      else run_feed (delimiter_scan (en_config env)) env data n)"

definition delimiter_encode :: "Envelope \<Rightarrow> Packet \<Rightarrow> bytes \<times> Envelope" where
  "delimiter_encode env packet =
     (pk_body packet @ [ec_delimiter (en_config env)], env\<lparr> en_error := [] \<rparr>)"

subsection \<open>The common interface\<close>

definition create_envelope :: "EnvelopeKind \<Rightarrow> EnvelopeConfig \<Rightarrow> Envelope" where
  "create_envelope kind config =
     (case kind of
        LenPrefix \<Rightarrow> new_LenPrefixEnvelope config
      | IdLen \<Rightarrow> new_IdLenEnvelope config
      | TypeLen \<Rightarrow> new_TypeLenEnvelope config
      | Delimiter \<Rightarrow> new_DelimiterEnvelope config)"

definition create_envelope_named :: "string \<Rightarrow> EnvelopeConfig \<Rightarrow> Envelope option" where
  "create_envelope_named kind config =
     (if kind = ''lenprefix'' \<or> kind = ''len-prefix'' \<or> kind = ''len_prefix''
        then Some (create_envelope LenPrefix config)
      else if kind = ''idlen'' \<or> kind = ''id-len'' \<or> kind = ''id_len''
        then Some (create_envelope IdLen config)
      else if kind = ''typed_len'' \<or> kind = ''type_len'' \<or> kind = ''typed-len'' \<or> kind = ''typelen''
        then Some (create_envelope TypeLen config)
      else if kind = ''delimiter'' \<or> kind = ''line'' then Some (create_envelope Delimiter config)
      else None)"

definition envelope_feed ::
  "Envelope \<Rightarrow> bytes option \<Rightarrow> nat \<Rightarrow> (Packet list \<times> Envelope) option" where
  "envelope_feed env =
     (case en_kind env of
        LenPrefix \<Rightarrow> lenprefix_feed env
      | IdLen \<Rightarrow> idlen_feed env
      | TypeLen \<Rightarrow> typelen_feed env
      | Delimiter \<Rightarrow> delimiter_feed env)"

definition envelope_encode :: "Envelope \<Rightarrow> Packet \<Rightarrow> bytes \<times> Envelope" where
  "envelope_encode env =
     (case en_kind env of
        LenPrefix \<Rightarrow> lenprefix_encode env
      | IdLen \<Rightarrow> idlen_encode env
      | TypeLen \<Rightarrow> typelen_encode env
      | Delimiter \<Rightarrow> delimiter_encode env)"

text \<open>Several reads of a connection, which is given up at the first error.\<close>

fun envelope_feed_all :: "Envelope \<Rightarrow> bytes list \<Rightarrow> (Packet list \<times> Envelope) option" where
  "envelope_feed_all env [] = Some ([], env)"
| "envelope_feed_all env (c # cs) =
     (case envelope_feed env (Some c) (length c) of
        None \<Rightarrow> None
      | Some (packets, env') \<Rightarrow>
          if has_error env' then Some (packets, env')
          else map_option (\<lambda>(qs, env''). (packets @ qs, env'')) (envelope_feed_all env' cs))"

subsection \<open>Specification\<close>

text \<open>
  The look of an envelope by kind, the configurations it accepts, and what its peer gets for a
  packet.  \<open>envelope_sendable\<close> asks that \<open>encode\<close> reports no error, that the body keeps to the
  frame limit of the receiver, that it fits the address space with its header, and, for the
  delimiter envelope, that the delimiter is not a byte of the body.
\<close>

type_synonym envelope_shape = "EnvelopeKind \<times> EnvelopeConfig"

abbreviation shape :: "Envelope \<Rightarrow> envelope_shape" where
  "shape env \<equiv> (en_kind env, en_config env)"

fun envelope_ok :: "envelope_shape \<Rightarrow> bool" where
  "envelope_ok (LenPrefix, c) = valid_integer_width (ec_length_bytes c)"
| "envelope_ok (IdLen, c) =
     (valid_integer_width (ec_route_id_bytes c) \<and> valid_integer_width (ec_length_bytes c))"
| "envelope_ok (TypeLen, c) =
     (valid_integer_width (ec_route_id_bytes c) \<and> valid_integer_width (ec_length_bytes c))"
| "envelope_ok (Delimiter, c) = True"

fun envelope_scan :: "envelope_shape \<Rightarrow> bytes \<Rightarrow> Packet scan" where
  "envelope_scan (LenPrefix, c) = lenprefix_scan c"
| "envelope_scan (IdLen, c) = idlen_scan c"
| "envelope_scan (TypeLen, c) = typelen_scan c"
| "envelope_scan (Delimiter, c) = delimiter_scan c"

fun envelope_header_size :: "envelope_shape \<Rightarrow> nat" where
  "envelope_header_size (LenPrefix, c) = unat (ec_length_bytes c)"
| "envelope_header_size (IdLen, c) = unat (ec_route_id_bytes c) + unat (ec_length_bytes c)"
| "envelope_header_size (TypeLen, c) = unat (ec_route_id_bytes c) + unat (ec_length_bytes c)"
| "envelope_header_size (Delimiter, c) = 0"

fun envelope_trailer :: "envelope_shape \<Rightarrow> bytes" where
  "envelope_trailer (Delimiter, c) = [ec_delimiter c]"
| "envelope_trailer (_, c) = []"

definition envelope_bytes :: "envelope_shape \<Rightarrow> Packet \<Rightarrow> bytes" where
  "envelope_bytes s p = fst (envelope_encode (new_Envelope (fst s) (snd s)) p)"

definition envelope_sendable :: "envelope_shape \<Rightarrow> Packet \<Rightarrow> bool" where
  "envelope_sendable s p \<longleftrightarrow>
     \<not> has_error (snd (envelope_encode (new_Envelope (fst s) (snd s)) p)) \<and>
     (0 < ec_max_frame_size (snd s) \<longrightarrow> length (pk_body p) \<le> ec_max_frame_size (snd s)) \<and>
     length (pk_body p) + 16 \<le> SIZE_MAX \<and>
     (fst s = Delimiter \<longrightarrow> ec_delimiter (snd s) \<notin> set (pk_body p))"

fun envelope_packet :: "envelope_shape \<Rightarrow> Packet \<Rightarrow> Packet" where
  "envelope_packet (IdLen, c) p =
     new_Packet\<lparr> pk_route_id := pk_route_id p, pk_body := pk_body p,
                pk_raw_frame := envelope_bytes (IdLen, c) p \<rparr>"
| "envelope_packet (TypeLen, c) p =
     new_Packet\<lparr> pk_route_id := typelen_type_id p, pk_kind := ucast (typelen_type_id p),
                pk_body := pk_body p, pk_raw_frame := envelope_bytes (TypeLen, c) p \<rparr>"
| "envelope_packet (k, c) p =
     new_Packet\<lparr> pk_body := pk_body p, pk_raw_frame := envelope_bytes (k, c) p \<rparr>"

definition packet_framed :: "envelope_shape \<Rightarrow> Packet \<Rightarrow> bool" where
  "packet_framed s p \<longleftrightarrow>
     length (pk_raw_frame p) = envelope_header_size s + length (pk_body p) + length (envelope_trailer s) \<and>
     drop (envelope_header_size s) (pk_raw_frame p) = pk_body p @ envelope_trailer s \<and>
     (0 < ec_max_frame_size (snd s) \<longrightarrow> length (pk_body p) \<le> ec_max_frame_size (snd s))"

definition envelope_idle :: "Envelope \<Rightarrow> bool" where
  "envelope_idle env \<longleftrightarrow> en_error env = [] \<and> envelope_scan (shape env) (en_buffer env) = Wait"

subsection \<open>A look at a fixed-size header\<close>

text \<open>
  The three envelopes with a length field do the same look with different readers of the header;
  \<open>header_scan\<close> is that look and \<open>frame_length\<close> the checks on the length field.
\<close>

definition frame_length :: "string \<Rightarrow> EnvelopeConfig \<Rightarrow> nat \<Rightarrow> u64 \<Rightarrow> string + nat" where
  "frame_length who c header_size field =
     (case body_length_from_field field header_size (ec_length_includes_header c) of
        None \<Rightarrow> Inl (who @ '' frame length overflow'')
      | Some n \<Rightarrow>
          if SIZE_MAX - header_size < n then Inl (who @ '' frame length overflow'')
          else if 0 < ec_max_frame_size c \<and> ec_max_frame_size c < n then Inl (who @ '' frame too large'')
          else Inr n)"

definition header_scan ::
  "nat \<Rightarrow> (bytes \<Rightarrow> string + nat) \<Rightarrow> (bytes \<Rightarrow> Packet) \<Rightarrow> bytes \<Rightarrow> Packet scan" where
  "header_scan hs look mk b =
     (if length b < hs then Wait
      else case look (take hs b) of
        Inl e \<Rightarrow> Fail e
      | Inr n \<Rightarrow> if length b < n + hs then Wait
          else Emit ((mk (take hs b))\<lparr> pk_body := take n (drop hs b), pk_raw_frame := take (n + hs) b \<rparr>) (n + hs))"

lemma header_scan_Emit:
  "header_scan hs look mk b = Emit p m \<longleftrightarrow>
     hs \<le> length b \<and> (\<exists>n. look (take hs b) = Inr n \<and> m = n + hs \<and> m \<le> length b \<and>
       p = (mk (take hs b))\<lparr> pk_body := take n (drop hs b), pk_raw_frame := take m b \<rparr>)"
  by (auto simp: header_scan_def split: sum.splits)

lemma header_scan_Fail:
  "header_scan hs look mk b = Fail e \<longleftrightarrow> hs \<le> length b \<and> look (take hs b) = Inl e"
  by (auto simp: header_scan_def split: sum.splits)

lemma header_scan_Wait:
  "header_scan hs look mk b = Wait \<longleftrightarrow>
     length b < hs \<or> (\<exists>n. look (take hs b) = Inr n \<and> length b < n + hs)"
  by (auto simp: header_scan_def split: sum.splits)

definition id_length :: "string \<Rightarrow> string \<Rightarrow> EnvelopeConfig \<Rightarrow> bytes \<Rightarrow> string + nat" where
  "id_length who what c h =
     (let id_size = unat (ec_route_id_bytes c) in
      if UINT32_MAX < unat (read_uint (take id_size h) (ec_endian c))
        then Inl (who @ what)
      else frame_length who c (id_size + unat (ec_length_bytes c)) (read_uint (drop id_size h) (ec_endian c)))"

lemma lenprefix_header_scan:
  "lenprefix_scan c = header_scan (unat (ec_length_bytes c))
     (\<lambda>h. frame_length ''lenprefix'' c (unat (ec_length_bytes c)) (read_uint h (ec_endian c)))
     (\<lambda>_. new_Packet)"
  by (rule ext) (auto simp: lenprefix_scan_def header_scan_def frame_length_def Let_def split: option.splits)

lemma idlen_header_scan:
  "idlen_scan c = header_scan (unat (ec_route_id_bytes c) + unat (ec_length_bytes c))
     (id_length ''idlen'' '' route id overflow'' c)
     (\<lambda>h. new_Packet\<lparr> pk_route_id := ucast (read_uint (take (unat (ec_route_id_bytes c)) h) (ec_endian c)) \<rparr>)"
  by (rule ext) (auto simp: idlen_scan_def header_scan_def id_length_def frame_length_def Let_def
      drop_take min_def split: option.splits)

lemma typelen_header_scan:
  "typelen_scan c = header_scan (unat (ec_route_id_bytes c) + unat (ec_length_bytes c))
     (id_length ''typed_len'' '' type id overflow'' c)
     (\<lambda>h. let t = read_uint (take (unat (ec_route_id_bytes c)) h) (ec_endian c) in
          new_Packet\<lparr> pk_route_id := ucast t, pk_kind := ucast (t AND 65535) \<rparr>)"
  by (rule ext) (auto simp: typelen_scan_def header_scan_def id_length_def frame_length_def Let_def
      drop_take min_def split: option.splits)

lemma frame_length_named: "frame_length who c hs f \<noteq> Inl []"
  by (auto simp: frame_length_def split: option.splits)

lemma frame_length_bound:
  "frame_length who c hs f = Inr n \<Longrightarrow> 0 < ec_max_frame_size c \<Longrightarrow> n \<le> ec_max_frame_size c"
  by (auto simp: frame_length_def split: option.splits if_splits)

lemma id_length_named: "what \<noteq> [] \<Longrightarrow> id_length who what c h \<noteq> Inl []"
  by (auto simp: id_length_def Let_def frame_length_named)

lemma id_length_bound:
  "id_length who what c h = Inr n \<Longrightarrow> 0 < ec_max_frame_size c \<Longrightarrow> n \<le> ec_max_frame_size c"
  by (auto simp: id_length_def Let_def split: if_splits intro: frame_length_bound)

lemma envelope_scan_header:
  assumes "fst s \<noteq> Delimiter"
  obtains look mk where "envelope_scan s = header_scan (envelope_header_size s) look mk"
    and "\<And>h. look h \<noteq> Inl []"
    and "\<And>h n. look h = Inr n \<Longrightarrow> 0 < ec_max_frame_size (snd s) \<Longrightarrow> n \<le> ec_max_frame_size (snd s)"
proof (cases s rule: envelope_scan.cases)
  case (1 c)
  show ?thesis
    by (rule that [of "\<lambda>h. frame_length ''lenprefix'' c (unat (ec_length_bytes c)) (read_uint h (ec_endian c))"])
      (auto simp: 1 lenprefix_header_scan frame_length_named intro: frame_length_bound)
next
  case (2 c)
  show ?thesis
    by (rule that [of "id_length ''idlen'' '' route id overflow'' c"])
      (auto simp: 2 idlen_header_scan id_length_named intro: id_length_bound)
next
  case (3 c)
  show ?thesis
    by (rule that [of "id_length ''typed_len'' '' type id overflow'' c"])
      (auto simp: 3 typelen_header_scan id_length_named intro: id_length_bound)
qed (use assms in simp)

lemma envelope_header_size_pos:
  "envelope_ok s \<Longrightarrow> fst s \<noteq> Delimiter \<Longrightarrow> 0 < envelope_header_size s"
  by (cases s rule: envelope_ok.cases) (auto dest: valid_integer_width_pos)

lemma envelope_header_size_le: "envelope_ok s \<Longrightarrow> envelope_header_size s \<le> 16"
  by (cases s rule: envelope_ok.cases) (fastforce dest: valid_integer_width_le)+

lemma delimiter_scan_Emit:
  "delimiter_scan c b = Emit p n \<longleftrightarrow>
     (\<exists>i. find_pos (\<lambda>x. x = ec_delimiter c) b = Some i \<and> (0 < ec_max_frame_size c \<longrightarrow> i \<le> ec_max_frame_size c) \<and>
        n = i + 1 \<and> p = new_Packet\<lparr> pk_body := take i b, pk_raw_frame := take n b \<rparr>)"
  by (auto simp: delimiter_scan_def split: option.splits if_splits)

lemma delimiter_scan_Fail:
  "delimiter_scan c b = Fail e \<longleftrightarrow> e = ''delimiter frame too large'' \<and> 0 < ec_max_frame_size c \<and>
     (case find_pos (\<lambda>x. x = ec_delimiter c) b of
        None \<Rightarrow> ec_max_frame_size c < length b
      | Some i \<Rightarrow> ec_max_frame_size c < i)"
  by (auto simp: delimiter_scan_def split: option.splits if_splits)

lemma envelope_scan_Emit:
  assumes "envelope_ok s" "envelope_scan s b = Emit p n"
  shows "0 < n \<and> n \<le> length b \<and> pk_raw_frame p = take n b"
proof (cases "fst s = Delimiter")
  case True
  with assms(2) show ?thesis
    by (cases s rule: envelope_scan.cases) (auto simp: delimiter_scan_Emit dest!: find_pos_Some)
next
  case False
  from envelope_scan_header [OF this] obtain look mk where
    "envelope_scan s = header_scan (envelope_header_size s) look mk" by metis
  with assms envelope_header_size_pos [OF assms(1) False] show ?thesis
    by (auto simp: header_scan_Emit)
qed

lemma envelope_scan_Emit_extend:
  assumes "envelope_scan s b = Emit p n"
  shows "envelope_scan s (b @ tail) = Emit p n"
proof (cases "fst s = Delimiter")
  case True
  with assms obtain c i where "s = (Delimiter, c)" and i: "find_pos (\<lambda>x. x = ec_delimiter c) b = Some i"
    and "0 < ec_max_frame_size c \<longrightarrow> i \<le> ec_max_frame_size c" "n = i + 1"
    and "p = new_Packet\<lparr> pk_body := take i b, pk_raw_frame := take n b \<rparr>"
    by (cases s rule: envelope_scan.cases) (auto simp: delimiter_scan_Emit)
  moreover from find_pos_Some [OF i] have "i < length b" by simp
  ultimately show ?thesis by (simp add: delimiter_scan_Emit find_pos_append)
next
  case False
  from envelope_scan_header [OF this] obtain look mk where
    "envelope_scan s = header_scan (envelope_header_size s) look mk" by metis
  with assms show ?thesis by (auto simp: header_scan_Emit)
qed

lemma envelope_scan_Fail_extend:
  assumes "envelope_scan s b = Fail e"
  shows "envelope_scan s (b @ tail) = Fail e"
proof (cases "fst s = Delimiter")
  case True
  with assms show ?thesis
    by (cases s rule: envelope_scan.cases) (auto simp: delimiter_scan_Fail find_pos_append split: option.splits)
next
  case False
  from envelope_scan_header [OF this] obtain look mk where
    "envelope_scan s = header_scan (envelope_header_size s) look mk" by metis
  with assms show ?thesis by (auto simp: header_scan_Fail)
qed

lemma envelope_scan_Fail_named:
  assumes "envelope_scan s b = Fail e"
  shows "e \<noteq> []"
proof (cases "fst s = Delimiter")
  case True
  with assms show ?thesis
    by (cases s rule: envelope_scan.cases) (auto simp: delimiter_scan_Fail)
next
  case False
  then obtain look mk where
    "envelope_scan s = header_scan (envelope_header_size s) look mk" "\<And>h. look h \<noteq> Inl []"
    by (rule envelope_scan_header) blast
  with assms show ?thesis by (auto simp: header_scan_Fail)
qed

lemma envelope_scan_Wait_bound:
  assumes "envelope_scan s b = Wait" "0 < ec_max_frame_size (snd s)"
  shows "length b \<le> envelope_header_size s + ec_max_frame_size (snd s)"
proof (cases "fst s = Delimiter")
  case True
  with assms show ?thesis
    by (cases s rule: envelope_scan.cases) (auto simp: delimiter_scan_def split: option.splits if_splits)
next
  case False
  then obtain look mk where
    sc: "envelope_scan s = header_scan (envelope_header_size s) look mk" and
    "\<And>h n. look h = Inr n \<Longrightarrow> 0 < ec_max_frame_size (snd s) \<Longrightarrow> n \<le> ec_max_frame_size (snd s)"
    by (rule envelope_scan_header) blast
  then have bound: "\<And>h n. look h = Inr n \<Longrightarrow> n \<le> ec_max_frame_size (snd s)" using assms(2) by blast
  from assms(1) sc consider "length b < envelope_header_size s"
    | n where "look (take (envelope_header_size s) b) = Inr n" "length b < n + envelope_header_size s"
    by (auto simp: header_scan_Wait)
  then show ?thesis
  proof cases
    case 2
    with bound [OF 2(1)] show ?thesis by simp
  qed simp
qed

lemma envelope_scan_framed:
  assumes "envelope_scan s b = Emit p n"
  shows "packet_framed s p"
proof (cases "fst s = Delimiter")
  case True
  with assms obtain c i where s: "s = (Delimiter, c)"
    and i: "find_pos (\<lambda>x. x = ec_delimiter c) b = Some i"
    and "0 < ec_max_frame_size c \<longrightarrow> i \<le> ec_max_frame_size c"
    and "p = new_Packet\<lparr> pk_body := take i b, pk_raw_frame := take (i + 1) b \<rparr>"
    by (cases s rule: envelope_scan.cases) (auto simp: delimiter_scan_Emit)
  moreover from find_pos_Some [OF i] have "take (i + 1) b = take i b @ [ec_delimiter c]" "i < length b"
    by (auto simp: take_Suc_conv_app_nth)
  ultimately show ?thesis by (simp add: packet_framed_def)
next
  case False
  then obtain look mk where
    sc: "envelope_scan s = header_scan (envelope_header_size s) look mk" and
    bound: "\<And>h n. look h = Inr n \<Longrightarrow> 0 < ec_max_frame_size (snd s) \<Longrightarrow> n \<le> ec_max_frame_size (snd s)"
    by (rule envelope_scan_header) blast
  have "envelope_trailer s = []" using False by (cases s rule: envelope_trailer.cases) auto
  with assms sc bound show ?thesis
    by (auto simp: header_scan_Emit packet_framed_def drop_take)
qed

subsection \<open>What is encoded is read back\<close>

lemma frame_length_encoded:
  assumes "hs \<le> 16" "n + 16 \<le> SIZE_MAX" "0 < ec_max_frame_size c \<longrightarrow> n \<le> ec_max_frame_size c"
  shows "frame_length who c hs (if ec_length_includes_header c then of_nat n + of_nat hs else of_nat n) = Inr n"
proof -
  from assms have "n + hs < 2 ^ 64" by (simp add: SIZE_MAX_def)
  then have "unat (of_nat n + of_nat hs :: u64) = n + hs" "unat (of_nat n :: u64) = n"
    using unat_of_nat_u64 [of "n + hs"] unat_of_nat_u64 [of n] by simp_all
  with assms SIZE_MAX_u64 show ?thesis
    by (auto simp: frame_length_def body_length_from_field_def SIZE_MAX_def)
qed

lemma header_scan_encoded:
  assumes "length h = hs" "look h = Inr (length body)"
  shows "header_scan hs look mk (h @ body) =
    Emit ((mk h)\<lparr> pk_body := body, pk_raw_frame := h @ body \<rparr>) (length (h @ body))"
  using assms by (auto simp: header_scan_Emit)

lemma has_error_simps [simp]:
  "\<not> has_error (new_Envelope k c)" "has_error (env\<lparr> en_error := e \<rparr>) \<longleftrightarrow> e \<noteq> []"
  "en_config (new_Envelope k c) = c" "en_kind (new_Envelope k c) = k"
  by (simp_all add: has_error_def new_Envelope_def)

lemma ucast_u8_u64: "(ucast (w :: u8) :: u64) = of_nat (unat w)"
  by simp

lemma lenprefix_encoded:
  assumes "envelope_ok (LenPrefix, c)" "envelope_sendable (LenPrefix, c) p"
  shows "lenprefix_scan c (envelope_bytes (LenPrefix, c) p) =
    Emit (envelope_packet (LenPrefix, c) p) (length (envelope_bytes (LenPrefix, c) p))"
proof -
  define f :: u64 where "f = (if ec_length_includes_header c
    then of_nat (length (pk_body p)) + of_nat (unat (ec_length_bytes c)) else of_nat (length (pk_body p)))"
  have enc: "lenprefix_encode (new_Envelope LenPrefix c) p =
      (if \<not> fits_width f (ec_length_bytes c)
       then ([], (new_Envelope LenPrefix c)\<lparr> en_error := ''lenprefix payload length does not fit header'' \<rparr>)
       else (write_uint f (ec_length_bytes c) (ec_endian c) [] @ pk_body p, (new_Envelope LenPrefix c)\<lparr> en_error := [] \<rparr>))"
    using assms(1) unfolding f_def by (simp add: lenprefix_encode_def Let_def)
  with assms(2) have fits: "fits_width f (ec_length_bytes c)"
    by (auto simp: envelope_sendable_def envelope_encode_def split: if_splits)
  with enc have bytes: "envelope_bytes (LenPrefix, c) p = write_uint f (ec_length_bytes c) (ec_endian c) [] @ pk_body p"
    by (simp add: envelope_bytes_def envelope_encode_def)
  have "frame_length ''lenprefix'' c (unat (ec_length_bytes c)) f = Inr (length (pk_body p))"
    unfolding f_def using assms envelope_header_size_le [OF assms(1)]
    by (intro frame_length_encoded) (auto simp: envelope_sendable_def)
  then show ?thesis
    using fits assms(1) by (simp only: bytes lenprefix_header_scan) (simp add: header_scan_encoded bytes)
qed

text \<open>The two envelopes with an id share the writer of the header.\<close>

definition id_header :: "EnvelopeConfig \<Rightarrow> u32 \<Rightarrow> nat \<Rightarrow> bytes" where
  "id_header c i n =
     write_uint (ucast i) (ec_route_id_bytes c) (ec_endian c) [] @
     write_uint (if ec_length_includes_header c
       then of_nat n + of_nat (unat (ec_route_id_bytes c) + unat (ec_length_bytes c)) else of_nat n)
       (ec_length_bytes c) (ec_endian c) []"

definition id_header_fits :: "EnvelopeConfig \<Rightarrow> u32 \<Rightarrow> nat \<Rightarrow> bool" where
  "id_header_fits c i n \<longleftrightarrow>
     fits_width (ucast i) (ec_route_id_bytes c) \<and>
     fits_width (if ec_length_includes_header c
       then of_nat n + of_nat (unat (ec_route_id_bytes c) + unat (ec_length_bytes c)) else of_nat n)
       (ec_length_bytes c)"

lemma length_id_header [simp]:
  "length (id_header c i n) = unat (ec_route_id_bytes c) + unat (ec_length_bytes c)"
  by (simp add: id_header_def)

lemma id_header_id:
  assumes "valid_integer_width (ec_route_id_bytes c)" "id_header_fits c i n"
  shows "read_uint (take (unat (ec_route_id_bytes c)) (id_header c i n)) (ec_endian c) = ucast i"
  using assms by (simp add: id_header_def id_header_fits_def)

lemma id_header_length:
  assumes "envelope_ok (IdLen, c)" "id_header_fits c i n" "n + 16 \<le> SIZE_MAX"
    "0 < ec_max_frame_size c \<longrightarrow> n \<le> ec_max_frame_size c"
  shows "id_length who what c (id_header c i n) = Inr n"
proof -
  have "unat (ucast i :: u64) \<le> UINT32_MAX"
    using unat_u32_less [of i] by (simp add: UINT32_MAX_def unsigned_ucast_eq take_bit_eq_mod)
  moreover have "drop (unat (ec_route_id_bytes c)) (id_header c i n) =
      write_uint (if ec_length_includes_header c
       then of_nat n + of_nat (unat (ec_route_id_bytes c) + unat (ec_length_bytes c)) else of_nat n)
       (ec_length_bytes c) (ec_endian c) []"
    by (simp add: id_header_def)
  moreover have "unat (ec_route_id_bytes c) + unat (ec_length_bytes c) \<le> 16"
    using envelope_header_size_le [OF assms(1)] by simp
  ultimately show ?thesis
    using assms id_header_id [of c i n]
      frame_length_encoded [of "unat (ec_route_id_bytes c) + unat (ec_length_bytes c)" n c who]
    by (simp add: id_length_def Let_def id_header_fits_def not_less)
qed

lemma idlen_encode_eq:
  assumes "envelope_ok (IdLen, en_config env)"
  shows "idlen_encode env p =
    (if \<not> fits_width (ucast (pk_route_id p)) (ec_route_id_bytes (en_config env))
     then ([], env\<lparr> en_error := ''idlen route id does not fit header'' \<rparr>)
     else if \<not> id_header_fits (en_config env) (pk_route_id p) (length (pk_body p))
     then ([], env\<lparr> en_error := ''idlen payload length does not fit header'' \<rparr>)
     else (id_header (en_config env) (pk_route_id p) (length (pk_body p)) @ pk_body p, env\<lparr> en_error := [] \<rparr>))"
  using assms
  by (simp add: idlen_encode_def Let_def id_header_fits_def id_header_def add.assoc
      write_uint_append [of _ _ _ "write_uint _ _ _ _"])

lemma typelen_encode_eq:
  assumes "envelope_ok (TypeLen, en_config env)"
  shows "typelen_encode env p =
    (if \<not> fits_width (ucast (typelen_type_id p)) (ec_route_id_bytes (en_config env))
     then ([], env\<lparr> en_error := ''typed_len type id does not fit header'' \<rparr>)
     else if \<not> id_header_fits (en_config env) (typelen_type_id p) (length (pk_body p))
     then ([], env\<lparr> en_error := ''typed_len payload length does not fit header'' \<rparr>)
     else (id_header (en_config env) (typelen_type_id p) (length (pk_body p)) @ pk_body p, env\<lparr> en_error := [] \<rparr>))"
  using assms
  by (simp add: typelen_encode_def Let_def id_header_fits_def id_header_def add.assoc
      write_uint_append [of _ _ _ "write_uint _ _ _ _"])

lemma ucast_and_65535: "(ucast ((ucast (x :: u32) :: u64) AND 65535) :: u16) = ucast x"
proof -
  have "(ucast x :: u64) AND 65535 = take_bit 16 (ucast x)" by (simp add: take_bit_eq_mask mask_eq_exp_minus_1)
  then show ?thesis by (simp only:) (auto intro!: bit_word_eqI simp: bit_simps)
qed

lemma idlen_encoded:
  assumes "envelope_ok (IdLen, c)" "envelope_sendable (IdLen, c) p"
  shows "idlen_scan c (envelope_bytes (IdLen, c) p) =
    Emit (envelope_packet (IdLen, c) p) (length (envelope_bytes (IdLen, c) p))"
proof -
  let ?h = "id_header c (pk_route_id p) (length (pk_body p))"
  from assms have fits: "id_header_fits c (pk_route_id p) (length (pk_body p))"
    by (auto simp: envelope_sendable_def envelope_encode_def idlen_encode_eq split: if_splits)
  with assms(1) have bytes: "envelope_bytes (IdLen, c) p = ?h @ pk_body p"
    by (simp add: envelope_bytes_def envelope_encode_def idlen_encode_eq id_header_fits_def)
  have "id_length ''idlen'' '' route id overflow'' c ?h = Inr (length (pk_body p))"
    using assms fits by (intro id_header_length) (auto simp: envelope_sendable_def)
  with fits assms(1) id_header_id [of c "pk_route_id p" "length (pk_body p)"] show ?thesis
    by (simp only: bytes idlen_header_scan) (simp add: header_scan_encoded bytes)
qed

lemma typelen_encoded:
  assumes "envelope_ok (TypeLen, c)" "envelope_sendable (TypeLen, c) p"
  shows "typelen_scan c (envelope_bytes (TypeLen, c) p) =
    Emit (envelope_packet (TypeLen, c) p) (length (envelope_bytes (TypeLen, c) p))"
proof -
  let ?h = "id_header c (typelen_type_id p) (length (pk_body p))"
  from assms have fits: "id_header_fits c (typelen_type_id p) (length (pk_body p))"
    by (auto simp: envelope_sendable_def envelope_encode_def typelen_encode_eq split: if_splits)
  with assms(1) have bytes: "envelope_bytes (TypeLen, c) p = ?h @ pk_body p"
    by (simp add: envelope_bytes_def envelope_encode_def typelen_encode_eq id_header_fits_def)
  have "id_length ''typed_len'' '' type id overflow'' c ?h = Inr (length (pk_body p))"
    using assms fits by (intro id_header_length) (auto simp: envelope_sendable_def)
  with fits assms(1) id_header_id [of c "typelen_type_id p" "length (pk_body p)"] show ?thesis
    by (simp only: bytes typelen_header_scan)
      (simp add: header_scan_encoded bytes Let_def ucast_and_65535)
qed

lemma delimiter_encoded:
  assumes "envelope_sendable (Delimiter, c) p"
  shows "delimiter_scan c (envelope_bytes (Delimiter, c) p) =
    Emit (envelope_packet (Delimiter, c) p) (length (envelope_bytes (Delimiter, c) p))"
proof -
  from assms have "find_pos (\<lambda>x. x = ec_delimiter c) (pk_body p) = None"
    by (auto simp: find_pos_None envelope_sendable_def)
  moreover have "envelope_bytes (Delimiter, c) p = pk_body p @ [ec_delimiter c]"
    by (simp add: envelope_bytes_def envelope_encode_def delimiter_encode_def)
  ultimately show ?thesis
    using assms by (auto simp: delimiter_scan_Emit find_pos_append envelope_sendable_def)
qed

interpretation envelopes: framed_stream envelope_ok envelope_scan pk_raw_frame envelope_sendable
  envelope_bytes envelope_packet
proof
  fix s assume ok: "envelope_ok s"
  show "envelope_scan s [] = Wait"
  proof (cases "fst s = Delimiter")
    case True
    then show ?thesis by (cases s rule: envelope_scan.cases) (auto simp: delimiter_scan_def)
  next
    case False
    from envelope_scan_header [OF this] obtain look mk where
      "envelope_scan s = header_scan (envelope_header_size s) look mk" by metis
    with envelope_header_size_pos [OF ok False] show ?thesis by (simp add: header_scan_Wait)
  qed
next
  fix s p assume "envelope_ok s" "envelope_sendable s p"
  then show "envelope_scan s (envelope_bytes s p) = Emit (envelope_packet s p) (length (envelope_bytes s p))"
    by (cases s rule: envelope_scan.cases)
      (simp_all add: lenprefix_encoded idlen_encoded typelen_encoded delimiter_encoded)
qed (blast intro: envelope_scan_Emit_extend envelope_scan_Fail_extend
    dest: envelope_scan_Emit envelope_scan_Fail_named)+

subsection \<open>Feeds run the scanner\<close>

lemma envelope_feed_run:
  assumes "envelope_ok (shape env)" "\<not> (data = None \<and> 0 < n)"
  shows "envelope_feed env data n = run_feed (envelope_scan (shape env)) env data n"
  using assms
  by (cases "shape env" rule: envelope_scan.cases)
    (auto simp: envelope_feed_def lenprefix_feed_def idlen_feed_def typelen_feed_def delimiter_feed_def)

lemma envelope_feed_reject:
  assumes "\<not> envelope_ok (shape env) \<or> data = None \<and> 0 < n"
  shows "\<exists>e. envelope_feed env data n = reject env e \<and> e \<noteq> []"
  using assms
  by (cases "shape env" rule: envelope_scan.cases)
    (force simp: envelope_feed_def lenprefix_feed_def idlen_feed_def typelen_feed_def delimiter_feed_def)+

lemma run_feed_bytes [simp]:
  "run_feed look env (Some d) (length d) =
     map_option (\<lambda>(ps, rest, e). (ps, env\<lparr> en_buffer := rest, en_error := e \<rparr>)) (drain look (en_buffer env @ d) [])"
  by (auto simp: run_feed_def append_data_def)

lemma envelope_feed_ok_Some:
  assumes "envelope_feed env (Some d) (length d) = Some (ps, env')" "en_error env' = []"
  shows "envelope_ok (shape env)"
    "drain (envelope_scan (shape env)) (en_buffer env @ d) [] = Some (ps, en_buffer env', [])"
    "env' = env\<lparr> en_buffer := en_buffer env', en_error := [] \<rparr>"
proof -
  show ok: "envelope_ok (shape env)"
  proof (rule ccontr)
    assume "\<not> envelope_ok (shape env)"
    with envelope_feed_reject [of env "Some d" "length d"] assms show False by (auto simp: reject_def)
  qed
  show "drain (envelope_scan (shape env)) (en_buffer env @ d) [] = Some (ps, en_buffer env', [])"
    "env' = env\<lparr> en_buffer := en_buffer env', en_error := [] \<rparr>"
    using assms by (auto simp: envelope_feed_run [OF ok])
qed

lemma envelope_feed_all_chunks:
  "envelope_ok (shape env) \<Longrightarrow> en_error env = [] \<Longrightarrow>
   envelope_feed_all env chunks =
     map_option (\<lambda>(ps, rest, e). (ps, env\<lparr> en_buffer := rest, en_error := e \<rparr>))
       (drain_chunks (envelope_scan (shape env)) (en_buffer env) chunks)"
proof (induction chunks arbitrary: env)
  case Nil
  then show ?case by simp
next
  case (Cons c cs)
  obtain ps rest e where d: "drain (envelope_scan (shape env)) (en_buffer env @ c) [] = Some (ps, rest, e)"
    using envelopes.drain_returns [OF Cons.prems(1)] by blast
  let ?env = "env\<lparr> en_buffer := rest, en_error := e \<rparr>"
  show ?case
  proof (cases "e = []")
    case True
    then have "envelope_feed_all ?env cs =
     map_option (\<lambda>(ps, rest, e). (ps, env\<lparr> en_buffer := rest, en_error := e \<rparr>))
       (drain_chunks (envelope_scan (shape env)) rest cs)"
      using Cons.IH [of ?env] Cons.prems by simp
    with True d Cons.prems show ?thesis
      by (simp add: envelope_feed_run option.map_comp comp_def split_def)
  qed (use d Cons.prems in \<open>simp add: envelope_feed_run\<close>)
qed

lemma drain_framed:
  "envelope_ok s \<Longrightarrow> drain (envelope_scan s) b [] = Some (ps, rest, e) \<Longrightarrow> list_all (packet_framed s) ps"
proof (induction b arbitrary: ps rest rule: envelopes.drain_induct)
  case (Emit b p n)
  from Emit.prems Emit.hyps obtain qs where
    "drain (envelope_scan s) (drop n b) [] = Some (qs, rest, e)" "ps = p # qs"
    by (auto simp: envelopes.drain_Emit)
  with Emit.IH envelope_scan_framed [OF Emit.hyps(2)] show ?case by simp
qed auto

lemma fresh_envelope:
  "en_error (create_envelope k c) = []" "en_buffer (create_envelope k c) = []"
  "en_kind (create_envelope k c) = k"
  by (cases k; simp add: create_envelope_def new_Envelope_def new_LenPrefixEnvelope_def
      new_IdLenEnvelope_def new_TypeLenEnvelope_def new_DelimiterEnvelope_def)+

lemma envelope_encode_bytes: "fst (envelope_encode env p) = envelope_bytes (shape env) p"
  by (cases "en_kind env")
    (auto simp: envelope_bytes_def envelope_encode_def lenprefix_encode_def idlen_encode_def
      typelen_encode_def delimiter_encode_def Let_def)

lemma fresh_reset: "en_buffer env = [] \<Longrightarrow> en_error env = [] \<Longrightarrow> env\<lparr> en_buffer := [], en_error := [] \<rparr> = env"
  by (cases env) simp

lemma fresh_error: "en_error env = [] \<Longrightarrow> env\<lparr> en_error := [] \<rparr> = env"
  by (cases env) simp

lemma delimiter_pieces:
  "\<exists>pieces. body @ [d] = concat (map (\<lambda>x. x @ [d]) pieces) \<and> length pieces = Suc (count_list body d) \<and>
     list_all (\<lambda>x. d \<notin> set x) pieces"
proof (induction body)
  case Nil
  then show ?case by (intro exI [of _ "[[]]"]) simp
next
  case (Cons b body)
  then obtain pieces where
    ih: "body @ [d] = concat (map (\<lambda>x. x @ [d]) pieces)" "length pieces = Suc (count_list body d)"
    "list_all (\<lambda>x. d \<notin> set x) pieces" by blast
  then obtain x xs where pieces: "pieces = x # xs" by (cases pieces) auto
  show ?case
  proof (cases "b = d")
    case True
    with ih show ?thesis by (intro exI [of _ "[] # pieces"]) simp
  next
    case False
    with ih pieces show ?thesis by (intro exI [of _ "(b # x) # xs"]) simp
  qed
qed

lemma drain_pieces:
  assumes "ec_max_frame_size c = 0"
  shows "list_all (\<lambda>x. ec_delimiter c \<notin> set x) pieces \<Longrightarrow>
    drain (envelope_scan (Delimiter, c)) (concat (map (\<lambda>x. x @ [ec_delimiter c]) pieces)) [] =
      Some (map (\<lambda>x. new_Packet\<lparr> pk_body := x, pk_raw_frame := x @ [ec_delimiter c] \<rparr>) pieces, [], [])"
proof (induction pieces)
  case Nil
  then show ?case using envelopes.empty_wait [of "(Delimiter, c)"] by (simp del: envelope_scan.simps)
next
  case (Cons x xs)
  let ?rest = "concat (map (\<lambda>x. x @ [ec_delimiter c]) xs)"
  have "find_pos (\<lambda>b. b = ec_delimiter c) x = None" using Cons.prems by (auto simp: find_pos_None)
  then have "envelope_scan (Delimiter, c) ((x @ [ec_delimiter c]) @ ?rest) =
      Emit (new_Packet\<lparr> pk_body := x, pk_raw_frame := x @ [ec_delimiter c] \<rparr>) (length x + 1)"
    using assms by (auto simp: delimiter_scan_Emit find_pos_append)
  then show ?case
    using Cons by (simp add: envelopes.drain_Emit del: envelope_scan.simps)
qed

lemma envelope_encode_shape:
  "\<exists>header out env'. envelope_encode env p = (out, env') \<and> en_buffer env' = en_buffer env \<and>
     (has_error env' \<longleftrightarrow> out = []) \<and>
     out = (if has_error env' then [] else header @ pk_body p @ envelope_trailer (shape env)) \<and>
     (has_error env' \<or> length header = envelope_header_size (shape env))"
proof (cases "envelope_ok (shape env)")
  case True
  note defs = envelope_encode_def id_header_fits_def
  note pos = envelope_header_size_pos [OF True]
  show ?thesis
  proof (cases "shape env" rule: envelope_scan.cases)
    case (1 c)
    with pos True show ?thesis
      by (auto simp: defs lenprefix_encode_def Let_def
          intro!: exI [of _ "write_uint _ (ec_length_bytes c) (ec_endian c) []"] dest: arg_cong [of _ _ length])
  qed (use pos True in \<open>auto simp: defs idlen_encode_eq typelen_encode_eq delimiter_encode_def
      intro!: exI [of _ "id_header _ _ _"] dest: arg_cong [of _ _ length]\<close>)
next
  case False
  then show ?thesis
    by (cases "shape env" rule: envelope_scan.cases)
      (auto simp: envelope_encode_def lenprefix_encode_def idlen_encode_def typelen_encode_def Let_def)
qed

lemma envelope_feed_encoded:
  assumes "envelope_ok (shape env)" "en_buffer env = []" "en_error env = []" "envelope_sendable (shape env) p"
  shows "envelope_feed env (Some (envelope_bytes (shape env) p)) (length (envelope_bytes (shape env) p)) =
    Some ([envelope_packet (shape env) p], env)"
  using envelopes.drain_encoded [OF assms(1), of "[p]"] assms fresh_reset [of env]
  by (simp add: envelope_feed_run)

lemma envelope_encode_state:
  "en_buffer (snd (envelope_encode env p)) = en_buffer env"
  "en_kind (snd (envelope_encode env p)) = en_kind env"
  "en_config (snd (envelope_encode env p)) = en_config env"
  by (cases "en_kind env"; simp add: envelope_encode_def lenprefix_encode_def idlen_encode_def
      typelen_encode_def delimiter_encode_def Let_def)+

lemma envelope_packet_body [simp]: "pk_body (envelope_packet s p) = pk_body p"
  by (cases "(s, p)" rule: envelope_packet.cases) auto

lemma envelope_feed_total:
  "\<exists>ps env'. envelope_feed env data n = Some (ps, env') \<and>
     en_kind env' = en_kind env \<and> en_config env' = en_config env \<and>
     (en_error env' = [] \<or> en_buffer env' = [])"
proof (cases "envelope_ok (shape env) \<and> \<not> (data = None \<and> 0 < n)")
  case True
  obtain ps rest e where
    d: "drain (envelope_scan (shape env)) (append_data (en_buffer env) data n) [] = Some (ps, rest, e)"
    using envelopes.drain_returns True by blast
  with True envelopes.drain_fail_rest [OF _ d] show ?thesis
    by (auto simp: envelope_feed_run run_feed_def)
next
  case False
  then obtain e where "envelope_feed env data n = reject env e"
    using envelope_feed_reject by blast
  then show ?thesis by (simp add: reject_def)
qed

subsection \<open>Properties\<close>

text \<open>
  C2. For every envelope kind: whatever way the network splits the encodings of a list of sendable
  packets into reads, a fresh envelope hands out exactly those packets, in order, reports no error
  and is back in its initial state.
\<close>

theorem envelope_reassembles_packets:
  assumes "envelope_ok (shape (create_envelope k c))"
    and "list_all (envelope_sendable (shape (create_envelope k c))) ps"
    and "concat chunks = concat (map (\<lambda>p. fst (envelope_encode (create_envelope k c) p)) ps)"
  shows "envelope_feed_all (create_envelope k c) chunks =
    Some (map (envelope_packet (shape (create_envelope k c))) ps, create_envelope k c)"
  using envelopes.drain_chunks_encoded [OF assms(1,2), of chunks] assms(1,3) fresh_envelope [of k c]
  by (simp add: envelope_feed_all_chunks envelope_encode_bytes)

theorem envelope_reassembles_packets_witness:
  "envelope_feed_all (create_envelope IdLen new_EnvelopeConfig) [[0, 7, 0], [2, 65, 66, 0], [9, 0, 0]] =
    Some ([new_Packet\<lparr> pk_route_id := 7, pk_body := [65, 66], pk_raw_frame := [0, 7, 0, 2, 65, 66] \<rparr>,
           new_Packet\<lparr> pk_route_id := 9, pk_raw_frame := [0, 9, 0, 0] \<rparr>],
          create_envelope IdLen new_EnvelopeConfig)"
  using envelope_reassembles_packets [of IdLen new_EnvelopeConfig
      "[new_Packet\<lparr> pk_route_id := 7, pk_body := [65, 66] \<rparr>, new_Packet\<lparr> pk_route_id := 9 \<rparr>]"
      "[[0, 7, 0], [2, 65, 66, 0], [9, 0, 0]]"]
  by (simp add: create_envelope_def new_IdLenEnvelope_def new_Envelope_def new_EnvelopeConfig_def
      new_Packet_def valid_integer_width_def envelope_sendable_def envelope_bytes_def
      envelope_encode_def idlen_encode_def Let_def fits_width_def has_error_def SIZE_MAX_def write_uint_def
      upt_rec)

text \<open>
  C27. A feed of any envelope returns, whatever its configuration, its buffer and the input are; it
  keeps the kind and the configuration, and an envelope left in error holds no bytes.
\<close>

theorem envelope_feed_returns:
  "\<exists>ps env'. envelope_feed env data n = Some (ps, env') \<and>
     en_kind env' = en_kind env \<and> en_config env' = en_config env \<and>
     (en_error env' = [] \<or> en_buffer env' = [])"
  by (rule envelope_feed_total)

text \<open>
  C11. For every envelope kind: feeding a connection read by read, up to the first error, gives the
  same packets and leaves the envelope in the same state as feeding all its bytes at once.
\<close>

theorem envelope_feed_chunking:
  assumes "envelope_ok (shape env)" "envelope_idle env"
  shows "envelope_feed_all env chunks = envelope_feed env (Some (concat chunks)) (length (concat chunks))"
  using assms envelopes.drain_chunks_concat [OF assms(1), of "en_buffer env" chunks]
  by (simp add: envelope_feed_all_chunks envelope_idle_def envelope_feed_run del: length_concat)

theorem envelope_feed_chunking_witness:
  "envelope_feed_all (create_envelope Delimiter new_EnvelopeConfig) [[65], [10, 66], [67, 10, 68]] =
   envelope_feed (create_envelope Delimiter new_EnvelopeConfig) (Some [65, 10, 66, 67, 10, 68]) 6"
  using envelope_feed_chunking [of "create_envelope Delimiter new_EnvelopeConfig" "[[65], [10, 66], [67, 10, 68]]"]
  by (simp add: create_envelope_def new_DelimiterEnvelope_def new_Envelope_def envelope_idle_def delimiter_scan_def
      new_EnvelopeConfig_def numeral_eq_Suc del: envelope_feed_all.simps)

text \<open>
  For every envelope kind: after a feed without error the raw frames handed out, followed by the
  bytes kept, are the bytes kept before followed by the input; every packet is a header, its body
  and the trailer of the format, with a body within the frame limit.  So forwarding \<open>raw_frame\<close>
  forwards what the client sent.
\<close>

theorem envelope_feed_conserves:
  assumes "envelope_feed env (Some d) (length d) = Some (ps, env')" "\<not> has_error env'"
  shows "concat (map pk_raw_frame ps) @ en_buffer env' = en_buffer env @ d \<and>
    list_all (packet_framed (shape env)) ps"
proof -
  from assms(2) have e: "en_error env' = []" by (simp add: has_error_def)
  note ok = envelope_feed_ok_Some [OF assms(1) e]
  from envelopes.drain_conserves [OF ok(1,2)] drain_framed [OF ok(1,2)] show ?thesis ..
qed

theorem envelope_feed_conserves_witness:
  "\<exists>ps env'. envelope_feed (create_envelope LenPrefix (new_EnvelopeConfig\<lparr> ec_length_bytes := 1 \<rparr>))
       (Some [1, 65, 2, 66]) 4 = Some (ps, env') \<and>
     concat (map pk_raw_frame ps) @ en_buffer env' = [1, 65, 2, 66] \<and> length ps = 1"
proof -
  define env where "env = create_envelope LenPrefix (new_EnvelopeConfig\<lparr> ec_length_bytes := 1 \<rparr>)"
  let ?p = "new_Packet\<lparr> pk_body := [65], pk_raw_frame := [1, 65] \<rparr>"
  have env: "en_kind env = LenPrefix" "en_buffer env = []" "en_error env = []"
    "en_config env = new_EnvelopeConfig\<lparr> ec_length_bytes := 1, ec_route_id_bytes := 0, ec_route_source := RS_Body \<rparr>"
    by (simp_all add: env_def create_envelope_def new_LenPrefixEnvelope_def new_Envelope_def new_EnvelopeConfig_def)
  have 1: "lenprefix_scan (en_config env) [1, 65, 2, 66] = Emit ?p 2"
    and 2: "lenprefix_scan (en_config env) [2, 66] = Wait"
    by (simp_all add: env lenprefix_scan_def new_EnvelopeConfig_def read_uint_def body_length_from_field_def
        SIZE_MAX_def Let_def)
  have "drain (lenprefix_scan (en_config env)) [1, 65, 2, 66] [] = Some ([?p], [2, 66], [])"
    using drain_simps(3) [where look = "lenprefix_scan (en_config env)", OF 1, of "[]"]
      drain_simps(1) [where look = "lenprefix_scan (en_config env)", OF 2, of "[?p]"] by simp
  then have feed: "envelope_feed env (Some [1, 65, 2, 66]) (length [1, 65, 2, 66 :: u8]) =
      Some ([?p], env\<lparr> en_buffer := [2, 66], en_error := [] \<rparr>)"
    by (subst envelope_feed_run) (simp_all only: run_feed_bytes env envelope_ok.simps envelope_scan.simps,
      simp_all add: valid_integer_width_def)
  from envelope_feed_conserves [OF feed] feed env show ?thesis
    unfolding env_def [symmetric] by (auto simp: has_error_def numeral_eq_Suc)
qed

text \<open>
  C26. With a frame limit set, an envelope of any kind never keeps more than one header and one body
  of that size between two reads, whatever the peer sends and whether or not the feed failed.
\<close>

theorem envelope_buffer_bounded:
  assumes "envelope_feed env data n = Some (ps, env')" "0 < ec_max_frame_size (en_config env)"
  shows "length (en_buffer env') \<le> envelope_header_size (shape env) + ec_max_frame_size (en_config env)"
proof (cases "envelope_ok (shape env) \<and> \<not> (data = None \<and> 0 < n)")
  case True
  then obtain e where
    "drain (envelope_scan (shape env)) (append_data (en_buffer env) data n) [] = Some (ps, en_buffer env', e)"
    using assms(1) by (auto simp: envelope_feed_run run_feed_def)
  with True have "envelope_scan (shape env) (en_buffer env') = Wait"
    using envelopes.drain_idle by blast
  with assms(2) show ?thesis using envelope_scan_Wait_bound [of "shape env"] by simp
next
  case False
  then obtain e where "envelope_feed env data n = reject env e"
    using envelope_feed_reject by blast
  with assms show ?thesis by (auto simp: reject_def)
qed

theorem envelope_buffer_bounded_witness:
  "\<exists>env'. envelope_feed (create_envelope Delimiter (new_EnvelopeConfig\<lparr> ec_max_frame_size := 3 \<rparr>))
       (Some [65, 66, 67]) 3 = Some ([], env') \<and> length (en_buffer env') \<le> 3"
proof -
  let ?env = "create_envelope Delimiter (new_EnvelopeConfig\<lparr> ec_max_frame_size := 3 \<rparr>)"
  have feed: "envelope_feed ?env (Some [65, 66, 67]) 3 = Some ([], ?env\<lparr> en_buffer := [65, 66, 67] \<rparr>)"
    by (simp add: envelope_feed_def create_envelope_def new_DelimiterEnvelope_def new_Envelope_def
        new_EnvelopeConfig_def delimiter_feed_def run_feed_def append_data_def delimiter_scan_def drain_simps(1))
  from envelope_buffer_bounded [OF feed] feed show ?thesis
    by (auto simp: create_envelope_def new_DelimiterEnvelope_def new_Envelope_def new_EnvelopeConfig_def)
qed

text \<open>
  C25. Encoding never touches the receive buffer; it yields no bytes exactly when it leaves an error,
  and otherwise a header, the unchanged body and the trailer.
\<close>

theorem envelope_encode_correct:
  "\<exists>header out env'. envelope_encode env p = (out, env') \<and> en_buffer env' = en_buffer env \<and>
     (has_error env' \<longleftrightarrow> out = []) \<and>
     out = (if has_error env' then [] else header @ pk_body p @ envelope_trailer (shape env)) \<and>
     (has_error env' \<or> length header = envelope_header_size (shape env))"
  by (rule envelope_encode_shape)

text \<open>
  The delimiter envelope does not escape: a body with \<open>m\<close> delimiter bytes in it is encoded without
  an error, but its receiver gets \<open>m + 1\<close> packets for it.
\<close>

theorem delimiter_body_split:
  "\<exists>out ps. envelope_encode (create_envelope Delimiter (c\<lparr> ec_max_frame_size := 0 \<rparr>)) p =
       (out, create_envelope Delimiter (c\<lparr> ec_max_frame_size := 0 \<rparr>)) \<and>
     envelope_feed (create_envelope Delimiter (c\<lparr> ec_max_frame_size := 0 \<rparr>)) (Some out) (length out) =
       Some (ps, create_envelope Delimiter (c\<lparr> ec_max_frame_size := 0 \<rparr>)) \<and>
     length ps = Suc (count_list (pk_body p) (ec_delimiter c))"
proof -
  let ?env = "create_envelope Delimiter (c\<lparr> ec_max_frame_size := 0 \<rparr>)"
  have cfg: "ec_max_frame_size (en_config ?env) = 0" "ec_delimiter (en_config ?env) = ec_delimiter c"
    by (simp_all add: create_envelope_def new_DelimiterEnvelope_def)
  obtain pieces where pieces: "pk_body p @ [ec_delimiter c] = concat (map (\<lambda>x. x @ [ec_delimiter c]) pieces)"
    "length pieces = Suc (count_list (pk_body p) (ec_delimiter c))"
    "list_all (\<lambda>x. ec_delimiter c \<notin> set x) pieces"
    using delimiter_pieces [of "pk_body p" "ec_delimiter c"] by (elim exE conjE)
  let ?ps = "map (\<lambda>x. new_Packet\<lparr> pk_body := x, pk_raw_frame := x @ [ec_delimiter c] \<rparr>) pieces"
  have reset: "?env\<lparr> en_buffer := [], en_error := [] \<rparr> = ?env" "?env\<lparr> en_error := [] \<rparr> = ?env"
    by (rule fresh_reset fresh_error; simp only: fresh_envelope)+
  have ok: "envelope_ok (shape ?env)" by (simp only: fresh_envelope envelope_ok.simps)
  have enc: "envelope_encode ?env p = (pk_body p @ [ec_delimiter c], ?env)"
    by (simp only: envelope_encode_def delimiter_encode_def fresh_envelope EnvelopeKind.case cfg reset)
  have "drain (envelope_scan (shape ?env)) (pk_body p @ [ec_delimiter c]) [] = Some (?ps, [], [])"
    using drain_pieces [OF cfg(1), of pieces] pieces(1,3) by (simp only: cfg(2) fresh_envelope)
  then have feed: "envelope_feed ?env (Some (pk_body p @ [ec_delimiter c])) (length (pk_body p @ [ec_delimiter c])) =
      Some (?ps, ?env)"
    using envelope_feed_run [OF ok, of "Some (pk_body p @ [ec_delimiter c])"]
    by (simp only: run_feed_bytes fresh_envelope(2) append_Nil option.map prod.case reset option.distinct simp_thms)
  show ?thesis
    by (intro exI conjI) (rule enc, rule feed, simp only: length_map pieces(2))
qed

end
