(* ===== verification/Json_Api.thy ===== *)
theory Json_Api
  imports Shield_Prelude
begin

section \<open>The JSON library as a parameter\<close>

text \<open>
  The sources use \<open>nlohmann::json\<close>, which is not part of the repository.  A \<open>json_api\<close> holds the
  operations of that library that the sources call, over an abstract type \<open>'j\<close> of JSON values; every
  definition that works on JSON takes it as an argument.  An operation that throws returns \<open>Inl\<close>
  with the text of \<open>what()\<close>.  \<open>js_elems\<close> is what a range-based \<open>for\<close> visits, \<open>js_items\<close> the keys and
  values of an object in the order of its iterators, \<open>js_double_less\<close> compares two values after
  \<open>get<double>()\<close>, and \<open>js_equal\<close> is \<open>operator==\<close>.

  \<open>json_laws\<close> collects the documented behaviour some properties rely on: how objects answer
  \<open>contains\<close> and \<open>operator[]\<close> after an assignment, and what the getters return for values built
  from strings and 32-bit unsigned numbers.  \<open>json_stable\<close> says of one value that parsing its
  serialization gives it back.
\<close>

record 'j json_api =
  js_is_object :: "'j \<Rightarrow> bool"
  js_is_array :: "'j \<Rightarrow> bool"
  js_is_string :: "'j \<Rightarrow> bool"
  js_is_number_unsigned :: "'j \<Rightarrow> bool"
  js_empty :: "'j \<Rightarrow> bool"
  js_contains :: "'j \<Rightarrow> string \<Rightarrow> bool"
  js_at :: "'j \<Rightarrow> string \<Rightarrow> 'j"
  js_elems :: "'j \<Rightarrow> 'j list"
  js_get_string :: "'j \<Rightarrow> string + string"
  js_get_u32 :: "'j \<Rightarrow> string + u32"
  js_value_json :: "'j \<Rightarrow> string \<Rightarrow> 'j \<Rightarrow> string + 'j"
  js_value_string :: "'j \<Rightarrow> string \<Rightarrow> string \<Rightarrow> string + string"
  js_value_bool :: "'j \<Rightarrow> string \<Rightarrow> bool \<Rightarrow> string + bool"
  js_value_int :: "'j \<Rightarrow> string \<Rightarrow> 32 word \<Rightarrow> string + 32 word"
  js_value_u16 :: "'j \<Rightarrow> string \<Rightarrow> u16 \<Rightarrow> string + u16"
  js_value_u32 :: "'j \<Rightarrow> string \<Rightarrow> u32 \<Rightarrow> string + u32"
  js_value_size :: "'j \<Rightarrow> string \<Rightarrow> u64 \<Rightarrow> string + u64"
  js_object :: 'j
  js_set :: "'j \<Rightarrow> string \<Rightarrow> 'j \<Rightarrow> 'j"
  js_of_string :: "string \<Rightarrow> 'j"
  js_of_u32 :: "u32 \<Rightarrow> 'j"
  js_parse :: "bytes \<Rightarrow> string + 'j"
  js_dump :: "'j \<Rightarrow> string + bytes"
  js_is_null :: "'j \<Rightarrow> bool"
  js_is_boolean :: "'j \<Rightarrow> bool"
  js_is_number :: "'j \<Rightarrow> bool"
  js_is_number_integer :: "'j \<Rightarrow> bool"
  js_items :: "'j \<Rightarrow> (string \<times> 'j) list"
  js_get_int :: "'j \<Rightarrow> string + int"
  js_get_strings :: "'j \<Rightarrow> string + string list"
  js_double_less :: "'j \<Rightarrow> 'j \<Rightarrow> string + bool"
  js_equal :: "'j \<Rightarrow> 'j \<Rightarrow> bool"

definition json_laws :: "'j json_api \<Rightarrow> bool" where
  "json_laws J \<longleftrightarrow>
     js_is_object J (js_object J) \<and>
     (\<forall>k. \<not> js_contains J (js_object J) k) \<and>
     (\<forall>m k. js_contains J m k \<longrightarrow> js_is_object J m) \<and>
     (\<forall>m k v. js_is_object J m \<longrightarrow> js_is_object J (js_set J m k v)) \<and>
     (\<forall>m k v k'. js_is_object J m \<longrightarrow>
        (js_contains J (js_set J m k v) k' \<longleftrightarrow> k' = k \<or> js_contains J m k')) \<and>
     (\<forall>m k v k'. js_is_object J m \<longrightarrow>
        js_at J (js_set J m k v) k' = (if k' = k then v else js_at J m k')) \<and>
     (\<forall>s. js_is_string J (js_of_string J s) \<and> js_get_string J (js_of_string J s) = Inr s) \<and>
     (\<forall>n. js_is_number_unsigned J (js_of_u32 J n) \<and> js_get_u32 J (js_of_u32 J n) = Inr n)"

definition json_stable :: "'j json_api \<Rightarrow> 'j \<Rightarrow> bool" where
  "json_stable J m \<longleftrightarrow> (\<exists>b. js_dump J m = Inr b \<and> js_parse J b = Inr m)"

lemma json_lawsD:
  assumes "json_laws J"
  shows "js_is_object J (js_object J)"
    and "\<not> js_contains J (js_object J) k"
    and "js_contains J m k \<Longrightarrow> js_is_object J m"
    and "js_is_object J m \<Longrightarrow> js_is_object J (js_set J m k v)"
    and "js_is_object J m \<Longrightarrow> js_contains J (js_set J m k v) k' \<longleftrightarrow> k' = k \<or> js_contains J m k'"
    and "js_is_object J m \<Longrightarrow> js_at J (js_set J m k v) k' = (if k' = k then v else js_at J m k')"
    and "js_is_string J (js_of_string J s)" and "js_get_string J (js_of_string J s) = Inr s"
    and "js_is_number_unsigned J (js_of_u32 J n)" and "js_get_u32 J (js_of_u32 J n) = Inr n"
  using assms by (auto simp: json_laws_def)

lemmas json_rules = json_lawsD(1,2,4-10)

end
