(* ===== verification/Json_Sample.thy ===== *)
theory Json_Sample
  imports Json_Api
begin

section \<open>A small JSON library\<close>

text \<open>
  A concrete \<open>json_api\<close> over a datatype of objects, arrays, strings and unsigned numbers.  Its
  texts come from a table of values and their serializations.  It satisfies \<open>json_laws\<close>, so the
  properties that assume them can be applied to concrete messages.
\<close>

datatype sample =
    SObj "(string \<times> sample) list"
  | SArr "sample list"
  | SStr string
  | SNum u64
  | SBool bool
  | SNull

fun s_contains :: "sample \<Rightarrow> string \<Rightarrow> bool" where
  "s_contains (SObj kvs) k = (map_of kvs k \<noteq> None)"
| "s_contains _ k = False"

fun s_at :: "sample \<Rightarrow> string \<Rightarrow> sample" where
  "s_at (SObj kvs) k = (case map_of kvs k of Some v \<Rightarrow> v | None \<Rightarrow> SObj [])"
| "s_at _ k = SObj []"

fun s_set :: "sample \<Rightarrow> string \<Rightarrow> sample \<Rightarrow> sample" where
  "s_set (SObj kvs) k v = SObj (AList.update k v kvs)"
| "s_set m k v = m"

fun s_string :: "sample \<Rightarrow> string + string" where
  "s_string (SStr s) = Inr s"
| "s_string _ = Inl ''type must be string''"

fun s_num :: "sample \<Rightarrow> string + u64" where
  "s_num (SNum n) = Inr n"
| "s_num _ = Inl ''type must be number''"

fun s_bool :: "sample \<Rightarrow> string + bool" where
  "s_bool (SBool b) = Inr b"
| "s_bool _ = Inl ''type must be boolean''"

fun s_is_object :: "sample \<Rightarrow> bool" where
  "s_is_object (SObj _) = True"
| "s_is_object _ = False"

fun s_elems :: "sample \<Rightarrow> sample list" where
  "s_elems (SArr vs) = vs"
| "s_elems _ = []"

fun s_empty :: "sample \<Rightarrow> bool" where
  "s_empty (SObj kvs) = (kvs = [])"
| "s_empty (SArr vs) = (vs = [])"
| "s_empty _ = False"

fun s_items :: "sample \<Rightarrow> (string \<times> sample) list" where
  "s_items (SObj kvs) = kvs"
| "s_items _ = []"

fun s_strings :: "sample list \<Rightarrow> string + string list" where
  "s_strings [] = Inr []"
| "s_strings (v # vs) = attempt (s_string v) (\<lambda>t. attempt (s_strings vs) (\<lambda>ts. Inr (t # ts)))"

definition s_value :: "(sample \<Rightarrow> string + 'a) \<Rightarrow> sample \<Rightarrow> string \<Rightarrow> 'a \<Rightarrow> string + 'a" where
  "s_value get m k d =
     (if \<not> s_is_object m then Inl ''cannot use value()'' else if s_contains m k then get (s_at m k) else Inr d)"

definition sample_api :: "(sample \<times> bytes) list \<Rightarrow> sample json_api" where
  "sample_api texts =
    \<lparr> js_is_object = s_is_object,
      js_is_array = (\<lambda>m. case m of SArr _ \<Rightarrow> True | _ \<Rightarrow> False),
      js_is_string = (\<lambda>m. case m of SStr _ \<Rightarrow> True | _ \<Rightarrow> False),
      js_is_number_unsigned = (\<lambda>m. case m of SNum _ \<Rightarrow> True | _ \<Rightarrow> False),
      js_empty = s_empty,
      js_contains = s_contains,
      js_at = s_at,
      js_elems = s_elems,
      js_get_string = s_string,
      js_get_u32 = (\<lambda>m. map_sum id ucast (s_num m)),
      js_value_json = s_value Inr,
      js_value_string = s_value s_string,
      js_value_bool = s_value s_bool,
      js_value_int = s_value (\<lambda>m. map_sum id ucast (s_num m)),
      js_value_u16 = s_value (\<lambda>m. map_sum id ucast (s_num m)),
      js_value_u32 = s_value (\<lambda>m. map_sum id ucast (s_num m)),
      js_value_size = s_value s_num,
      js_object = SObj [],
      js_set = s_set,
      js_of_string = SStr,
      js_of_u32 = (\<lambda>n. SNum (ucast n)),
      js_parse = (\<lambda>b. case map_of (map prod.swap texts) b of Some m \<Rightarrow> Inr m | None \<Rightarrow> Inl ''parse error''),
      js_dump = (\<lambda>m. case map_of texts m of Some b \<Rightarrow> Inr b | None \<Rightarrow> Inl ''invalid UTF-8''),
      js_is_null = (\<lambda>m. m = SNull),
      js_is_boolean = (\<lambda>m. case m of SBool _ \<Rightarrow> True | _ \<Rightarrow> False),
      js_is_number = (\<lambda>m. case m of SNum _ \<Rightarrow> True | _ \<Rightarrow> False),
      js_is_number_integer = (\<lambda>m. case m of SNum _ \<Rightarrow> True | _ \<Rightarrow> False),
      js_items = s_items,
      js_get_int = (\<lambda>m. map_sum id uint (s_num m)),
      js_get_strings = (\<lambda>m. s_strings (s_elems m)),
      js_double_less = (\<lambda>a b. attempt (s_num a) (\<lambda>x. attempt (s_num b) (\<lambda>y. Inr (x < y)))),
      js_equal = (=) \<rparr>"

lemma s_is_object_cases: "s_is_object m \<Longrightarrow> \<exists>kvs. m = SObj kvs"
  by (cases m) auto

lemma json_laws_sample: "json_laws (sample_api texts)"
  by (auto simp: json_laws_def sample_api_def update_conv' dest!: s_is_object_cases
      elim: s_contains.elims)

end
