(* ===== verification/Body_Codec.thy ===== *)
theory Body_Codec
  imports Json_Sample Protocol_Types Named_Table
begin

section \<open>Body codecs\<close>

text \<open>
  The structured-message helpers, the four body codecs, \<open>create_body_codec\<close> and
  \<open>BodyCodecRegistry\<close> of \<open>src/src/transport/protocol.cpp\<close>.  The class hierarchy is the datatype
  \<open>BodyCodec\<close>.  A thrown exception is \<open>Inl\<close> with its text.  An external codec is a plugin behind
  the C interface \<open>shield_protocol_codec_v1\<close>: its two functions are fields of a record, a null
  pointer is \<open>None\<close>, and a call answers with an error (message and code) or with bytes.
\<close>

record decode_args =
  da_route_id :: u32
  da_codec_id :: u16
  da_schema_id :: u16
  da_route_name :: "string option"
  da_payload :: bytes

record encode_args =
  ea_route_id :: u32
  ea_codec_id :: u16
  ea_schema_id :: u16
  ea_route_name :: "string option"
  ea_message_json :: bytes

datatype plugin_reply = PluginError "string option" "string option" | PluginOk "bytes option"

record shield_protocol_codec =
  pc_codec_name :: "string option"
  pc_decode :: "(decode_args \<Rightarrow> plugin_reply) option"
  pc_encode :: "(encode_args \<Rightarrow> plugin_reply) option"

datatype BodyCodec =
    RawBodyCodec
  | PassthroughBodyCodec string
  | JsonBodyCodec
  | ExternalBodyCodec string string "shield_protocol_codec option"

definition codec_name :: "BodyCodec \<Rightarrow> string" where
  "codec_name codec =
     (case codec of
        RawBodyCodec \<Rightarrow> ''raw''
      | PassthroughBodyCodec name \<Rightarrow> name
      | JsonBodyCodec \<Rightarrow> ''json''
      | ExternalBodyCodec provider name _ \<Rightarrow> name)"

subsection \<open>Structured messages\<close>

text \<open>The two getters are only called on values of the right type; \<open>Inl\<close> would be an exception.\<close>

definition structured_route_key :: "'j json_api \<Rightarrow> 'j \<Rightarrow> string + BodyRouteKey option" where
  "structured_route_key J v =
     (if \<not> js_is_object J v then Inr None
      else
        let id = (if js_contains J v ''route_id'' \<and> js_is_number_unsigned J (js_at J v ''route_id'')
                    then js_get_u32 J (js_at J v ''route_id'')
                  else if js_contains J v ''msg_id'' \<and> js_is_number_unsigned J (js_at J v ''msg_id'')
                    then js_get_u32 J (js_at J v ''msg_id'')
                  else Inr 0);
            name = (if js_contains J v ''route'' \<and> js_is_string J (js_at J v ''route'')
                      then js_get_string J (js_at J v ''route'')
                    else if js_contains J v ''method'' \<and> js_is_string J (js_at J v ''method'')
                      then js_get_string J (js_at J v ''method'')
                    else Inr []) in
        case id of Inl e \<Rightarrow> Inl e
        | Inr i \<Rightarrow> (case name of Inl e \<Rightarrow> Inl e
          | Inr n \<Rightarrow> let key = \<lparr> bk_route_id = i, bk_route_name = n \<rparr> in
              if route_key_empty key then Inr None else Inr (Some key)))"

definition decode_structured_body ::
  "'j json_api \<Rightarrow> Packet \<Rightarrow> RouteEntry \<Rightarrow> 'j \<Rightarrow> string + 'j DecodedBody" where
  "decode_structured_body J packet route message =
     (case structured_route_key J message of
        Inl e \<Rightarrow> Inl e
      | Inr key \<Rightarrow> Inr \<lparr>
          db_route_id = re_route_id route, db_codec_id = re_codec_id route,
          db_schema_id = re_schema_id route,
          db_route_name = (case key of None \<Rightarrow> [] | Some k \<Rightarrow> bk_route_name k),
          db_bytes = pk_body packet,
          db_message = Some (if js_is_object J message \<and> js_contains J message ''payload''
            then js_at J message ''payload'' else message) \<rparr>)"

definition message_contains_route_hint :: "'j json_api \<Rightarrow> 'j \<Rightarrow> bool" where
  "message_contains_route_hint J message \<longleftrightarrow>
     js_is_object J message \<and>
     (js_contains J message ''route'' \<or> js_contains J message ''route_id'' \<or>
      js_contains J message ''msg_id'' \<or> js_contains J message ''method'')"

definition route_fields :: "'j json_api \<Rightarrow> 'j DecodedBody \<Rightarrow> RouteEntry \<Rightarrow> 'j" where
  "route_fields J body route =
     (let m0 = js_object J;
          m1 = (if db_route_name body \<noteq> [] then js_set J m0 ''route'' (js_of_string J (db_route_name body))
                else if re_debug_name route \<noteq> []
                  then js_set J m0 ''route'' (js_of_string J (re_debug_name route))
                else m0) in
      if re_route_id route \<noteq> 0 then js_set J m1 ''route_id'' (js_of_u32 J (re_route_id route)) else m1)"

definition encode_structured_message ::
  "'j json_api \<Rightarrow> 'j DecodedBody \<Rightarrow> RouteEntry \<Rightarrow> string + 'j" where
  "encode_structured_message J body route =
     (case db_message body of
        Some message \<Rightarrow>
          if message_contains_route_hint J message then Inr message
          else Inr (js_set J (route_fields J body route) ''payload'' message)
      | None \<Rightarrow>
          if db_bytes body \<noteq> [] then Inl ''structured body codec expects business message, not raw bytes''
          else Inr (js_set J (route_fields J body route) ''payload'' (js_object J)))"

definition plugin_business_message :: "'j json_api \<Rightarrow> 'j DecodedBody \<Rightarrow> string + 'j" where
  "plugin_business_message J body =
     (case db_message body of
        Some message \<Rightarrow>
          if js_is_object J message \<and> js_contains J message ''payload'' \<and>
             message_contains_route_hint J message
          then Inr (js_at J message ''payload'') else Inr message
      | None \<Rightarrow>
          if db_bytes body \<noteq> [] then Inl ''plugin body codec expects business message, not raw bytes''
          else Inr (js_object J))"

definition plugin_error_message :: "string option \<Rightarrow> string option \<Rightarrow> string \<Rightarrow> string" where
  "plugin_error_message message code fallback =
     (if message \<noteq> None \<and> message \<noteq> Some [] then the message
      else if code \<noteq> None \<and> code \<noteq> Some [] then the code
      else fallback)"

subsection \<open>The codecs\<close>

definition codec_route_key :: "'j json_api \<Rightarrow> BodyCodec \<Rightarrow> Packet \<Rightarrow> BodyRouteKey option" where
  "codec_route_key J codec packet =
     (case codec of
        JsonBodyCodec \<Rightarrow>
          (case js_parse J (pk_body packet) of
             Inl _ \<Rightarrow> None
           | Inr json \<Rightarrow> (case structured_route_key J json of Inl _ \<Rightarrow> None | Inr key \<Rightarrow> key))
      | _ \<Rightarrow> None)"

definition raw_decode :: "Packet \<Rightarrow> RouteEntry \<Rightarrow> 'j DecodedBody" where
  "raw_decode packet route =
     new_DecodedBody\<lparr> db_route_id := re_route_id route, db_codec_id := re_codec_id route,
       db_schema_id := re_schema_id route, db_bytes := pk_body packet \<rparr>"

definition raw_encode :: "'j DecodedBody \<Rightarrow> string + bytes" where
  "raw_encode body =
     (if db_message body \<noteq> None then Inl ''raw body codec expects bytes'' else Inr (db_bytes body))"

definition json_decode :: "'j json_api \<Rightarrow> Packet \<Rightarrow> RouteEntry \<Rightarrow> string + 'j DecodedBody" where
  "json_decode J packet route =
     (case js_parse J (pk_body packet) of
        Inl e \<Rightarrow> Inl e
      | Inr json \<Rightarrow> decode_structured_body J packet route json)"

definition json_encode :: "'j json_api \<Rightarrow> 'j DecodedBody \<Rightarrow> RouteEntry \<Rightarrow> string + bytes" where
  "json_encode J body route =
     (case encode_structured_message J body route of Inl e \<Rightarrow> Inl e | Inr json \<Rightarrow> js_dump J json)"

definition external_unavailable :: "string \<Rightarrow> string" where
  "external_unavailable provider = ''protocol codec provider '' @ [CHR 0x27] @ provider @ [CHR 0x27] @ '' is not available''"

definition external_decode ::
  "'j json_api \<Rightarrow> string \<Rightarrow> shield_protocol_codec option \<Rightarrow> Packet \<Rightarrow> RouteEntry \<Rightarrow> string + 'j DecodedBody" where
  "external_decode J provider codec packet route =
     (case Option.bind codec pc_decode of
        None \<Rightarrow> Inl (external_unavailable provider)
      | Some decode \<Rightarrow>
          (case decode \<lparr> da_route_id = re_route_id route, da_codec_id = re_codec_id route,
                da_schema_id = re_schema_id route,
                da_route_name = (if re_debug_name route = [] then None else Some (re_debug_name route)),
                da_payload = pk_body packet \<rparr> of
             PluginError message code \<Rightarrow> Inl (plugin_error_message message code ''protocol decode failed'')
           | PluginOk out \<Rightarrow>
               (case (if out \<noteq> None \<and> out \<noteq> Some [] then js_parse J (the out) else Inr (js_object J)) of
                  Inl e \<Rightarrow> Inl e
                | Inr message \<Rightarrow> Inr \<lparr> db_route_id = re_route_id route, db_codec_id = re_codec_id route,
                    db_schema_id = re_schema_id route, db_route_name = re_debug_name route,
                    db_bytes = pk_body packet, db_message = Some message \<rparr>)))"

definition external_encode ::
  "'j json_api \<Rightarrow> string \<Rightarrow> shield_protocol_codec option \<Rightarrow> 'j DecodedBody \<Rightarrow> RouteEntry \<Rightarrow> string + bytes" where
  "external_encode J provider codec body route =
     (case Option.bind codec pc_encode of
        None \<Rightarrow> Inl (external_unavailable provider)
      | Some encode \<Rightarrow>
          (case plugin_business_message J body of
             Inl e \<Rightarrow> Inl e
           | Inr message \<Rightarrow>
               (case js_dump J message of
                  Inl e \<Rightarrow> Inl e
                | Inr message_text \<Rightarrow>
                    (case encode \<lparr> ea_route_id = re_route_id route, ea_codec_id = re_codec_id route,
                          ea_schema_id = re_schema_id route,
                          ea_route_name = (if re_debug_name route = [] then None else Some (re_debug_name route)),
                          ea_message_json = message_text \<rparr> of
                       PluginError message code \<Rightarrow> Inl (plugin_error_message message code ''protocol encode failed'')
                     | PluginOk out \<Rightarrow> Inr (case out of None \<Rightarrow> [] | Some payload \<Rightarrow> payload)))))"

definition codec_decode ::
  "'j json_api \<Rightarrow> BodyCodec \<Rightarrow> Packet \<Rightarrow> RouteEntry \<Rightarrow> string + 'j DecodedBody" where
  "codec_decode J codec packet route =
     (case codec of
        RawBodyCodec \<Rightarrow> Inr (raw_decode packet route)
      | PassthroughBodyCodec _ \<Rightarrow> Inl ''body codec does not support decode_local''
      | JsonBodyCodec \<Rightarrow> json_decode J packet route
      | ExternalBodyCodec provider _ vt \<Rightarrow> external_decode J provider vt packet route)"

definition codec_encode ::
  "'j json_api \<Rightarrow> BodyCodec \<Rightarrow> 'j DecodedBody \<Rightarrow> RouteEntry \<Rightarrow> string + bytes" where
  "codec_encode J codec body route =
     (case codec of
        RawBodyCodec \<Rightarrow> raw_encode body
      | PassthroughBodyCodec _ \<Rightarrow> Inl ''body codec does not support encode''
      | JsonBodyCodec \<Rightarrow> json_encode J body route
      | ExternalBodyCodec provider _ vt \<Rightarrow> external_encode J provider vt body route)"

definition create_body_codec :: "string \<Rightarrow> BodyCodec option" where
  "create_body_codec name =
     (if name = ''raw'' then Some RawBodyCodec
      else if name = ''json'' then Some JsonBodyCodec
      else if name = ''msgpack'' \<or> name = ''protobuf'' \<or> name = ''fbs'' \<or> name = ''flatbuffers'' \<or>
              name = ''sproto'' then Some (PassthroughBodyCodec name)
      else if name = ''xmldef'' \<or> name = ''xml_def'' then Some (PassthroughBodyCodec ''xmldef'')
      else None)"

subsection \<open>The registry\<close>

record BodyCodecRegistry =
  cr_codecs :: "(u16, BodyCodec) umap"
  cr_codec_names :: "(string, u16) umap"

definition empty_BodyCodecRegistry :: BodyCodecRegistry where
  "empty_BodyCodecRegistry = \<lparr> cr_codecs = [], cr_codec_names = [] \<rparr>"

definition registry_add :: "u16 \<Rightarrow> BodyCodec option \<Rightarrow> BodyCodecRegistry \<Rightarrow> BodyCodecRegistry \<times> bool" where
  "registry_add codec_id codec r =
     (case codec of
        None \<Rightarrow> (r, False)
      | Some c \<Rightarrow>
          if umap_contains codec_id (cr_codecs r) then (r, False)
          else if codec_name c \<noteq> [] \<and> umap_contains (codec_name c) (cr_codec_names r) then (r, False)
          else let r' = r\<lparr> cr_codecs := fst (umap_emplace codec_id c (cr_codecs r)) \<rparr> in
            (if codec_name c \<noteq> []
             then r'\<lparr> cr_codec_names := fst (umap_emplace (codec_name c) codec_id (cr_codec_names r)) \<rparr>
             else r', True))"

definition registry_upsert :: "u16 \<Rightarrow> BodyCodec option \<Rightarrow> BodyCodecRegistry \<Rightarrow> BodyCodecRegistry" where
  "registry_upsert codec_id codec r =
     (case codec of
        None \<Rightarrow> r
      | Some c \<Rightarrow>
          let names1 = (case umap_find codec_id (cr_codecs r) of
                None \<Rightarrow> cr_codec_names r
              | Some existing \<Rightarrow>
                  if umap_find (codec_name existing) (cr_codec_names r) = Some codec_id
                  then umap_erase (codec_name existing) (cr_codec_names r)
                  else cr_codec_names r) in
          \<lparr> cr_codecs = umap_put codec_id c (cr_codecs r),
            cr_codec_names = (if codec_name c \<noteq> [] then umap_put (codec_name c) codec_id names1 else names1) \<rparr>)"

definition registry_find :: "BodyCodecRegistry \<Rightarrow> u16 \<Rightarrow> BodyCodec option" where
  "registry_find r codec_id = umap_find codec_id (cr_codecs r)"

definition registry_find_by_name :: "BodyCodecRegistry \<Rightarrow> string \<Rightarrow> BodyCodec option" where
  "registry_find_by_name r name =
     (case umap_find name (cr_codec_names r) of None \<Rightarrow> None | Some codec_id \<Rightarrow> registry_find r codec_id)"

definition registry_clear :: "BodyCodecRegistry \<Rightarrow> BodyCodecRegistry" where
  "registry_clear r = \<lparr> cr_codecs = [], cr_codec_names = [] \<rparr>"

definition registry_size :: "BodyCodecRegistry \<Rightarrow> nat" where
  "registry_size r = umap_size (cr_codecs r)"

definition registry_inv :: "BodyCodecRegistry \<Rightarrow> bool" where
  "registry_inv r \<longleftrightarrow>
     umap_wf (cr_codecs r) \<and> umap_wf (cr_codec_names r) \<and>
     (\<forall>n i. umap_find n (cr_codec_names r) = Some i \<longleftrightarrow>
        n \<noteq> [] \<and> (\<exists>c. umap_find i (cr_codecs r) = Some c \<and> codec_name c = n))"

lemma codec_names_iff:
  "registry_inv r \<Longrightarrow> umap_find n (cr_codec_names r) = Some i \<longleftrightarrow>
     n \<noteq> [] \<and> (\<exists>c. umap_find i (cr_codecs r) = Some c \<and> codec_name c = n)"
  by (simp add: registry_inv_def)

lemma registry_inv_empty [simp]: "registry_inv empty_BodyCodecRegistry"
  by (simp add: registry_inv_def empty_BodyCodecRegistry_def)

lemma registry_wfD: "registry_inv r \<Longrightarrow> umap_wf (cr_codecs r) \<and> umap_wf (cr_codec_names r)"
  by (simp add: registry_inv_def)

lemma registry_add_accepts:
  "snd (registry_add i (Some c) r) \<longleftrightarrow>
     umap_find i (cr_codecs r) = None \<and> (codec_name c = [] \<or> umap_find (codec_name c) (cr_codec_names r) = None)"
  by (auto simp: registry_add_def Let_def)

lemma registry_add_refused: "\<not> snd (registry_add i c r) \<Longrightarrow> fst (registry_add i c r) = r"
  by (auto simp: registry_add_def Let_def split: option.splits)

lemma registry_add_state:
  assumes "snd (registry_add i (Some c) r)"
  shows "umap_find j (cr_codecs (fst (registry_add i (Some c) r))) =
           (if j = i then Some c else umap_find j (cr_codecs r))"
    and "umap_find n (cr_codec_names (fst (registry_add i (Some c) r))) =
           (if n = codec_name c \<and> n \<noteq> [] then Some i else umap_find n (cr_codec_names r))"
  using assms by (auto simp: registry_add_accepts registry_add_def Let_def)

lemma registry_add_wf:
  "umap_wf (cr_codecs r) \<Longrightarrow> umap_wf (cr_codecs (fst (registry_add i c r)))"
  "umap_wf (cr_codec_names r) \<Longrightarrow> umap_wf (cr_codec_names (fst (registry_add i c r)))"
  by (auto simp: registry_add_def Let_def split: option.splits)

lemma registry_add_inv:
  assumes "registry_inv r"
  shows "registry_inv (fst (registry_add i c r))"
proof (cases "snd (registry_add i c r)")
  case True
  then obtain d where c: "c = Some d" by (cases c) (auto simp: registry_add_def)
  from True have free: "umap_find i (cr_codecs r) = None"
    and name: "codec_name d = [] \<or> umap_find (codec_name d) (cr_codec_names r) = None"
    by (auto simp: registry_add_accepts c)
  have "umap_find n (cr_codec_names (fst (registry_add i c r))) = Some j \<longleftrightarrow>
      n \<noteq> [] \<and> (\<exists>x. umap_find j (cr_codecs (fst (registry_add i c r))) = Some x \<and> codec_name x = n)" for n j
    using free name codec_names_iff [OF assms, of n i] codec_names_iff [OF assms, of n j]
    by (cases "j = i") (auto simp: c registry_add_state [OF True [unfolded c]])
  then show ?thesis
    using registry_wfD [OF assms] registry_add_wf by (simp add: registry_inv_def)
qed (use assms registry_add_refused in auto)

lemma registry_upsert_codecs:
  "umap_find j (cr_codecs (registry_upsert i (Some c) r)) = (if j = i then Some c else umap_find j (cr_codecs r))"
  by (simp add: registry_upsert_def Let_def)

lemma registry_upsert_names:
  assumes "registry_inv r"
  shows "umap_find n (cr_codec_names (registry_upsert i (Some c) r)) =
    (if n = codec_name c \<and> n \<noteq> [] then Some i
     else if umap_find n (cr_codec_names r) = Some i then None
     else umap_find n (cr_codec_names r))"
proof (cases "umap_find i (cr_codecs r)")
  case None
  then have "umap_find n (cr_codec_names r) \<noteq> Some i"
    by (simp add: codec_names_iff [OF assms])
  with None show ?thesis by (auto simp: registry_upsert_def Let_def)
next
  case (Some old)
  have own: "umap_find m (cr_codec_names r) = Some i \<longleftrightarrow> m \<noteq> [] \<and> codec_name old = m" for m
    by (simp add: codec_names_iff [OF assms] Some)
  show ?thesis
    using Some own [of n] own [of "codec_name old"] by (auto simp: registry_upsert_def Let_def)
qed

lemma registry_upsert_wf:
  "umap_wf (cr_codecs r) \<Longrightarrow> umap_wf (cr_codecs (registry_upsert i c r))"
  "umap_wf (cr_codec_names r) \<Longrightarrow> umap_wf (cr_codec_names (registry_upsert i c r))"
  by (auto simp: registry_upsert_def Let_def split: option.splits)

lemma registry_by_name_inv:
  assumes "registry_inv r"
  shows "registry_find_by_name r n = Some c \<longleftrightarrow>
    n \<noteq> [] \<and> codec_name c = n \<and> (\<exists>i. registry_find r i = Some c)"
proof
  assume "registry_find_by_name r n = Some c"
  then obtain i where "umap_find n (cr_codec_names r) = Some i" "umap_find i (cr_codecs r) = Some c"
    by (auto simp: registry_find_by_name_def registry_find_def split: option.splits)
  then show "n \<noteq> [] \<and> codec_name c = n \<and> (\<exists>i. registry_find r i = Some c)"
    by (auto simp: codec_names_iff [OF assms] registry_find_def)
next
  assume "n \<noteq> [] \<and> codec_name c = n \<and> (\<exists>i. registry_find r i = Some c)"
  then obtain i where i: "umap_find i (cr_codecs r) = Some c" "n \<noteq> []" "codec_name c = n"
    by (auto simp: registry_find_def)
  then have "umap_find n (cr_codec_names r) = Some i" by (simp add: codec_names_iff [OF assms])
  with i show "registry_find_by_name r n = Some c"
    by (simp add: registry_find_by_name_def registry_find_def)
qed

lemma registry_by_name_None:
  assumes "registry_inv r"
  shows "registry_find_by_name r n = None \<longleftrightarrow> umap_find n (cr_codec_names r) = None"
proof (cases "umap_find n (cr_codec_names r)")
  case (Some i)
  then obtain c where "umap_find i (cr_codecs r) = Some c" by (auto simp: codec_names_iff [OF assms])
  with Some show ?thesis by (simp add: registry_find_by_name_def registry_find_def)
qed (simp add: registry_find_by_name_def)

lemma registry_upsert_inv:
  assumes "registry_inv r"
    and "codec_name c = [] \<or> registry_find_by_name r (codec_name c) = None \<or>
         registry_find_by_name r (codec_name c) = registry_find r i"
  shows "registry_inv (registry_upsert i (Some c) r)"
proof -
  have own: "codec_name c = [] \<or> umap_find (codec_name c) (cr_codec_names r) = None \<or>
      umap_find (codec_name c) (cr_codec_names r) = Some i"
  proof (cases "umap_find (codec_name c) (cr_codec_names r)")
    case (Some j)
    then obtain old where "umap_find j (cr_codecs r) = Some old" "codec_name old = codec_name c" "codec_name c \<noteq> []"
      by (auto simp: codec_names_iff [OF assms(1)])
    with Some assms(2) codec_names_iff [OF assms(1), of "codec_name c" i] show ?thesis
      by (auto simp: registry_find_by_name_def registry_find_def)
  qed simp
  have "umap_find n (cr_codec_names (registry_upsert i (Some c) r)) = Some j \<longleftrightarrow>
      n \<noteq> [] \<and> (\<exists>x. umap_find j (cr_codecs (registry_upsert i (Some c) r)) = Some x \<and> codec_name x = n)" for n j
    using own codec_names_iff [OF assms(1), of n j]
    by (cases "j = i") (auto simp: registry_upsert_codecs registry_upsert_names [OF assms(1)])
  then show ?thesis
    using registry_wfD [OF assms(1)] registry_upsert_wf by (simp add: registry_inv_def)
qed

interpretation codecs: named_table registry_inv empty_BodyCodecRegistry registry_find registry_find_by_name
  codec_name "\<lambda>_ _. True" "\<lambda>i c. registry_add i (Some c)" "\<lambda>i c. registry_upsert i (Some c)"
proof
  fix r n c
  assume "registry_inv r" "registry_find_by_name r n = Some c"
  then show "n \<noteq> [] \<and> codec_name c = n \<and> (\<exists>i. registry_find r i = Some c)"
    by (simp add: registry_by_name_inv)
next
  fix r i c
  assume "registry_inv r" "registry_find r i = Some c" "codec_name c \<noteq> []"
  then show "registry_find_by_name r (codec_name c) = Some c"
    by (auto simp: registry_by_name_inv)
next
  fix r i c
  assume "registry_inv r"
  then show "snd (registry_add i (Some c) r) \<longleftrightarrow>
      registry_find r i = None \<and> (codec_name c = [] \<or> registry_find_by_name r (codec_name c) = None)"
    by (simp add: registry_add_accepts registry_by_name_None registry_find_def)
next
  fix r i c
  show "registry_find (fst (registry_add i (Some c) r)) =
      (if snd (registry_add i (Some c) r) then (registry_find r)(i \<mapsto> c) else registry_find r)"
    using registry_add_state(1) [of i c r] registry_add_refused [of i "Some c" r]
    by (auto simp: registry_find_def fun_eq_iff)
next
  fix i
  show "registry_find empty_BodyCodecRegistry i = None"
    by (simp add: registry_find_def empty_BodyCodecRegistry_def)
qed (auto simp: registry_find_def registry_upsert_codecs fun_eq_iff intro: registry_add_inv registry_upsert_inv)

subsection \<open>JSON round trip\<close>

lemma route_fields_object:
  "json_laws J \<Longrightarrow> js_is_object J (route_fields J body route)"
  by (auto simp: route_fields_def Let_def json_rules)

lemma route_fields_contains:
  "json_laws J \<Longrightarrow> js_contains J (route_fields J body route) k \<longleftrightarrow>
     k = ''route'' \<and> (db_route_name body \<noteq> [] \<or> re_debug_name route \<noteq> []) \<or>
     k = ''route_id'' \<and> re_route_id route \<noteq> 0"
  by (auto simp: route_fields_def Let_def json_rules)

lemma route_fields_at:
  assumes "json_laws J"
  shows "re_route_id route \<noteq> 0 \<Longrightarrow> js_at J (route_fields J body route) ''route_id'' = js_of_u32 J (re_route_id route)"
    and "db_route_name body \<noteq> [] \<or> re_debug_name route \<noteq> [] \<Longrightarrow>
      js_at J (route_fields J body route) ''route'' =
        js_of_string J (if db_route_name body \<noteq> [] then db_route_name body else re_debug_name route)"
  using assms by (auto simp: route_fields_def Let_def json_rules)

definition wrapped :: "'j json_api \<Rightarrow> 'j DecodedBody \<Rightarrow> RouteEntry \<Rightarrow> 'j \<Rightarrow> 'j" where
  "wrapped J body route m = js_set J (route_fields J body route) ''payload'' m"

definition sent_route_name :: "'j DecodedBody \<Rightarrow> RouteEntry \<Rightarrow> string" where
  "sent_route_name body route = (if db_route_name body \<noteq> [] then db_route_name body else re_debug_name route)"

lemma wrapped_payload:
  assumes "json_laws J"
  shows "js_is_object J (wrapped J body route m)" "js_contains J (wrapped J body route m) ''payload''"
    "js_at J (wrapped J body route m) ''payload'' = m"
  using assms route_fields_object [OF assms] by (auto simp: wrapped_def json_rules)

lemma wrapped_contains:
  "json_laws J \<Longrightarrow> js_contains J (wrapped J body route m) k \<longleftrightarrow>
     k = ''payload'' \<or> k = ''route'' \<and> sent_route_name body route \<noteq> [] \<or> k = ''route_id'' \<and> re_route_id route \<noteq> 0"
  using route_fields_object [of J body route]
  by (simp add: wrapped_def json_rules route_fields_contains sent_route_name_def)

lemma wrapped_at:
  assumes "json_laws J"
  shows "re_route_id route \<noteq> 0 \<Longrightarrow> js_at J (wrapped J body route m) ''route_id'' = js_of_u32 J (re_route_id route)"
    and "sent_route_name body route \<noteq> [] \<Longrightarrow>
      js_at J (wrapped J body route m) ''route'' = js_of_string J (sent_route_name body route)"
  using assms route_fields_object [OF assms] route_fields_at(1) [OF assms, of route body] route_fields_at(2) [OF assms, of body route]
  by (auto simp: wrapped_def json_rules sent_route_name_def split: if_splits)

lemma structured_route_key_wrapped:
  assumes "json_laws J"
  shows "structured_route_key J (wrapped J body route m) =
    Inr (if re_route_id route = 0 \<and> sent_route_name body route = [] then None
         else Some \<lparr> bk_route_id = re_route_id route, bk_route_name = sent_route_name body route \<rparr>)"
proof -
  have c: "js_contains J (wrapped J body route m) ''route_id'' \<longleftrightarrow> re_route_id route \<noteq> 0"
    "js_contains J (wrapped J body route m) ''route'' \<longleftrightarrow> sent_route_name body route \<noteq> []"
    "\<not> js_contains J (wrapped J body route m) ''msg_id''" "\<not> js_contains J (wrapped J body route m) ''method''"
    by (simp_all add: wrapped_contains [OF assms])
  note at = wrapped_at(1) [OF assms, of route body m] wrapped_at(2) [OF assms, of body route m]
  show ?thesis
    using wrapped_payload(1) [OF assms, of body route m]
    by (cases "re_route_id route = 0"; cases "sent_route_name body route = []")
      (simp_all add: structured_route_key_def Let_def c at json_rules [OF assms] route_key_empty_def)
qed

lemma json_encode_wrapped:
  assumes "db_message body = Some m" "\<not> message_contains_route_hint J m"
  shows "json_encode J body route = js_dump J (wrapped J body route m)"
  using assms by (simp add: json_encode_def encode_structured_message_def wrapped_def)

subsection \<open>Properties\<close>

text \<open>
  C28. JSON round trip: a business message without routing fields of its own is wrapped with the
  route's name and id; the receiver's codec finds exactly that route key and unwraps the same
  message.
\<close>

theorem json_codec_roundtrip:
  assumes "json_laws J" "db_message body = Some m" "\<not> message_contains_route_hint J m"
    and "json_stable J (wrapped J body route m)"
  shows "\<exists>b. codec_encode J JsonBodyCodec body route = Inr b \<and>
    (\<forall>p. pk_body p = b \<longrightarrow>
      codec_route_key J JsonBodyCodec p =
        (if re_route_id route = 0 \<and> sent_route_name body route = [] then None
         else Some \<lparr> bk_route_id = re_route_id route, bk_route_name = sent_route_name body route \<rparr>) \<and>
      codec_decode J JsonBodyCodec p route =
        Inr \<lparr> db_route_id = re_route_id route, db_codec_id = re_codec_id route,
              db_schema_id = re_schema_id route, db_route_name = sent_route_name body route,
              db_bytes = b, db_message = Some m \<rparr>)"
proof -
  from assms(4) obtain b where b: "js_dump J (wrapped J body route m) = Inr b"
    "js_parse J b = Inr (wrapped J body route m)"
    by (auto simp: json_stable_def)
  have "codec_encode J JsonBodyCodec body route = Inr b"
    using b(1) by (simp add: codec_encode_def json_encode_wrapped [OF assms(2,3)])
  then show ?thesis
    using b(2) wrapped_payload [OF assms(1)]
    by (auto simp: codec_route_key_def codec_decode_def json_decode_def decode_structured_body_def
        structured_route_key_wrapped [OF assms(1)])
qed

theorem json_codec_roundtrip_witness:
  "let route = new_RouteEntry\<lparr> re_route_id := 7, re_debug_name := ''login'' \<rparr>;
       body = new_DecodedBody\<lparr> db_message := Some (SStr ''hi'') \<rparr>;
       m = SObj [(''route'', SStr ''login''), (''route_id'', SNum 7), (''payload'', SStr ''hi'')];
       J = sample_api [(m, [123, 125])]
   in codec_encode J JsonBodyCodec body route = Inr [123, 125] \<and>
      codec_route_key J JsonBodyCodec (new_Packet\<lparr> pk_body := [123, 125] \<rparr>) =
        Some \<lparr> bk_route_id = 7, bk_route_name = ''login'' \<rparr>"
proof -
  let ?route = "new_RouteEntry\<lparr> re_route_id := 7, re_debug_name := ''login'' \<rparr>"
  let ?body = "new_DecodedBody\<lparr> db_message := Some (SStr ''hi'') \<rparr>"
  let ?m = "SObj [(''route'', SStr ''login''), (''route_id'', SNum 7), (''payload'', SStr ''hi'')]"
  let ?J = "sample_api [(?m, [123, 125])]"
  have w: "wrapped ?J ?body ?route (SStr ''hi'') = ?m"
    by (simp add: wrapped_def route_fields_def Let_def sample_api_def new_DecodedBody_def new_RouteEntry_def)
  then have d: "js_dump ?J (wrapped ?J ?body ?route (SStr ''hi'')) = Inr [123, 125]"
    and st: "json_stable ?J (wrapped ?J ?body ?route (SStr ''hi''))"
    by (simp_all add: json_stable_def) (simp_all add: sample_api_def)
  have hint: "\<not> message_contains_route_hint ?J (SStr ''hi'')"
    by (simp add: message_contains_route_hint_def sample_api_def)
  have msg: "db_message ?body = Some (SStr ''hi'')" by simp
  from json_codec_roundtrip [OF json_laws_sample msg hint st] json_encode_wrapped [OF msg hint, of ?route] d
  show ?thesis
    by (auto simp: codec_encode_def sent_route_name_def new_DecodedBody_def new_RouteEntry_def Let_def)
qed

text \<open>
  The registry's \<open>add\<close> refuses a null codec, a taken id and a taken name, and then changes
  nothing; otherwise the codec is found under its id and its name.  The name index stays exact.
\<close>

theorem registry_add_correct:
  assumes "registry_inv r"
  shows "registry_inv (fst (registry_add i codec r)) \<and>
    (if snd (registry_add i codec r)
     then (\<exists>c. codec = Some c \<and> registry_find r i = None \<and>
            registry_find (fst (registry_add i codec r)) = (registry_find r)(i \<mapsto> c) \<and>
            (codec_name c = [] \<or> registry_find_by_name r (codec_name c) = None \<and>
               registry_find_by_name (fst (registry_add i codec r)) (codec_name c) = Some c))
     else fst (registry_add i codec r) = r \<and>
       (case codec of None \<Rightarrow> True
        | Some c \<Rightarrow> registry_find r i \<noteq> None \<or> registry_find_by_name r (codec_name c) \<noteq> None))"
proof (cases codec)
  case None
  then show ?thesis using assms by (simp add: registry_add_def)
next
  case (Some c)
  then show ?thesis
    using codecs.inv_add [OF assms TrueI, of i c] codecs.add_accepts [OF assms TrueI, of i c]
      codecs.add_lookup [OF assms TrueI, of i c] codecs.add_found(2) [OF assms TrueI, of i c]
      registry_add_refused [of i codec r]
    by auto
qed

theorem registry_add_correct_witness:
  "registry_find_by_name (fst (registry_add 1 (create_body_codec ''json'') empty_BodyCodecRegistry)) ''json'' =
     Some JsonBodyCodec"
proof -
  have "snd (registry_add 1 (Some JsonBodyCodec) empty_BodyCodecRegistry)"
    by (simp add: registry_add_accepts) (simp add: empty_BodyCodecRegistry_def)
  then show ?thesis
    using registry_add_correct [OF registry_inv_empty, of 1 "Some JsonBodyCodec"]
    by (simp add: create_body_codec_def codec_name_def)
qed

end
