(* ===== verification/Pipeline.thy ===== *)
theory Pipeline
  imports Envelope Route_Table Body_Codec
begin

section \<open>The protocol pipeline\<close>

text \<open>
  \<open>ProtocolPipeline\<close> of \<open>src/src/transport/protocol.cpp\<close>: the envelope cuts packets off the
  stream, \<open>resolve_route\<close> finds the route of a packet in its header or its body, and the route's
  policy decides whether it is decoded here, forwarded raw or dropped.  On the way out
  \<open>encode_message\<close> finds a route for a business message, encodes the body and wraps it.

  \<open>feed\<close> returns \<open>None\<close> only if the loop of the envelope does not end, which never happens.  The
  envelope pointer is null only if \<open>create_envelope\<close> failed.
\<close>

record ProtocolPipeline =
  pp_profile :: ProtocolProfile
  pp_envelope :: "Envelope option"
  pp_routes :: RouteTable
  pp_codecs :: BodyCodecRegistry
  pp_error :: string

definition new_ProtocolPipeline ::
  "ProtocolProfile \<Rightarrow> RouteTable \<Rightarrow> BodyCodecRegistry \<Rightarrow> ProtocolPipeline" where
  "new_ProtocolPipeline profile routes codecs =
     \<lparr> pp_profile = profile,
       pp_envelope = Some (create_envelope (pf_envelope_kind profile) (pf_envelope profile)),
       pp_routes = routes, pp_codecs = codecs, pp_error = [] \<rparr>"

text \<open>The packet, whose route id may be filled in, the route, and the error of the result.\<close>

definition resolve_route ::
  "'j json_api \<Rightarrow> ProtocolPipeline \<Rightarrow> Packet \<Rightarrow> Packet \<times> RouteEntry option \<times> string" where
  "resolve_route J pl packet =
     (case (if pk_route_id packet \<noteq> 0 then route_find (pp_routes pl) (pk_route_id packet) else None) of
        Some route \<Rightarrow> (packet, Some route, [])
      | None \<Rightarrow>
          if pf_route_source (pp_profile pl) \<noteq> RS_Body \<or> \<not> pf_decode_body_route (pp_profile pl)
          then (packet, None, [])
          else case registry_find (pp_codecs pl) (pf_default_codec_id (pp_profile pl)) of
            None \<Rightarrow> (packet, None, ''default body codec is not registered'')
          | Some codec \<Rightarrow>
              (case codec_route_key J codec packet of
                 None \<Rightarrow> (packet, None, [])
               | Some key \<Rightarrow>
                   if route_key_empty key then (packet, None, [])
                   else if bk_route_id key \<noteq> 0
                   then (packet\<lparr> pk_route_id := bk_route_id key \<rparr>,
                         route_find (pp_routes pl) (bk_route_id key), [])
                   else if bk_route_name key \<noteq> []
                   then (case route_find_by_name (pp_routes pl) (bk_route_name key) of
                           Some route \<Rightarrow> (packet\<lparr> pk_route_id := re_route_id route \<rparr>, Some route, [])
                         | None \<Rightarrow> (packet, None, []))
                   else (packet, None, [])))"

definition codec_for_route :: "ProtocolPipeline \<Rightarrow> RouteEntry \<Rightarrow> BodyCodec option" where
  "codec_for_route pl route = registry_find (pp_codecs pl) (pf_default_codec_id (pp_profile pl))"

definition decode_result ::
  "'j json_api \<Rightarrow> ProtocolPipeline \<Rightarrow> RouteEntry \<Rightarrow> 'j DispatchResult \<Rightarrow> 'j DispatchResult" where
  "decode_result J pl route result =
     (case codec_for_route pl route of
        None \<Rightarrow> result\<lparr> dr_error := ''body codec is not registered'' \<rparr>
      | Some codec \<Rightarrow>
          (case codec_decode J codec (dr_packet result) route of
             Inl e \<Rightarrow> result\<lparr> dr_error := ''body decode failed: '' @ e \<rparr>
           | Inr body \<Rightarrow> result\<lparr> dr_decoded_body := Some body \<rparr>))"

definition dispatch_packet :: "'j json_api \<Rightarrow> ProtocolPipeline \<Rightarrow> Packet \<Rightarrow> 'j DispatchResult" where
  "dispatch_packet J pl packet =
     (let (packet', route, err) = resolve_route J pl packet;
          result = new_DispatchResult\<lparr> dr_packet := packet', dr_route := route, dr_error := err \<rparr> in
      if \<not> result_ok result then result
      else case route of
        None \<Rightarrow> result\<lparr> dr_action := pf_unknown_route_action (pp_profile pl) \<rparr>
      | Some r \<Rightarrow>
          let result = result\<lparr> dr_action := rp_action (re_policy r) \<rparr> in
          if dr_action result = Drop then result
          else if dr_action result = DecodeLocal \<and>
                  (pf_decode_before_dispatch (pp_profile pl) \<or> \<not> rp_lazy_decode (re_policy r))
          then decode_result J pl r result
          else result)"

definition pipeline_feed ::
  "'j json_api \<Rightarrow> ProtocolPipeline \<Rightarrow> bytes option \<Rightarrow> nat \<Rightarrow>
     ('j DispatchResult list \<times> ProtocolPipeline) option" where
  "pipeline_feed J pl data n =
     (case pp_envelope pl of
        None \<Rightarrow> let e = ''protocol envelope is not configured'' in
          Some ([new_DispatchResult\<lparr> dr_error := e \<rparr>], pl\<lparr> pp_error := e \<rparr>)
      | Some env \<Rightarrow>
          (case envelope_feed env data n of
             None \<Rightarrow> None
           | Some (packets, env') \<Rightarrow>
               if has_error env'
               then Some ([new_DispatchResult\<lparr> dr_error := en_error env' \<rparr>],
                          pl\<lparr> pp_envelope := Some env', pp_error := en_error env' \<rparr>)
               else Some (map (dispatch_packet J pl) packets,
                          pl\<lparr> pp_envelope := Some env', pp_error := [] \<rparr>)))"

definition pipeline_encode :: "ProtocolPipeline \<Rightarrow> Packet \<Rightarrow> bytes \<times> ProtocolPipeline" where
  "pipeline_encode pl packet =
     (case pp_envelope pl of
        None \<Rightarrow> ([], pl\<lparr> pp_error := ''protocol envelope is not configured'' \<rparr>)
      | Some env \<Rightarrow>
          let (encoded, env') = envelope_encode env packet in
          (encoded, pl\<lparr> pp_envelope := Some env',
                       pp_error := (if has_error env' then en_error env' else []) \<rparr>))"

subsection \<open>Outbound routes\<close>

text \<open>
  One attempt to take the route from a field of the message: the field counts as a hint as soon as
  it is there; \<open>Inr (Some _)\<close> ends the search.
\<close>

definition name_if_empty :: "'j DecodedBody \<Rightarrow> string \<Rightarrow> 'j DecodedBody" where
  "name_if_empty body name = (if db_route_name body = [] then body\<lparr> db_route_name := name \<rparr> else body)"

definition outbound_by_id ::
  "'j json_api \<Rightarrow> RouteTable \<Rightarrow> 'j \<Rightarrow> string \<Rightarrow> 'j DecodedBody \<Rightarrow> string + ('j DecodedBody \<times> RouteEntry) option" where
  "outbound_by_id J routes message field body =
     (if js_contains J message field \<and> js_is_number_unsigned J (js_at J message field)
      then (case js_get_u32 J (js_at J message field) of
              Inl e \<Rightarrow> Inl e
            | Inr route_id \<Rightarrow>
                Inr (case route_find routes route_id of
                   None \<Rightarrow> None
                 | Some route \<Rightarrow> Some (name_if_empty (body\<lparr> db_route_id := route_id \<rparr>) (re_debug_name route), route)))
      else Inr None)"

definition outbound_by_name ::
  "'j json_api \<Rightarrow> RouteTable \<Rightarrow> 'j \<Rightarrow> string \<Rightarrow> 'j DecodedBody \<Rightarrow> string + ('j DecodedBody \<times> RouteEntry) option" where
  "outbound_by_name J routes message field body =
     (if js_contains J message field \<and> js_is_string J (js_at J message field)
      then (case js_get_string J (js_at J message field) of
              Inl e \<Rightarrow> Inl e
            | Inr route_name \<Rightarrow>
                Inr (case route_find_by_name routes route_name of
                   None \<Rightarrow> None
                 | Some route \<Rightarrow> Some (body\<lparr> db_route_id := re_route_id route, db_route_name := route_name \<rparr>, route)))
      else Inr None)"

text \<open>Attempts in order; the first that throws or finds a route decides.\<close>

fun first_found :: "(string + 'a option) list \<Rightarrow> string + 'a option" where
  "first_found [] = Inr None"
| "first_found (Inl e # _) = Inl e"
| "first_found (Inr (Some x) # _) = Inr (Some x)"
| "first_found (Inr None # xs) = first_found xs"

definition outbound_by_message ::
  "'j json_api \<Rightarrow> RouteTable \<Rightarrow> 'j DecodedBody \<Rightarrow> string + ('j DecodedBody \<times> RouteEntry) option" where
  "outbound_by_message J routes body =
     (case db_message body of
        None \<Rightarrow> Inr None
      | Some message \<Rightarrow>
          if js_is_object J message
          then first_found
            [outbound_by_id J routes message ''route_id'' body, outbound_by_id J routes message ''msg_id'' body,
             outbound_by_name J routes message ''route'' body, outbound_by_name J routes message ''method'' body]
          else Inr None)"

definition saw_route_hint :: "'j json_api \<Rightarrow> 'j DecodedBody \<Rightarrow> bool" where
  "saw_route_hint J body \<longleftrightarrow>
     db_route_id body \<noteq> 0 \<or> db_route_name body \<noteq> [] \<or>
     (case db_message body of
        None \<Rightarrow> False
      | Some message \<Rightarrow>
          js_is_object J message \<and>
          (js_contains J message ''route_id'' \<or> js_contains J message ''msg_id'' \<or>
           js_contains J message ''route'' \<or> js_contains J message ''method''))"

definition resolve_outbound_route ::
  "'j json_api \<Rightarrow> RouteTable \<Rightarrow> 'j DecodedBody \<Rightarrow> string + ('j DecodedBody \<times> RouteEntry) option" where
  "resolve_outbound_route J routes body =
     (case (if db_route_id body \<noteq> 0 then route_find routes (db_route_id body) else None) of
        Some route \<Rightarrow> Inr (Some (name_if_empty body (re_debug_name route), route))
      | None \<Rightarrow>
      (case (if db_route_name body \<noteq> [] then route_find_by_name routes (db_route_name body) else None) of
        Some route \<Rightarrow> Inr (Some (body\<lparr> db_route_id := re_route_id route \<rparr>, route))
      | None \<Rightarrow>
      (case outbound_by_message J routes body of
        Inl e \<Rightarrow> Inl e
      | Inr (Some found) \<Rightarrow> Inr (Some found)
      | Inr None \<Rightarrow>
          if \<not> saw_route_hint J body
          then Inr (case route_only routes of
              None \<Rightarrow> None
            | Some route \<Rightarrow>
                Some (name_if_empty (body\<lparr> db_route_id := re_route_id route \<rparr>) (re_debug_name route), route))
          else Inr None)))"

text \<open>
  \<open>resolve_outbound_route\<close> is called outside the \<open>try\<close> block of \<open>encode_message\<close>: an exception of a
  getter leaves \<open>encode_message\<close>, which is \<open>Inl\<close> here.
\<close>

definition encode_message ::
  "'j json_api \<Rightarrow> ProtocolPipeline \<Rightarrow> 'j DecodedBody \<Rightarrow> string + (bytes \<times> ProtocolPipeline)" where
  "encode_message J pl body =
     (if pp_envelope pl = None then Inr ([], pl\<lparr> pp_error := ''protocol envelope is not configured'' \<rparr>)
      else case resolve_outbound_route J (pp_routes pl) body of
        Inl e \<Rightarrow> Inl e
      | Inr None \<Rightarrow> Inr ([], pl\<lparr> pp_error := ''failed to resolve outbound route'' \<rparr>)
      | Inr (Some (body', route)) \<Rightarrow>
          (case codec_for_route pl route of
             None \<Rightarrow> Inr ([], pl\<lparr> pp_error := ''body codec is not registered'' \<rparr>)
           | Some codec \<Rightarrow>
               (case codec_encode J codec body' route of
                  Inl e \<Rightarrow> Inr ([], pl\<lparr> pp_error := ''body encode failed: '' @ e \<rparr>)
                | Inr body_bytes \<Rightarrow>
                    Inr (pipeline_encode pl
                      (new_Packet\<lparr> pk_route_id := re_route_id route, pk_kind := packet_kind_code (re_kind route),
                                  pk_body := body_bytes \<rparr>)))))"

definition materialize_decode ::
  "'j json_api \<Rightarrow> ProtocolPipeline \<Rightarrow> 'j DispatchResult \<Rightarrow> bool \<times> 'j DispatchResult" where
  "materialize_decode J pl result =
     (if \<not> result_ok result \<or> dr_action result \<noteq> DecodeLocal then (result_ok result, result)
      else if result_decoded result then (True, result)
      else case dr_route result of
        None \<Rightarrow> (False, result\<lparr> dr_error := ''decode_local dispatch is missing route metadata'' \<rparr>)
      | Some route \<Rightarrow>
          (case codec_for_route pl route of
             None \<Rightarrow> (False, result\<lparr> dr_error := ''body codec is not registered'' \<rparr>)
           | Some codec \<Rightarrow>
               (case codec_decode J codec (dr_packet result) route of
                  Inl e \<Rightarrow> (False, result\<lparr> dr_error := ''body decode failed: '' @ e \<rparr>)
                | Inr body \<Rightarrow> (True, result\<lparr> dr_decoded_body := Some body \<rparr>))))"

definition pipeline_reset :: "ProtocolPipeline \<Rightarrow> ProtocolPipeline" where
  "pipeline_reset pl = pl\<lparr> pp_error := [], pp_envelope := map_option envelope_reset (pp_envelope pl) \<rparr>"

definition default_codec_name :: "ProtocolPipeline \<Rightarrow> string" where
  "default_codec_name pl =
     (case registry_find (pp_codecs pl) (pf_default_codec_id (pp_profile pl)) of
        None \<Rightarrow> [] | Some codec \<Rightarrow> codec_name codec)"

subsection \<open>Routes of incoming packets\<close>

lemma resolve_route_packet:
  assumes "resolve_route J pl p = (p', route, err)"
  shows "pk_body p' = pk_body p" "pk_raw_frame p' = pk_raw_frame p" "pk_kind p' = pk_kind p"
  using assms by (auto simp: resolve_route_def split: if_splits option.splits)

lemma resolve_route_found:
  assumes "resolve_route J pl p = (p', Some route, err)" "route_table_inv (pp_routes pl)"
  shows "route_find (pp_routes pl) (pk_route_id p') = Some route" "err = []" "re_route_id route = pk_route_id p'"
proof -
  show find: "route_find (pp_routes pl) (pk_route_id p') = Some route" and "err = []"
    using assms by (auto simp: resolve_route_def route_find_by_name_inv split: if_splits option.splits)
  then show "re_route_id route = pk_route_id p'" using route_find_id [OF assms(2)] by blast
qed

lemma decode_result_keeps [simp]:
  "dr_packet (decode_result J pl r res) = dr_packet res" "dr_route (decode_result J pl r res) = dr_route res"
  "dr_action (decode_result J pl r res) = dr_action res"
  by (auto simp: decode_result_def split: option.splits sum.splits)

lemma decode_result_decoded:
  "dr_decoded_body res = None \<Longrightarrow> dr_error res = [] \<Longrightarrow>
   dr_decoded_body (decode_result J pl r res) = None \<or> dr_error (decode_result J pl r res) = []"
  by (auto simp: decode_result_def split: option.splits sum.splits)

lemma new_DispatchResult_simps [simp]:
  "dr_action new_DispatchResult = Drop" "dr_decoded_body new_DispatchResult = None"
  "dr_error new_DispatchResult = []" "dr_route new_DispatchResult = None"
  by (simp_all add: new_DispatchResult_def)

lemma materialize_decode_result:
  assumes "result_ok res" "dr_action res = DecodeLocal" "\<not> result_decoded res" "dr_route res = Some route"
  shows "snd (materialize_decode J pl res) = decode_result J pl route res"
  using assms by (auto simp: materialize_decode_def decode_result_def split: option.splits sum.splits)

lemma materialize_decode_ok: "fst (materialize_decode J pl res) = result_ok (snd (materialize_decode J pl res))"
  by (auto simp: materialize_decode_def result_ok_def split: option.splits sum.splits)

lemma materialize_decode_done:
  "\<not> result_ok res \<or> dr_action res \<noteq> DecodeLocal \<or> result_decoded res \<Longrightarrow>
   materialize_decode J pl res = (result_ok res, res)"
  by (auto simp: materialize_decode_def)

subsection \<open>Outgoing messages\<close>

lemma first_found_Some:
  "first_found xs = Inr (Some x) \<Longrightarrow> Inr (Some x) \<in> set xs"
  by (induction xs rule: first_found.induct) auto

definition outbound_ok :: "RouteTable \<Rightarrow> 'j DecodedBody \<Rightarrow> 'j DecodedBody \<times> RouteEntry \<Rightarrow> bool" where
  "outbound_ok routes body x \<longleftrightarrow> (case x of (body', route) \<Rightarrow>
     route_find routes (re_route_id route) = Some route \<and>
     db_route_id body' = re_route_id route \<and>
     db_message body' = db_message body \<and> db_bytes body' = db_bytes body)"

lemma name_if_empty_simps [simp]:
  "db_route_id (name_if_empty body n) = db_route_id body" "db_message (name_if_empty body n) = db_message body"
  "db_bytes (name_if_empty body n) = db_bytes body"
  "db_route_name (name_if_empty body n) = (if db_route_name body = [] then n else db_route_name body)"
  by (simp_all add: name_if_empty_def)

lemma outbound_by_id_ok:
  assumes "route_table_inv routes" "outbound_by_id J routes message field body = Inr (Some x)"
  shows "outbound_ok routes body x"
  using assms by (auto simp: outbound_by_id_def outbound_ok_def dest: route_find_id
      split: if_splits sum.splits option.splits)

lemma outbound_by_name_ok:
  assumes "route_table_inv routes" "outbound_by_name J routes message field body = Inr (Some x)"
  shows "outbound_ok routes body x"
  using assms by (auto simp: outbound_by_name_def outbound_ok_def route_find_by_name_inv
      split: if_splits sum.splits option.splits)

lemma outbound_by_message_ok:
  assumes "route_table_inv routes" "outbound_by_message J routes body = Inr (Some x)"
  shows "outbound_ok routes body x"
  using assms
  by (auto simp: outbound_by_message_def dest!: first_found_Some sym [of "Inr (Some x)"]
      intro: outbound_by_id_ok outbound_by_name_ok split: option.splits if_splits)

lemma route_only_found:
  assumes "route_table_inv routes" "route_only routes = Some route"
  shows "route_find routes (re_route_id route) = Some route"
proof -
  from assms(2) obtain k where k: "rt_routes routes = [(k, route)]"
    by (auto simp: route_only_def split: list.splits)
  then have "route_find routes k = Some route" by (simp add: route_find_def umap_find_def)
  with route_find_id [OF assms(1) this] show ?thesis by simp
qed

lemma resolve_outbound_ok:
  assumes "route_table_inv routes" "resolve_outbound_route J routes body = Inr (Some x)"
  shows "outbound_ok routes body x"
proof (cases "if db_route_id body \<noteq> 0 then route_find routes (db_route_id body) else None")
  case (Some route)
  then have r: "route_find routes (db_route_id body) = Some route" by (simp split: if_splits)
  have "x = (name_if_empty body (re_debug_name route), route)"
    using assms(2) by (simp only: resolve_outbound_route_def Some) simp
  then show ?thesis using r route_find_id [OF assms(1) r] by (simp add: outbound_ok_def)
next
  case no_id: None
  show ?thesis
  proof (cases "if db_route_name body \<noteq> [] then route_find_by_name routes (db_route_name body) else None")
    case (Some route)
    then have r: "route_find_by_name routes (db_route_name body) = Some route" by (simp split: if_splits)
    have "x = (body\<lparr> db_route_id := re_route_id route \<rparr>, route)"
      using assms(2) by (simp only: resolve_outbound_route_def no_id Some) simp
    then show ?thesis using r by (simp add: outbound_ok_def route_find_by_name_inv [OF assms(1)])
  next
    case None
    have x: "(case outbound_by_message J routes body of
        Inl e \<Rightarrow> Inl e
      | Inr (Some found) \<Rightarrow> Inr (Some found)
      | Inr None \<Rightarrow>
          if \<not> saw_route_hint J body
          then Inr (case route_only routes of
              None \<Rightarrow> None
            | Some route \<Rightarrow>
                Some (name_if_empty (body\<lparr> db_route_id := re_route_id route \<rparr>) (re_debug_name route), route))
          else Inr None) = Inr (Some x)"
      using assms(2) by (simp only: resolve_outbound_route_def no_id None option.case)
    show ?thesis
    proof (cases "outbound_by_message J routes body")
      case (Inr found)
      show ?thesis
      proof (cases found)
        case None
        with x Inr obtain route where "route_only routes = Some route"
          "x = (name_if_empty (body\<lparr> db_route_id := re_route_id route \<rparr>) (re_debug_name route), route)"
          by (cases "route_only routes") (auto split: if_splits)
        then show ?thesis using route_only_found [OF assms(1)] by (simp add: outbound_ok_def)
      next
        case (Some y)
        with x Inr have "outbound_by_message J routes body = Inr (Some x)" by simp
        then show ?thesis by (rule outbound_by_message_ok [OF assms(1)])
      qed
    qed (use x in simp)
  qed
qed

lemma pipeline_encode_outcome:
  "fst (pipeline_encode pl p) = [] \<longleftrightarrow> pp_error (snd (pipeline_encode pl p)) \<noteq> []"
proof (cases "pp_envelope pl")
  case (Some env)
  from envelope_encode_shape [of env p] obtain out env' where
    "envelope_encode env p = (out, env')" "has_error env' \<longleftrightarrow> out = []" by blast
  with Some show ?thesis by (auto simp: pipeline_encode_def has_error_def)
qed (simp add: pipeline_encode_def)

subsection \<open>End to end\<close>

text \<open>The packet \<open>encode_message\<close> hands to the envelope for a route and body bytes.\<close>

definition message_packet :: "RouteEntry \<Rightarrow> bytes \<Rightarrow> Packet" where
  "message_packet route b =
     new_Packet\<lparr> pk_route_id := re_route_id route, pk_kind := packet_kind_code (re_kind route), pk_body := b \<rparr>"

definition route_in_reach :: "ProtocolProfile \<Rightarrow> bool" where
  "route_in_reach profile \<longleftrightarrow>
     pf_envelope_kind profile = IdLen \<or> pf_envelope_kind profile = TypeLen \<or>
     pf_route_source profile = RS_Body \<and> pf_decode_body_route profile"

lemma envelope_packet_route:
  "pk_route_id (envelope_packet (k, c) (message_packet route b)) =
     (if (k = IdLen \<or> k = TypeLen) then re_route_id route else 0)"
  if "re_route_id route \<noteq> 0"
  using that by (cases k) (auto simp: message_packet_def typelen_type_id_def new_Packet_def)

lemma resolve_route_encoded:
  assumes "pp_routes pl = routes" "route_find routes (re_route_id route) = Some route" "re_route_id route \<noteq> 0"
    and "route_in_reach (pp_profile pl)"
    and "registry_find (pp_codecs pl) (pf_default_codec_id (pp_profile pl)) = Some codec"
    and "codec_route_key J codec p = Some \<lparr> bk_route_id = re_route_id route, bk_route_name = n \<rparr>"
    and "p = envelope_packet (pf_envelope_kind (pp_profile pl), c) (message_packet route b)"
  shows "resolve_route J pl p = (p\<lparr> pk_route_id := re_route_id route \<rparr>, Some route, [])"
proof -
  note id = envelope_packet_route [OF assms(3), of "pf_envelope_kind (pp_profile pl)" c b, folded assms(7)]
  show ?thesis
  proof (cases "pk_route_id p = 0")
    case True
    with id assms(3,4) have "pf_route_source (pp_profile pl) = RS_Body" "pf_decode_body_route (pp_profile pl)"
      by (auto simp: route_in_reach_def split: if_splits)
    with True assms(1,2,3,5,6) show ?thesis by (simp add: resolve_route_def route_key_empty_def)
  next
    case False
    with id have p: "pk_route_id p = re_route_id route" by (simp split: if_splits)
    then have "p\<lparr> pk_route_id := re_route_id route \<rparr> = p" by simp
    with False p assms(1,2) show ?thesis by (simp add: resolve_route_def)
  qed
qed

lemma dispatch_then_materialize:
  assumes "resolve_route J pl p = (p', Some route, [])" "rp_action (re_policy route) = DecodeLocal"
    and "codec_for_route pl route = Some codec" "codec_decode J codec p' route = Inr body"
  shows "materialize_decode J pl (dispatch_packet J pl p) =
    (True, \<lparr> dr_packet = p', dr_route = Some route, dr_action = DecodeLocal, dr_decoded_body = Some body, dr_error = [] \<rparr>)"
  using assms
  by (auto simp: dispatch_packet_def result_ok_def decode_result_def materialize_decode_def result_decoded_def
      new_DispatchResult_def Let_def)

lemma pipeline_feed_fresh:
  assumes "pl = new_ProtocolPipeline profile routes codecs"
    and "env = create_envelope (pf_envelope_kind profile) (pf_envelope profile)"
    and "envelope_ok (shape env)" "envelope_sendable (shape env) p"
  shows "pipeline_encode pl p = (envelope_bytes (shape env) p, pl)"
    and "pipeline_feed J pl (Some (envelope_bytes (shape env) p)) (length (envelope_bytes (shape env) p)) =
      Some ([dispatch_packet J pl (envelope_packet (shape env) p)], pl)"
proof -
  have fresh: "en_buffer env = []" "en_error env = []" using assms(2) fresh_envelope by auto
  have pl: "pp_envelope pl = Some env" "pp_error pl = []" by (simp_all add: assms(1,2) new_ProtocolPipeline_def)
  have "new_Envelope (en_kind env) (en_config env) = env"
    using fresh by (cases env) (simp add: new_Envelope_def)
  then have "\<not> has_error (snd (envelope_encode env p))"
    using assms(4) by (simp add: envelope_sendable_def)
  moreover have "snd (envelope_encode env p) = env"
    using calculation envelope_encode_state [of env p] fresh
    by (cases env; cases "snd (envelope_encode env p)") (auto simp: has_error_def)
  ultimately show "pipeline_encode pl p = (envelope_bytes (shape env) p, pl)"
    using pl envelope_encode_bytes [of env p] by (cases pl) (auto simp: pipeline_encode_def split_beta)
  show "pipeline_feed J pl (Some (envelope_bytes (shape env) p)) (length (envelope_bytes (shape env) p)) =
      Some ([dispatch_packet J pl (envelope_packet (shape env) p)], pl)"
    using envelope_feed_encoded [OF assms(3) fresh assms(4)] pl fresh
    by (cases pl) (simp add: pipeline_feed_def has_error_def)
qed

lemma message_roundtrip:
  assumes "json_laws J" "route_table_inv routes"
    and "pl = new_ProtocolPipeline profile routes codecs"
    and "env = create_envelope (pf_envelope_kind profile) (pf_envelope profile)"
    and "envelope_ok (shape env)"
    and "registry_find codecs (pf_default_codec_id profile) = Some JsonBodyCodec"
    and "route_in_reach profile"
    and "route_find routes (db_route_id body) = Some route" "db_route_id body \<noteq> 0"
    and "rp_action (re_policy route) = DecodeLocal"
    and "db_message body = Some m" "\<not> message_contains_route_hint J m"
    and "body' = name_if_empty body (re_debug_name route)"
    and "json_stable J (wrapped J body' route m)"
    and "js_dump J (wrapped J body' route m) = Inr b"
    and "envelope_sendable (shape env) (message_packet route b)"
  shows "\<exists>out res decoded.
    encode_message J pl body = Inr (out, pl) \<and>
    pipeline_feed J pl (Some out) (length out) = Some ([res], pl) \<and>
    dr_route res = Some route \<and> dr_error res = [] \<and> dr_action res = DecodeLocal \<and> out \<noteq> [] \<and>
    materialize_decode J pl res = (True, decoded) \<and>
    map_option db_message (dr_decoded_body decoded) = Some (Some m)"
proof -
  have id: "re_route_id route = db_route_id body" using assms(2,8) by (rule route_find_id)
  have pl: "pp_routes pl = routes" "pp_codecs pl = codecs" "pp_profile pl = profile" "pp_envelope pl = Some env"
    by (simp_all add: assms(3,4) new_ProtocolPipeline_def)
  have msg: "db_message body' = Some m" by (simp add: assms(13) assms(11))
  have parse: "js_parse J b = Inr (wrapped J body' route m)" using assms(14,15) by (auto simp: json_stable_def)
  let ?p = "envelope_packet (shape env) (message_packet route b)"
  have kind: "en_kind env = pf_envelope_kind profile" by (simp add: assms(4) fresh_envelope)
  have body_b: "pk_body (message_packet route b) = b" by (simp add: message_packet_def)
  have "resolve_outbound_route J routes body = Inr (Some (body', route))"
    using assms(8,9,13) by (simp add: resolve_outbound_route_def)
  then have enc: "encode_message J pl body = Inr (envelope_bytes (shape env) (message_packet route b), pl)"
    using pipeline_feed_fresh(1) [OF assms(3,4,5,16)] assms(6,15)
    by (simp add: encode_message_def pl codec_for_route_def codec_encode_def json_encode_wrapped [OF msg assms(12)]
        message_packet_def)
  have "codec_route_key J JsonBodyCodec ?p =
      Some \<lparr> bk_route_id = re_route_id route, bk_route_name = sent_route_name body' route \<rparr>"
    using parse id assms(9) by (simp add: codec_route_key_def body_b structured_route_key_wrapped [OF assms(1)])
  then have res: "resolve_route J pl ?p = (?p\<lparr> pk_route_id := re_route_id route \<rparr>, Some route, [])"
    using assms(6,7,8,9) id pl kind by (intro resolve_route_encoded) auto
  have dec: "codec_decode J JsonBodyCodec (?p\<lparr> pk_route_id := re_route_id route \<rparr>) route = Inr
      \<lparr> db_route_id = re_route_id route, db_codec_id = re_codec_id route, db_schema_id = re_schema_id route,
        db_route_name = sent_route_name body' route, db_bytes = b, db_message = Some m \<rparr>"
    using parse id assms(9) wrapped_payload [OF assms(1), of body' route m]
    by (simp add: codec_decode_def json_decode_def decode_structured_body_def body_b
        structured_route_key_wrapped [OF assms(1)])
  have "codec_for_route pl route = Some JsonBodyCodec" using assms(6) by (simp add: codec_for_route_def pl)
  note mat = dispatch_then_materialize [OF res assms(10) this dec]
  have out: "envelope_bytes (shape env) (message_packet route b) \<noteq> []"
    using pipeline_encode_outcome [of pl "message_packet route b"] pipeline_feed_fresh(1) [OF assms(3,4,5,16)]
    by (simp add: assms(3) new_ProtocolPipeline_def)
  have "dr_route (dispatch_packet J pl ?p) = Some route \<and> dr_error (dispatch_packet J pl ?p) = [] \<and>
      dr_action (dispatch_packet J pl ?p) = DecodeLocal"
    using res dec assms(10) \<open>codec_for_route pl route = _\<close>
    by (auto simp: dispatch_packet_def result_ok_def decode_result_def Let_def)
  with enc pipeline_feed_fresh(2) [OF assms(3,4,5,16)] mat out show ?thesis by force
qed

text \<open>
  What the end-to-end properties ask for: a business message without routing fields, addressed to a
  known \<open>decode_local\<close> route, that the JSON library and the envelope can carry.
\<close>

definition deliverable ::
  "'j json_api \<Rightarrow> ProtocolProfile \<Rightarrow> RouteTable \<Rightarrow> BodyCodecRegistry \<Rightarrow> 'j DecodedBody \<Rightarrow> RouteEntry \<Rightarrow> 'j \<Rightarrow> bytes \<Rightarrow> bool" where
  "deliverable J profile routes codecs body route m b \<longleftrightarrow>
     (let env = create_envelope (pf_envelope_kind profile) (pf_envelope profile);
          w = wrapped J (name_if_empty body (re_debug_name route)) route m in
      json_laws J \<and> route_table_inv routes \<and> envelope_ok (shape env) \<and>
      registry_find codecs (pf_default_codec_id profile) = Some JsonBodyCodec \<and> route_in_reach profile \<and>
      route_find routes (db_route_id body) = Some route \<and> db_route_id body \<noteq> 0 \<and>
      rp_action (re_policy route) = DecodeLocal \<and>
      db_message body = Some m \<and> \<not> message_contains_route_hint J m \<and>
      json_stable J w \<and> js_dump J w = Inr b \<and> envelope_sendable (shape env) (message_packet route b))"

lemma deliverable_roundtrip:
  assumes "deliverable J profile routes codecs body route m b" "pl = new_ProtocolPipeline profile routes codecs"
  shows "\<exists>out res decoded.
    encode_message J pl body = Inr (out, pl) \<and>
    pipeline_feed J pl (Some out) (length out) = Some ([res], pl) \<and>
    dr_route res = Some route \<and> dr_error res = [] \<and> dr_action res = DecodeLocal \<and> out \<noteq> [] \<and>
    materialize_decode J pl res = (True, decoded) \<and>
    map_option db_message (dr_decoded_body decoded) = Some (Some m)"
  using assms(1) unfolding deliverable_def Let_def by (elim conjE, intro message_roundtrip [OF _ _ assms(2) refl _ _ _ _ _ _ _ _ refl])

subsection \<open>A small configuration\<close>

text \<open>One JSON pipeline with a single route, used to apply the properties below.\<close>

definition sample_route :: RouteEntry where
  "sample_route = new_RouteEntry\<lparr> re_route_id := 7, re_debug_name := ''login'' \<rparr>"

definition sample_routes :: RouteTable where
  "sample_routes = fst (route_add sample_route empty_RouteTable)"

definition sample_codecs :: BodyCodecRegistry where
  "sample_codecs = fst (registry_add 1 (Some JsonBodyCodec) empty_BodyCodecRegistry)"

definition sample_profile :: ProtocolProfile where
  "sample_profile = new_ProtocolProfile\<lparr> pf_default_codec_id := 1 \<rparr>"

definition sample_body :: "sample DecodedBody" where
  "sample_body = new_DecodedBody\<lparr> db_route_id := 7, db_message := Some (SStr ''hi'') \<rparr>"

definition sample_J :: "sample json_api" where
  "sample_J = sample_api
     [(SObj [(''route'', SStr ''login''), (''route_id'', SNum 7), (''payload'', SStr ''hi'')], [123, 125]),
      (SObj [(''route_id'', SNum 4294967303)], [123, 58, 125])]"

lemma sample_routes_inv: "route_table_inv sample_routes"
  unfolding sample_routes_def by (rule route_add_inv) simp

lemma sample_routes_find: "route_find sample_routes i = (if i = 7 then Some sample_route else None)"
  by (simp add: sample_routes_def sample_route_def route_add_def Let_def split_beta route_find_def
      empty_RouteTable_def new_RouteEntry_def umap_emplace_def umap_find_def)

lemma sample_codecs_find: "registry_find sample_codecs 1 = Some JsonBodyCodec"
  by (simp add: sample_codecs_def registry_add_def Let_def registry_find_def empty_BodyCodecRegistry_def
      codec_name_def)

lemma sample_wrapped:
  "wrapped sample_J (name_if_empty sample_body (re_debug_name sample_route)) sample_route (SStr ''hi'') =
     SObj [(''route'', SStr ''login''), (''route_id'', SNum 7), (''payload'', SStr ''hi'')]"
  by (simp add: wrapped_def route_fields_def Let_def sample_J_def sample_api_def sample_body_def sample_route_def
      new_DecodedBody_def new_RouteEntry_def name_if_empty_def)

lemma sample_laws: "json_laws sample_J"
  by (simp add: sample_J_def json_laws_sample)

lemma sample_env:
  "create_envelope (pf_envelope_kind sample_profile) (pf_envelope sample_profile) =
     new_Envelope LenPrefix (new_EnvelopeConfig\<lparr> ec_length_bytes := 4 \<rparr>)"
  by (simp add: create_envelope_def sample_profile_def new_ProtocolProfile_def new_LenPrefixEnvelope_def
      new_EnvelopeConfig_def)

lemma sample_sendable:
  "envelope_sendable (LenPrefix, new_EnvelopeConfig\<lparr> ec_length_bytes := 4 \<rparr>) (message_packet sample_route [123, 125])"
  by (simp add: envelope_sendable_def envelope_encode_def lenprefix_encode_def Let_def message_packet_def
      new_EnvelopeConfig_def valid_integer_width_def fits_width_def SIZE_MAX_def)

lemma sample_deliverable:
  "deliverable sample_J sample_profile sample_routes sample_codecs sample_body sample_route (SStr ''hi'') [123, 125]"
  unfolding deliverable_def Let_def
proof (intro conjI)
  show "json_laws sample_J" by (rule sample_laws)
  show "route_table_inv sample_routes" by (rule sample_routes_inv)
  show "envelope_ok (shape (create_envelope (pf_envelope_kind sample_profile) (pf_envelope sample_profile)))"
    by (simp add: sample_env valid_integer_width_def)
  show "registry_find sample_codecs (pf_default_codec_id sample_profile) = Some JsonBodyCodec"
    by (simp add: sample_profile_def sample_codecs_find)
  show "route_in_reach sample_profile"
    by (simp add: route_in_reach_def sample_profile_def new_ProtocolProfile_def)
  show "route_find sample_routes (db_route_id sample_body) = Some sample_route" "db_route_id sample_body \<noteq> 0"
    "db_message sample_body = Some (SStr ''hi'')"
    by (simp_all add: sample_body_def sample_routes_find)
  show "rp_action (re_policy sample_route) = DecodeLocal"
    by (simp add: sample_route_def new_RouteEntry_def)
  show "\<not> message_contains_route_hint sample_J (SStr ''hi'')"
    by (simp add: message_contains_route_hint_def sample_J_def sample_api_def)
  show "js_dump sample_J (wrapped sample_J (name_if_empty sample_body (re_debug_name sample_route)) sample_route
      (SStr ''hi'')) = Inr [123, 125]"
    unfolding sample_wrapped by (simp add: sample_J_def sample_api_def)
  show "json_stable sample_J (wrapped sample_J (name_if_empty sample_body (re_debug_name sample_route)) sample_route
      (SStr ''hi''))"
    unfolding sample_wrapped by (simp add: json_stable_def sample_J_def sample_api_def)
  show "envelope_sendable (shape (create_envelope (pf_envelope_kind sample_profile) (pf_envelope sample_profile)))
      (message_packet sample_route [123, 125])"
    using sample_sendable by (simp add: sample_env)
qed

subsection \<open>Properties\<close>

text \<open>
  C1. End to end with the JSON codec, for every envelope kind: a sendable business message without
  routing fields (the JSON library gives it back and it fits the envelope; a delimiter envelope needs it free
  of the delimiter), addressed to a known \<open>decode_local\<close> route that the receiver can see in the envelope or
  the body, is encoded by one pipeline and comes out of the feed of an equally configured pipeline as one result on that route, whose (eager or lazy) decode
  gives the same message; the pipeline is left as it was.
\<close>

theorem pipeline_roundtrip:
  assumes "json_laws J" "route_table_inv routes"
    and "pl = new_ProtocolPipeline profile routes codecs"
    and "env = create_envelope (pf_envelope_kind profile) (pf_envelope profile)"
    and "envelope_ok (shape env)"
    and "registry_find codecs (pf_default_codec_id profile) = Some JsonBodyCodec"
    and "route_in_reach profile"
    and "route_find routes (db_route_id body) = Some route" "db_route_id body \<noteq> 0"
    and "rp_action (re_policy route) = DecodeLocal"
    and "db_message body = Some m" "\<not> message_contains_route_hint J m"
    and "body' = name_if_empty body (re_debug_name route)"
    and "json_stable J (wrapped J body' route m)"
    and "js_dump J (wrapped J body' route m) = Inr b"
    and "envelope_sendable (shape env) (message_packet route b)"
  shows "\<exists>out res decoded.
    encode_message J pl body = Inr (out, pl) \<and>
    pipeline_feed J pl (Some out) (length out) = Some ([res], pl) \<and>
    dr_route res = Some route \<and> dr_error res = [] \<and>
    materialize_decode J pl res = (True, decoded) \<and>
    map_option db_message (dr_decoded_body decoded) = Some (Some m)"
  using message_roundtrip [OF assms] by blast

theorem pipeline_roundtrip_witness:
  "\<exists>out res decoded. let pl = new_ProtocolPipeline sample_profile sample_routes sample_codecs in
    encode_message sample_J pl sample_body = Inr (out, pl) \<and>
    pipeline_feed sample_J pl (Some out) (length out) = Some ([res], pl) \<and>
    dr_route res = Some sample_route \<and> dr_error res = [] \<and>
    materialize_decode sample_J pl res = (True, decoded) \<and>
    map_option db_message (dr_decoded_body decoded) = Some (Some (SStr ''hi''))"
proof -
  show ?thesis using sample_deliverable unfolding deliverable_def Let_def
    by (elim conjE, intro pipeline_roundtrip [OF _ _ refl refl _ _ _ _ _ _ _ _ refl])
qed

text \<open>
  C4. The dispatch of a packet is sound: it keeps the body and the raw frame; a route it reports is
  the one the routing table has for the packet's route id and, unless the result is an error, its
  policy is the action; without a route the action is the profile's, and a body is decoded only for
  \<open>decode_local\<close> on a known route and without an error.
\<close>

theorem dispatch_sound:
  assumes "route_table_inv (pp_routes pl)" "r = dispatch_packet J pl p"
  shows "pk_body (dr_packet r) = pk_body p \<and> pk_raw_frame (dr_packet r) = pk_raw_frame p \<and>
    (case dr_route r of
       Some route \<Rightarrow> route_find (pp_routes pl) (pk_route_id (dr_packet r)) = Some route \<and>
         dr_action r = rp_action (re_policy route)
     | None \<Rightarrow> dr_decoded_body r = None \<and>
         (dr_error r = [] \<longrightarrow> dr_action r = pf_unknown_route_action (pp_profile pl)) \<and>
         (dr_error r \<noteq> [] \<longrightarrow> dr_action r = Drop)) \<and>
    (result_decoded r \<longrightarrow> dr_action r = DecodeLocal \<and> dr_error r = [])"
proof -
  obtain p' route err where res: "resolve_route J pl p = (p', route, err)" by (metis prod_cases3)
  note keeps = resolve_route_packet [OF res]
  show ?thesis
  proof (cases route)
    case None
    with res keeps assms(2) show ?thesis
      by (auto simp: dispatch_packet_def result_ok_def result_decoded_def Let_def)
  next
    case (Some r0)
    note found = resolve_route_found [OF res [unfolded Some] assms(1)]
    let ?res = "new_DispatchResult\<lparr> dr_packet := p', dr_route := Some r0, dr_error := [],
                  dr_action := rp_action (re_policy r0) \<rparr>"
    have r: "r = (if dr_action ?res \<noteq> DecodeLocal \<or> \<not> pf_decode_before_dispatch (pp_profile pl) \<and> rp_lazy_decode (re_policy r0)
        then ?res else decode_result J pl r0 ?res)"
      using res Some found(2) assms(2)
      by (cases "rp_action (re_policy r0)") (auto simp: dispatch_packet_def result_ok_def Let_def)
    then consider "r = ?res" | "r = decode_result J pl r0 ?res" "rp_action (re_policy r0) = DecodeLocal"
      by (cases "dr_action ?res \<noteq> DecodeLocal \<or> \<not> pf_decode_before_dispatch (pp_profile pl) \<and> rp_lazy_decode (re_policy r0)")
        auto
    then show ?thesis
      by cases (use keeps found(1) decode_result_decoded [of ?res J pl r0] in \<open>auto simp: result_decoded_def\<close>)
  qed
qed

theorem dispatch_sound_witness:
  "dr_route (dispatch_packet sample_J (new_ProtocolPipeline sample_profile sample_routes sample_codecs)
     (new_Packet\<lparr> pk_route_id := 9, pk_body := [1] \<rparr>)) = None \<and>
   dr_action (dispatch_packet sample_J (new_ProtocolPipeline sample_profile sample_routes sample_codecs)
     (new_Packet\<lparr> pk_route_id := 9, pk_body := [1] \<rparr>)) = Drop"
proof -
  let ?pl = "new_ProtocolPipeline sample_profile sample_routes sample_codecs"
  let ?p = "new_Packet\<lparr> pk_route_id := 9, pk_body := [1] \<rparr>"
  have key: "codec_route_key sample_J JsonBodyCodec ?p = None"
    by (simp add: codec_route_key_def sample_J_def sample_api_def)
  have "resolve_route sample_J ?pl ?p = (?p, None, [])"
    using key by (simp add: resolve_route_def new_ProtocolPipeline_def sample_routes_find sample_profile_def
        new_ProtocolProfile_def sample_codecs_find)
  then have r: "dr_route (dispatch_packet sample_J ?pl ?p) = None" "dr_error (dispatch_packet sample_J ?pl ?p) = []"
    by (simp_all add: dispatch_packet_def result_ok_def Let_def)
  have inv: "route_table_inv (pp_routes ?pl)" by (simp add: new_ProtocolPipeline_def sample_routes_inv)
  from dispatch_sound [OF inv refl, of sample_J ?p] r show ?thesis
    by (simp add: new_ProtocolPipeline_def sample_profile_def new_ProtocolProfile_def)
qed

definition decode_without_route :: "'j DispatchResult \<Rightarrow> bool" where
  "decode_without_route r \<longleftrightarrow> result_ok r \<and> dr_route r = None \<and> dr_action r = DecodeLocal"

lemma eager_alike:
  assumes "eager = pl\<lparr> pp_profile := (pp_profile pl)\<lparr> pf_decode_before_dispatch := True \<rparr> \<rparr>"
  shows "resolve_route J eager p = resolve_route J pl p" "decode_result J eager = decode_result J pl"
proof -
  have same: "pp_routes eager = pp_routes pl" "pp_codecs eager = pp_codecs pl"
    "pf_default_codec_id (pp_profile eager) = pf_default_codec_id (pp_profile pl)"
    "pf_route_source (pp_profile eager) = pf_route_source (pp_profile pl)"
    "pf_decode_body_route (pp_profile eager) = pf_decode_body_route (pp_profile pl)"
    by (simp_all add: assms)
  show "resolve_route J eager p = resolve_route J pl p" by (simp only: resolve_route_def same)
  show "decode_result J eager = decode_result J pl"
    by (intro ext) (simp only: decode_result_def codec_for_route_def same)
qed

lemma dispatch_without_route:
  assumes "decode_without_route (dispatch_packet J eager p)"
    and "eager = pl\<lparr> pp_profile := (pp_profile pl)\<lparr> pf_decode_before_dispatch := True \<rparr> \<rparr>"
  shows "dispatch_packet J pl p = dispatch_packet J eager p" "\<not> result_decoded (dispatch_packet J eager p)"
proof -
  obtain p' route err where res: "resolve_route J pl p = (p', route, err)" by (metis prod_cases3)
  then have res': "resolve_route J eager p = (p', route, err)" by (simp add: eager_alike(1) [OF assms(2)])
  have "err = []" using assms(1) res'
    by (auto simp: dispatch_packet_def decode_without_route_def result_ok_def Let_def split: if_splits)
  moreover have "route = None"
    using assms(1) res' by (auto simp: dispatch_packet_def decode_without_route_def decode_result_def result_ok_def Let_def
      split: if_splits option.splits sum.splits)
  ultimately show "dispatch_packet J pl p = dispatch_packet J eager p" "\<not> result_decoded (dispatch_packet J eager p)"
    using res res' by (simp_all add: dispatch_packet_def result_ok_def result_decoded_def new_DispatchResult_def assms(2))
qed

lemma lazy_decode_agrees:
  assumes "\<not> decode_without_route (dispatch_packet J eager p)"
    and "eager = pl\<lparr> pp_profile := (pp_profile pl)\<lparr> pf_decode_before_dispatch := True \<rparr> \<rparr>"
  shows "materialize_decode J pl (dispatch_packet J pl p) =
    (result_ok (dispatch_packet J eager p), dispatch_packet J eager p)"
proof -
  obtain p' route err where res: "resolve_route J pl p = (p', route, err)" by (metis prod_cases3)
  then have res': "resolve_route J eager p = (p', route, err)" by (simp add: eager_alike(1) [OF assms(2)])
  note dec = eager_alike(2) [OF assms(2)]
  show ?thesis
  proof (cases "err = []")
    case False
    with res res' show ?thesis by (simp add: dispatch_packet_def materialize_decode_def result_ok_def)
  next
    case True
    show ?thesis
    proof (cases route)
      case None
      with True res res' assms show ?thesis
        by (simp add: dispatch_packet_def materialize_decode_def decode_without_route_def result_ok_def)
    next
      case (Some r0)
      let ?res = "new_DispatchResult\<lparr> dr_packet := p', dr_route := Some r0, dr_error := [],
                    dr_action := rp_action (re_policy r0) \<rparr>"
      show ?thesis
      proof (cases "rp_action (re_policy r0) = DecodeLocal")
        case False
        with True Some res res' show ?thesis
          by (cases "rp_action (re_policy r0)") (simp_all add: dispatch_packet_def materialize_decode_def result_ok_def Let_def)
      next
        case local: True
        have e: "dispatch_packet J eager p = decode_result J pl r0 ?res"
        proof -
          have "pf_decode_before_dispatch (pp_profile eager)" by (simp add: assms(2))
          with True Some res' local show ?thesis by (simp add: dispatch_packet_def result_ok_def Let_def dec)
        qed
        have m: "materialize_decode J pl ?res = (result_ok (decode_result J pl r0 ?res), decode_result J pl r0 ?res)"
          using local materialize_decode_result [of ?res r0 J pl] materialize_decode_ok [of J pl ?res]
          by (simp add: result_ok_def result_decoded_def prod_eq_iff)
        consider "dispatch_packet J pl p = ?res" | "dispatch_packet J pl p = decode_result J pl r0 ?res"
          using True Some res local
          by (cases "pf_decode_before_dispatch (pp_profile pl) \<or> \<not> rp_lazy_decode (re_policy r0)")
            (auto simp: dispatch_packet_def result_ok_def Let_def)
        then show ?thesis
        proof cases
          case 1
          then show ?thesis using m e by simp
        next
          case 2
          have "\<not> result_ok (decode_result J pl r0 ?res) \<or> result_decoded (decode_result J pl r0 ?res)"
            by (auto simp: decode_result_def result_ok_def result_decoded_def split: option.splits sum.splits)
          then have "materialize_decode J pl (decode_result J pl r0 ?res) =
              (result_ok (decode_result J pl r0 ?res), decode_result J pl r0 ?res)"
            by (intro materialize_decode_done) blast
          with 2 e show ?thesis by simp
        qed
      qed
    qed
  qed
qed

text \<open>
  C12. Lazy decoding is eager decoding postponed, one case apart. Materializing the result of a pipeline
  that decodes on demand gives exactly the result of the same pipeline with
  \<open>decode_before_dispatch\<close>, errors included, unless the packet has no route and the profile declares
  such packets \<open>decode_local\<close>: the eager pipeline reports that packet without an error and undecoded,
  and materializing it fails for the missing route.
\<close>

theorem lazy_decode_equals_eager:
  assumes "eager = pl\<lparr> pp_profile := (pp_profile pl)\<lparr> pf_decode_before_dispatch := True \<rparr> \<rparr>"
    and "e = dispatch_packet J eager p"
  shows "materialize_decode J pl (dispatch_packet J pl p) =
    (if result_ok e \<and> dr_route e = None \<and> dr_action e = DecodeLocal
     then (False, e\<lparr> dr_error := ''decode_local dispatch is missing route metadata'' \<rparr>)
     else (result_ok e, e))"
proof (cases "decode_without_route e")
  case True
  with dispatch_without_route [of J eager p pl] assms show ?thesis
    by (simp add: materialize_decode_def decode_without_route_def)
next
  case False
  with lazy_decode_agrees [of J eager p pl] assms show ?thesis by (auto simp: decode_without_route_def)
qed

theorem lazy_decode_equals_eager_witness:
  "let pl = new_ProtocolPipeline sample_profile sample_routes sample_codecs;
       eager = pl\<lparr> pp_profile := sample_profile\<lparr> pf_decode_before_dispatch := True \<rparr> \<rparr>;
       p = new_Packet\<lparr> pk_route_id := 7, pk_body := [123, 125] \<rparr>
   in dr_route (dispatch_packet sample_J eager p) = Some sample_route \<and>
      materialize_decode sample_J pl (dispatch_packet sample_J pl p) =
        (result_ok (dispatch_packet sample_J eager p), dispatch_packet sample_J eager p)"
proof -
  let ?pl = "new_ProtocolPipeline sample_profile sample_routes sample_codecs"
  let ?eager = "?pl\<lparr> pp_profile := (pp_profile ?pl)\<lparr> pf_decode_before_dispatch := True \<rparr> \<rparr>"
  let ?p = "new_Packet\<lparr> pk_route_id := 7, pk_body := [123, 125] \<rparr>"
  have pf: "pp_profile ?pl = sample_profile" by (simp add: new_ProtocolPipeline_def)
  have "dr_route (dispatch_packet sample_J ?eager ?p) = Some sample_route"
    by (simp add: dispatch_packet_def decode_result_def resolve_route_def new_ProtocolPipeline_def sample_profile_def new_ProtocolProfile_def
        new_Packet_def result_ok_def sample_routes_find Let_def split: option.split sum.split)
  with lazy_decode_equals_eager [of ?eager ?pl _ sample_J ?p, OF refl refl] show ?thesis
    unfolding Let_def pf by simp
qed

text \<open>
  Materializing twice is materializing once, and the returned flag says exactly whether the
  result is free of errors.
\<close>

theorem materialize_decode_idempotent:
  "materialize_decode J pl (snd (materialize_decode J pl r)) = materialize_decode J pl r \<and>
   fst (materialize_decode J pl r) = result_ok (snd (materialize_decode J pl r))"
  by (auto simp: materialize_decode_def result_ok_def result_decoded_def split: option.splits sum.splits)

text \<open>
  A message is sent only to a route of the table, and it is labelled with it: whenever
  \<open>resolve_outbound_route\<close> finds a route, the table has it under its id, the body carries that id,
  and the business message and the raw bytes are untouched.
\<close>

theorem outbound_route_consistent:
  assumes "route_table_inv routes" "resolve_outbound_route J routes body = Inr (Some (body', route))"
  shows "route_find routes (re_route_id route) = Some route \<and> db_route_id body' = re_route_id route \<and>
    db_message body' = db_message body \<and> db_bytes body' = db_bytes body"
  using resolve_outbound_ok [OF assms] by (simp add: outbound_ok_def)

theorem outbound_route_consistent_witness:
  "\<exists>body'. resolve_outbound_route sample_J sample_routes sample_body = Inr (Some (body', sample_route)) \<and>
     db_route_id body' = 7 \<and> db_message body' = Some (SStr ''hi'')"
proof -
  have r: "resolve_outbound_route sample_J sample_routes sample_body =
      Inr (Some (name_if_empty sample_body (re_debug_name sample_route), sample_route))"
    by (simp add: resolve_outbound_route_def sample_body_def sample_routes_find)
  from outbound_route_consistent [OF sample_routes_inv r] r show ?thesis
    by (auto simp: sample_body_def sample_route_def new_RouteEntry_def)
qed

text \<open>
  C32. The caller of \<open>encode_message\<close> can rely on the empty answer: when the call returns, it returns
  no bytes exactly when the pipeline's error is set, and it never changes the configuration or the
  bytes the envelope holds.
\<close>

theorem encode_message_outcome:
  assumes "encode_message J pl body = Inr (out, pl')"
  shows "(out = [] \<longleftrightarrow> pp_error pl' \<noteq> []) \<and> pp_profile pl' = pp_profile pl \<and> pp_routes pl' = pp_routes pl \<and>
    pp_codecs pl' = pp_codecs pl \<and>
    map_option en_buffer (pp_envelope pl') = map_option en_buffer (pp_envelope pl)"
proof -
  have keeps: "pp_profile (snd (pipeline_encode pl p)) = pp_profile pl \<and>
      pp_routes (snd (pipeline_encode pl p)) = pp_routes pl \<and> pp_codecs (snd (pipeline_encode pl p)) = pp_codecs pl \<and>
      map_option en_buffer (pp_envelope (snd (pipeline_encode pl p))) = map_option en_buffer (pp_envelope pl)" for p
    using envelope_encode_state(1) by (auto simp: pipeline_encode_def split_beta split: option.splits)
  consider (err) e where "(out, pl') = ([], pl\<lparr> pp_error := e \<rparr>)" "e \<noteq> []"
    | (sent) p where "pipeline_encode pl p = (out, pl')"
    using assms by (force simp: encode_message_def split: if_splits sum.splits option.splits prod.splits)
  then show ?thesis
  proof cases
    case err
    then show ?thesis by simp
  next
    case sent
    with pipeline_encode_outcome [of pl p] keeps [of p] show ?thesis by simp
  qed
qed

theorem encode_message_outcome_witness:
  "\<exists>pl'. encode_message sample_J (new_ProtocolPipeline sample_profile sample_routes sample_codecs)
       (sample_body\<lparr> db_route_id := 9 \<rparr>) = Inr ([], pl') \<and> pp_error pl' \<noteq> []"
proof -
  let ?pl = "new_ProtocolPipeline sample_profile sample_routes sample_codecs"
  have "resolve_outbound_route sample_J sample_routes (sample_body\<lparr> db_route_id := 9 \<rparr>) = Inr None"
    by (simp add: resolve_outbound_route_def sample_body_def sample_routes_find new_DecodedBody_def
        outbound_by_message_def saw_route_hint_def sample_J_def sample_api_def)
  then have e: "encode_message sample_J ?pl (sample_body\<lparr> db_route_id := 9 \<rparr>) =
      Inr ([], ?pl\<lparr> pp_error := ''failed to resolve outbound route'' \<rparr>)"
    by (simp add: encode_message_def new_ProtocolPipeline_def)
  from encode_message_outcome [OF e] e show ?thesis by blast
qed

text \<open>
  A feed always returns.  With an envelope error it returns one error result and nothing else;
  otherwise it returns exactly one result per packet of the envelope, in order, and the
  configuration is unchanged.
\<close>

theorem pipeline_feed_results:
  "\<exists>results pl'. pipeline_feed J pl data n = Some (results, pl') \<and>
     pp_profile pl' = pp_profile pl \<and> pp_routes pl' = pp_routes pl \<and> pp_codecs pl' = pp_codecs pl \<and>
     (if pp_error pl' \<noteq> [] then map dr_error results = [pp_error pl']
      else \<exists>env env' packets. pp_envelope pl = Some env \<and> envelope_feed env data n = Some (packets, env') \<and>
        pp_envelope pl' = Some env' \<and> results = map (dispatch_packet J pl) packets)"
proof (cases "pp_envelope pl")
  case None
  then show ?thesis by (auto simp: pipeline_feed_def Let_def)
next
  case (Some env)
  from envelope_feed_total [of env data n] obtain ps env' where "envelope_feed env data n = Some (ps, env')"
    by blast
  with Some show ?thesis by (auto simp: pipeline_feed_def has_error_def)
qed

text \<open>
  A JSON body whose \<open>route_id\<close> does not fit 32 bits is routed by the low 32 bits of the number:
  the unsigned number is converted to \<open>uint32_t\<close> without a range check, so the packet is
  dispatched on an unrelated route.
\<close>

theorem json_route_id_truncated:
  assumes "pf_route_source (pp_profile pl) = RS_Body" "pf_decode_body_route (pp_profile pl)"
    and "registry_find (pp_codecs pl) (pf_default_codec_id (pp_profile pl)) = Some JsonBodyCodec"
    and "js_parse J (pk_body p) = Inr v" "js_is_object J v" "js_contains J v ''route_id''"
    and "js_is_number_unsigned J (js_at J v ''route_id'')"
    and "js_get_u32 J (js_at J v ''route_id'') = Inr (ucast (k :: u64))" "(ucast k :: u32) \<noteq> 0"
    and "\<not> js_contains J v ''route''" "\<not> js_contains J v ''method''" "pk_route_id p = 0"
  shows "resolve_route J pl p =
    (p\<lparr> pk_route_id := of_nat (unat k mod 2 ^ 32) \<rparr>, route_find (pp_routes pl) (of_nat (unat k mod 2 ^ 32)), [])"
proof -
  have k: "(of_nat (unat k mod 2 ^ 32) :: u32) = ucast k"
    by (simp add: word_unat_eq_iff unsigned_of_nat unsigned_ucast_eq take_bit_eq_mod)
  have "structured_route_key J v = Inr (Some \<lparr> bk_route_id = ucast k, bk_route_name = [] \<rparr>)"
    using assms by (simp add: structured_route_key_def route_key_empty_def Let_def)
  then have "codec_route_key J JsonBodyCodec p = Some \<lparr> bk_route_id = ucast k, bk_route_name = [] \<rparr>"
    using assms(4) by (simp add: codec_route_key_def)
  with assms k show ?thesis by (simp add: resolve_route_def route_key_empty_def)
qed

theorem json_route_id_truncated_witness:
  "resolve_route sample_J (new_ProtocolPipeline sample_profile sample_routes sample_codecs)
     (new_Packet\<lparr> pk_body := [123, 58, 125] \<rparr>) =
   (new_Packet\<lparr> pk_route_id := 7, pk_body := [123, 58, 125] \<rparr>, Some sample_route, [])"
proof -
  let ?pl = "new_ProtocolPipeline sample_profile sample_routes sample_codecs"
  let ?v = "SObj [(''route_id'', SNum 4294967303)]"
  have "resolve_route sample_J ?pl (new_Packet\<lparr> pk_body := [123, 58, 125] \<rparr>) =
    (new_Packet\<lparr> pk_body := [123, 58, 125], pk_route_id := of_nat (unat (4294967303 :: u64) mod 2 ^ 32) \<rparr>,
     route_find (pp_routes ?pl) (of_nat (unat (4294967303 :: u64) mod 2 ^ 32)), [])"
    by (rule json_route_id_truncated [where v = ?v])
      (simp_all add: new_ProtocolPipeline_def sample_profile_def new_ProtocolProfile_def sample_codecs_find
        sample_J_def sample_api_def new_Packet_def)
  then show ?thesis
    by (simp add: new_ProtocolPipeline_def sample_routes_find new_Packet_def)
qed

end
