(* ===== verification/Xmldef.thy ===== *)
theory Xmldef
  imports Route_Table
begin

section \<open>Route catalogs\<close>

text \<open>
  The text helpers (\<open>trim_copy\<close>, \<open>parse_u32\<close>, \<open>parse_u16\<close>, \<open>parse_bool\<close>, \<open>parse_action\<close>,
  \<open>parse_xml_attributes\<close>, \<open>find_attr\<close>) and \<open>load_xmldef_routes_from_string\<close> of
  \<open>src/src/transport/protocol.cpp\<close>.  A \<open>std::string_view\<close> with a position in it is the rest of the
  text.  \<open>std::stoull\<close> with base 0 is modelled with its prefixes, its sign (a negated value wraps to
  64 bits) and its exceptions, for the "C" locale.
\<close>

definition is_blank :: "char \<Rightarrow> bool" where
  "is_blank c \<longleftrightarrow> c = CHR '' '' \<or> c = CHR 0x09 \<or> c = CHR 0x0D \<or> c = CHR 0x0A"

definition trim_copy :: "string \<Rightarrow> string" where
  "trim_copy s = rev (dropWhile is_blank (rev (dropWhile is_blank s)))"

subsection \<open>Numbers\<close>

definition c_isspace :: "char \<Rightarrow> bool" where
  "c_isspace c \<longleftrightarrow> is_blank c \<or> c = CHR 0x0B \<or> c = CHR 0x0C"

definition c_isalnum :: "char \<Rightarrow> bool" where
  "c_isalnum c \<longleftrightarrow>
     (let n = of_char c :: nat in 48 \<le> n \<and> n \<le> 57 \<or> 65 \<le> n \<and> n \<le> 90 \<or> 97 \<le> n \<and> n \<le> 122)"

definition digit_value :: "char \<Rightarrow> nat option" where
  "digit_value c =
     (let n = of_char c :: nat in
      if 48 \<le> n \<and> n \<le> 57 then Some (n - 48)
      else if 97 \<le> n \<and> n \<le> 122 then Some (n - 97 + 10)
      else if 65 \<le> n \<and> n \<le> 90 then Some (n - 65 + 10)
      else None)"

definition is_digit_of :: "nat \<Rightarrow> char \<Rightarrow> bool" where
  "is_digit_of base c \<longleftrightarrow> (case digit_value c of None \<Rightarrow> False | Some d \<Rightarrow> d < base)"

definition number_of_digits :: "nat \<Rightarrow> string \<Rightarrow> nat" where
  "number_of_digits base ds = foldl (\<lambda>acc c. acc * base + the (digit_value c)) 0 ds"

text \<open>The value and the number of characters read; \<open>None\<close> is an exception.\<close>

definition stoull_unsigned :: "string \<Rightarrow> (nat \<times> nat) option" where
  "stoull_unsigned s =
     (let (base, skip) =
            (if take 1 s = ''0'' \<and> (take 1 (drop 1 s) = ''x'' \<or> take 1 (drop 1 s) = ''X'') \<and>
                list_ex (is_digit_of 16) (take 1 (drop 2 s)) then (16, 2)
             else if take 1 s = ''0'' then (8, 0) else (10, 0));
          ds = takeWhile (is_digit_of base) (drop skip s) in
      if ds = [] then None
      else if 2 ^ 64 \<le> number_of_digits base ds then None
      else Some (number_of_digits base ds, skip + length ds))"

definition stoull :: "string \<Rightarrow> (nat \<times> nat) option" where
  "stoull s =
     (let ws = length (takeWhile c_isspace s);
          t = drop ws s;
          signed = (take 1 t = ''-'' \<or> take 1 t = ''+'') in
      case stoull_unsigned (if signed then drop 1 t else t) of
        None \<Rightarrow> None
      | Some (n, len) \<Rightarrow>
          Some (if take 1 t = ''-'' then (2 ^ 64 - n) mod 2 ^ 64 else n, ws + (if signed then 1 else 0) + len))"

definition parse_u32 :: "string \<Rightarrow> u32 option" where
  "parse_u32 s =
     (let t = trim_copy s in
      case stoull t of
        None \<Rightarrow> None
      | Some (number, parsed) \<Rightarrow>
          if parsed \<noteq> length t \<or> UINT32_MAX < number then None else Some (of_nat number))"

definition parse_u16 :: "string \<Rightarrow> u16 option" where
  "parse_u16 s =
     (case parse_u32 s of
        None \<Rightarrow> None
      | Some n \<Rightarrow> if UINT16_MAX < unat n then None else Some (ucast n))"

definition parse_bool :: "string \<Rightarrow> bool option" where
  "parse_bool s =
     (let t = trim_copy s in
      if t = ''true'' \<or> t = ''1'' \<or> t = ''yes'' then Some True
      else if t = ''false'' \<or> t = ''0'' \<or> t = ''no'' then Some False
      else None)"

definition parse_action :: "string \<Rightarrow> RouteAction option" where
  "parse_action s =
     (let t = trim_copy s in
      if t = ''decode'' \<or> t = ''decode_local'' then Some DecodeLocal
      else if t = ''forward'' \<or> t = ''forward_raw'' then Some ForwardRaw
      else if t = ''drop'' then Some Drop
      else None)"

subsection \<open>Tags\<close>

definition is_key_char :: "char \<Rightarrow> bool" where
  "is_key_char c \<longleftrightarrow> c_isalnum c \<or> c = CHR ''_'' \<or> c = CHR ''-'' \<or> c = CHR ''.''"

definition is_quote :: "char \<Rightarrow> bool" where
  "is_quote c \<longleftrightarrow> c = CHR 0x22 \<or> c = CHR 0x27"

lemma after_key_length:
  assumes "takeWhile P (dropWhile Q xs) \<noteq> []"
  shows "length (dropWhile P (dropWhile Q xs)) < length xs"
proof -
  have "length (dropWhile P (dropWhile Q xs)) < length (dropWhile Q xs)"
    using assms by (cases "dropWhile Q xs") (auto simp: le_imp_less_Suc length_dropWhile_le split: if_splits)
  with length_dropWhile_le [of Q xs] show ?thesis by simp
qed

function attrs_loop :: "string \<Rightarrow> (string, string) umap \<Rightarrow> (string, string) umap" where
  "attrs_loop tag attrs =
     (if tag = [] then attrs
      else
        let at_key = dropWhile (\<lambda>c. is_blank c \<or> c = CHR ''/'') tag;
            key = takeWhile is_key_char at_key;
            after_key = dropWhile is_key_char at_key in
        if key = [] then attrs_loop (drop 1 after_key) attrs
        else
          let at_eq = dropWhile is_blank after_key in
          if take 1 at_eq \<noteq> ''='' then attrs_loop at_eq attrs
          else
            let at_quote = dropWhile is_blank (drop 1 at_eq) in
            case at_quote of
              [] \<Rightarrow> attrs_loop at_quote attrs
            | quote # chars \<Rightarrow>
                if \<not> is_quote quote then attrs_loop at_quote attrs
                else
                  let value = takeWhile (\<lambda>c. c \<noteq> quote) chars;
                      rest = dropWhile (\<lambda>c. c \<noteq> quote) chars in
                  if rest = [] then attrs
                  else attrs_loop (drop 1 rest) (umap_put key value attrs))"
  by pat_completeness auto

termination
proof (relation "measure (\<lambda>(tag, attrs). length tag)")
  fix tag :: string and attrs :: "(string, string) umap" and at_key key after_key
  assume "tag \<noteq> []" "at_key = dropWhile (\<lambda>c. is_blank c \<or> c = CHR ''/'') tag" "key = takeWhile is_key_char at_key"
    "after_key = dropWhile is_key_char at_key" "key = []"
  then show "((drop 1 after_key, attrs), tag, attrs) \<in> measure (\<lambda>(tag, attrs). length tag)"
    using length_dropWhile_le [of is_key_char at_key] length_dropWhile_le [of "\<lambda>c. is_blank c \<or> c = CHR ''/''" tag]
    by (cases tag) auto
next
  fix tag :: string and attrs :: "(string, string) umap" and at_key key after_key at_eq
  assume *: "at_key = dropWhile (\<lambda>c. is_blank c \<or> c = CHR ''/'') tag" "key = takeWhile is_key_char at_key"
    "after_key = dropWhile is_key_char at_key" "key \<noteq> []" "at_eq = dropWhile is_blank after_key"
  then have "length at_eq < length tag"
    using after_key_length [of is_key_char "\<lambda>c. is_blank c \<or> c = CHR ''/''" tag]
      length_dropWhile_le [of is_blank after_key] by simp
  then show "((at_eq, attrs), tag, attrs) \<in> measure (\<lambda>(tag, attrs). length tag)" by simp
next
  fix tag :: string and attrs :: "(string, string) umap" and at_key key after_key at_eq at_quote
  assume *: "at_key = dropWhile (\<lambda>c. is_blank c \<or> c = CHR ''/'') tag" "key = takeWhile is_key_char at_key"
    "after_key = dropWhile is_key_char at_key" "key \<noteq> []" "at_eq = dropWhile is_blank after_key"
    "at_quote = dropWhile is_blank (drop 1 at_eq)"
  then have q: "length at_quote < length tag"
    using after_key_length [of is_key_char "\<lambda>c. is_blank c \<or> c = CHR ''/''" tag]
      length_dropWhile_le [of is_blank after_key] length_dropWhile_le [of is_blank "drop 1 at_eq"] by simp
  then show "((at_quote, attrs), tag, attrs) \<in> measure (\<lambda>(tag, attrs). length tag)" by simp
  fix quote chars
  show "((at_quote, attrs), tag, attrs) \<in> measure (\<lambda>(tag, attrs). length tag)" using q by simp
  fix val rest
  assume "at_quote = quote # chars" "rest = dropWhile (\<lambda>c. c \<noteq> quote) chars"
  with q length_dropWhile_le [of "\<lambda>c. c \<noteq> quote" chars]
  show "((drop 1 rest, umap_put key val attrs), tag, attrs) \<in> measure (\<lambda>(tag, attrs). length tag)" by simp
qed simp_all

declare attrs_loop.simps [simp del]

definition parse_xml_attributes :: "string \<Rightarrow> (string, string) umap" where
  "parse_xml_attributes tag = attrs_loop tag []"

definition find_attr :: "(string, string) umap \<Rightarrow> string \<Rightarrow> string option" where
  "find_attr attrs key = umap_find key attrs"

subsection \<open>The loader\<close>

record XmldefCatalogOptions =
  xo_default_codec_id :: u16
  xo_default_action :: RouteAction
  xo_default_lazy_decode :: bool

definition new_XmldefCatalogOptions :: XmldefCatalogOptions where
  "new_XmldefCatalogOptions =
     \<lparr> xo_default_codec_id = 0, xo_default_action = DecodeLocal, xo_default_lazy_decode = True \<rparr>"

text \<open>
  The checks on the attributes of one tag, in the order of the source; each of them fails with its
  own message or updates the entry.
\<close>

definition xmldef_direction :: "(string, string) umap \<Rightarrow> RouteEntry \<Rightarrow> string + RouteEntry" where
  "xmldef_direction attrs entry =
     (case find_attr attrs ''direction'' of
        None \<Rightarrow> Inr entry
      | Some dir \<Rightarrow>
          if dir = ''c2s'' \<or> dir = ''client_to_server'' then Inr (entry\<lparr> re_direction := ClientToServer \<rparr>)
          else if dir = ''s2c'' \<or> dir = ''server_to_client'' then Inr (entry\<lparr> re_direction := ServerToClient \<rparr>)
          else if dir = ''bidi'' \<or> dir = ''bidirectional'' then Inr (entry\<lparr> re_direction := Bidirectional \<rparr>)
          else Inl ''xmldef direction must be c2s/s2c/bidi'')"

definition xmldef_auth :: "(string, string) umap \<Rightarrow> RouteEntry \<Rightarrow> RouteEntry" where
  "xmldef_auth attrs entry =
     (case find_attr attrs ''requires_auth'' of
        None \<Rightarrow> entry
      | Some auth \<Rightarrow> entry\<lparr> re_requires_auth := (auth = ''true'' \<or> auth = ''1'') \<rparr>)"

definition xmldef_codec :: "(string, string) umap \<Rightarrow> RouteEntry \<Rightarrow> string + RouteEntry" where
  "xmldef_codec attrs entry =
     (case find_attr attrs ''codec_id'' of
        None \<Rightarrow> Inr entry
      | Some v \<Rightarrow> (case parse_u16 v of
          None \<Rightarrow> Inl ''xmldef codec_id must be uint16''
        | Some n \<Rightarrow> Inr (entry\<lparr> re_codec_id := n \<rparr>)))"

definition xmldef_schema :: "(string, string) umap \<Rightarrow> RouteEntry \<Rightarrow> string + RouteEntry" where
  "xmldef_schema attrs entry =
     (case find_attr attrs ''schema_id'' of
        Some v \<Rightarrow> (case parse_u16 v of
          None \<Rightarrow> Inl ''xmldef schema_id must be uint16''
        | Some n \<Rightarrow> Inr (entry\<lparr> re_schema_id := n \<rparr>))
      | None \<Rightarrow> (case find_attr attrs ''schema'' of
          None \<Rightarrow> Inr entry
        | Some v \<Rightarrow> (case parse_u16 v of
            None \<Rightarrow> Inl ''xmldef schema must be uint16''
          | Some n \<Rightarrow> Inr (entry\<lparr> re_schema_id := n \<rparr>))))"

definition xmldef_action :: "(string, string) umap \<Rightarrow> RouteEntry \<Rightarrow> string + RouteEntry" where
  "xmldef_action attrs entry =
     (case find_attr attrs ''action'' of
        None \<Rightarrow> Inr entry
      | Some v \<Rightarrow> (case parse_action v of
          None \<Rightarrow> Inl ''xmldef action is invalid''
        | Some a \<Rightarrow> Inr (entry\<lparr> re_policy := (re_policy entry)\<lparr> rp_action := a \<rparr> \<rparr>)))"

definition xmldef_lazy :: "(string, string) umap \<Rightarrow> RouteEntry \<Rightarrow> string + RouteEntry" where
  "xmldef_lazy attrs entry =
     (case find_attr attrs ''lazy_decode'' of
        None \<Rightarrow> Inr entry
      | Some v \<Rightarrow> (case parse_bool v of
          None \<Rightarrow> Inl ''xmldef lazy_decode must be bool''
        | Some b \<Rightarrow> Inr (entry\<lparr> re_policy := (re_policy entry)\<lparr> rp_lazy_decode := b \<rparr> \<rparr>)))"

definition xmldef_entry :: "XmldefCatalogOptions \<Rightarrow> (string, string) umap \<Rightarrow> string + RouteEntry" where
  "xmldef_entry options attrs =
     (case find_attr attrs ''id'' of
        None \<Rightarrow> Inl ''xmldef message/route is missing id''
      | Some id_attr \<Rightarrow>
          if parse_u32 id_attr = None \<or> parse_u32 id_attr = Some 0
          then Inl ''xmldef message/route id must be uint32''
          else
            let entry = new_RouteEntry\<lparr>
                  re_route_id := the (parse_u32 id_attr), re_codec_id := xo_default_codec_id options,
                  re_policy := \<lparr> rp_action = xo_default_action options,
                                rp_lazy_decode = xo_default_lazy_decode options \<rparr>,
                  re_debug_name := (case find_attr attrs ''name'' of None \<Rightarrow> [] | Some v \<Rightarrow> v) \<rparr> in
            attempt (xmldef_direction attrs entry) (\<lambda>entry.
            attempt (xmldef_codec attrs (xmldef_auth attrs entry)) (\<lambda>entry.
            attempt (xmldef_schema attrs entry) (\<lambda>entry.
            attempt (xmldef_action attrs entry) (\<lambda>entry.
            xmldef_lazy attrs entry)))))"

text \<open>What one tag asks for: nothing, an error, or a route.\<close>

definition xmldef_tag :: "XmldefCatalogOptions \<Rightarrow> string \<Rightarrow> string + RouteEntry option" where
  "xmldef_tag options raw_tag =
     (let tag = trim_copy raw_tag in
      if tag = [] \<or> hd tag = CHR ''/'' \<or> hd tag = CHR ''?'' \<or> hd tag = CHR ''!'' then Inr None
      else
        let tag_name = takeWhile (\<lambda>c. \<not> (is_blank c \<or> c = CHR ''/'')) tag;
            attr_text = drop 1 (dropWhile (\<lambda>c. \<not> (is_blank c \<or> c = CHR ''/'')) tag) in
        if tag_name \<noteq> ''message'' \<and> tag_name \<noteq> ''route'' then Inr None
        else map_sum id Some (xmldef_entry options (parse_xml_attributes attr_text)))"

lemma after_tag_length:
  assumes "dropWhile P xs = y # ys"
  shows "length (drop 1 (dropWhile Q ys)) < length xs"
  using assms length_dropWhile_le [of P xs] length_dropWhile_le [of Q ys] by simp

function xmldef_loop ::
  "XmldefCatalogOptions \<Rightarrow> string \<Rightarrow> RouteTable \<Rightarrow> bool \<times> RouteTable \<times> string" where
  "xmldef_loop options xml routes =
     (case dropWhile (\<lambda>c. c \<noteq> CHR ''<'') xml of
        [] \<Rightarrow> (True, routes, [])
      | _ # after_open \<Rightarrow>
          if CHR ''>'' \<notin> set after_open then (False, routes, ''xmldef contains an unterminated tag'')
          else
            let raw_tag = takeWhile (\<lambda>c. c \<noteq> CHR ''>'') after_open;
                rest = drop 1 (dropWhile (\<lambda>c. c \<noteq> CHR ''>'') after_open) in
            case xmldef_tag options raw_tag of
              Inl e \<Rightarrow> (False, routes, e)
            | Inr None \<Rightarrow> xmldef_loop options rest routes
            | Inr (Some entry) \<Rightarrow>
                let (routes', added) = route_add entry routes in
                if added then xmldef_loop options rest routes'
                else (False, routes', ''xmldef contains duplicate route id or name''))"
  by pat_completeness auto

termination
  by (relation "measure (\<lambda>(options, xml, routes). length xml)") (auto dest: after_tag_length [simplified])

declare xmldef_loop.simps [simp del]

definition load_xmldef_routes_from_string ::
  "XmldefCatalogOptions \<Rightarrow> string \<Rightarrow> RouteTable \<Rightarrow> bool \<times> RouteTable \<times> string" where
  "load_xmldef_routes_from_string options xml routes = xmldef_loop options xml routes"

text \<open>The content of the file is \<open>None\<close> if it cannot be opened.\<close>

definition load_xmldef_routes_from_file ::
  "(string \<Rightarrow> string option) \<Rightarrow> XmldefCatalogOptions \<Rightarrow> string \<Rightarrow> RouteTable \<Rightarrow> bool \<times> RouteTable \<times> string" where
  "load_xmldef_routes_from_file read_file options path routes =
     (case read_file path of
        None \<Rightarrow> (False, routes, ''failed to open xmldef catalog'')
      | Some content \<Rightarrow> load_xmldef_routes_from_string options content routes)"

subsection \<open>Numbers are read back\<close>

definition is_decimal :: "char \<Rightarrow> bool" where
  "is_decimal c \<longleftrightarrow> 48 \<le> (of_char c :: nat) \<and> (of_char c :: nat) \<le> 57"

lemma of_char_digit: "d < 10 \<Longrightarrow> (of_char (char_of (48 + d :: nat) :: char) :: nat) = 48 + d"
  by simp

lemma digit_value_decimal: "d < 10 \<Longrightarrow> digit_value (char_of (48 + d :: nat)) = Some d"
  by (simp add: digit_value_def Let_def)

lemma is_decimal_char: "d < 10 \<Longrightarrow> is_decimal (char_of (48 + d :: nat))"
  by (simp add: is_decimal_def)

lemma char_of_0: "char_of (48 + d :: nat) = CHR ''0'' \<longleftrightarrow> (48 + d) mod 256 = (48 :: nat)"
proof -
  have "char_of (48 + d :: nat) = CHR ''0'' \<longleftrightarrow> (of_char (char_of (48 + d :: nat) :: char) :: nat) = of_char (CHR ''0'')"
    by (simp only: of_char_eq_iff)
  then show ?thesis by simp
qed

lemma is_digit_of_decimal: "is_decimal c \<Longrightarrow> is_digit_of 10 c"
  by (auto simp: is_decimal_def is_digit_of_def digit_value_def Let_def)

lemma to_string_nat_decimal: "list_all is_decimal (to_string_nat n)"
proof (induction n rule: to_string_nat.induct)
  case (1 n)
  then show ?case
    by (subst to_string_nat.simps) (auto simp: is_decimal_char)
qed

lemma to_string_nat_nonempty [simp]: "to_string_nat n \<noteq> []"
  by (subst to_string_nat.simps) simp

lemma number_of_digits_snoc:
  "number_of_digits b (ds @ [c]) = number_of_digits b ds * b + the (digit_value c)"
  by (simp add: number_of_digits_def)

lemma number_of_to_string: "number_of_digits 10 (to_string_nat n) = n"
proof (induction n rule: to_string_nat.induct)
  case (1 n)
  show ?case
  proof (cases "n < 10")
    case True
    then show ?thesis
      using digit_value_decimal [of n] by (subst to_string_nat.simps) (simp add: number_of_digits_def)
  next
    case False
    then show ?thesis
      using "1.IH" digit_value_decimal [of "n mod 10"]
      by (subst to_string_nat.simps) (simp add: number_of_digits_snoc)
  qed
qed

lemma hd_to_string: "0 < n \<Longrightarrow> hd (to_string_nat n) \<noteq> CHR ''0''"
proof (induction n rule: to_string_nat.induct)
  case (1 n)
  show ?case
  proof (cases "n < 10")
    case True
    then show ?thesis using "1.prems" by (subst to_string_nat.simps) (simp add: char_of_0)
  next
    case False
    then show ?thesis using "1.IH" by (subst to_string_nat.simps) simp
  qed
qed

lemma stoull_unsigned_to_string:
  assumes "n < 2 ^ 64"
  shows "stoull_unsigned (to_string_nat n) = Some (n, length (to_string_nat n))"
proof (cases "n = 0")
  case True
  have "to_string_nat 0 = ''0''" using char_of_0 [of 0] by (subst to_string_nat.simps) simp
  with True show ?thesis
    by (simp add: stoull_unsigned_def is_digit_of_def digit_value_def number_of_digits_def)
next
  case False
  then have "take 1 (to_string_nat n) \<noteq> ''0''"
    using hd_to_string [of n] by (cases "to_string_nat n") auto
  moreover have tw: "takeWhile (is_digit_of 10) (to_string_nat n) = to_string_nat n"
    using to_string_nat_decimal [of n] by (auto simp: takeWhile_eq_all_conv list_all_iff is_digit_of_decimal)
  ultimately show ?thesis
    using assms number_of_to_string [of n] by (simp add: stoull_unsigned_def Let_def tw)
qed

lemma decimal_hd_last:
  assumes "list_all is_decimal s" "s \<noteq> []"
  shows "is_decimal (hd s)" "is_decimal (last s)"
  using assms by (auto simp: list_all_iff)

lemma decimal_not_blank: "is_decimal c \<Longrightarrow> \<not> is_blank c \<and> \<not> c_isspace c \<and> c \<noteq> CHR ''-'' \<and> c \<noteq> CHR ''+''"
  by (auto simp: is_decimal_def is_blank_def c_isspace_def)

lemma trim_copy_id:
  assumes "s = [] \<or> \<not> is_blank (hd s) \<and> \<not> is_blank (last s)"
  shows "trim_copy s = s"
proof (cases "s = []")
  case False
  with assms have "dropWhile is_blank s = s" by (cases s) auto
  moreover have "dropWhile is_blank (rev s) = rev s"
    using False assms by (cases s rule: rev_cases) auto
  ultimately show ?thesis by (simp add: trim_copy_def)
qed (simp add: trim_copy_def)

lemma trim_copy_decimal: "list_all is_decimal s \<Longrightarrow> trim_copy s = s"
  using decimal_hd_last [of s] decimal_not_blank by (intro trim_copy_id) blast

lemma stoull_to_string:
  assumes "n < 2 ^ 64"
  shows "stoull (to_string_nat n) = Some (n, length (to_string_nat n))"
proof -
  obtain c cs where s: "to_string_nat n = c # cs" by (cases "to_string_nat n") auto
  with to_string_nat_decimal [of n] have "is_decimal c" by simp
  with decimal_not_blank have c: "\<not> c_isspace c" "c \<noteq> CHR ''-''" "c \<noteq> CHR ''+''" by blast+
  show ?thesis
    using stoull_unsigned_to_string [OF assms] c by (simp add: stoull_def s)
qed

lemma parse_u32_to_string: "n < 2 ^ 32 \<Longrightarrow> parse_u32 (to_string_nat n) = Some (of_nat n)"
  using stoull_to_string [of n] trim_copy_decimal [OF to_string_nat_decimal, of n]
  by (simp add: parse_u32_def UINT32_MAX_def)

lemma parse_u32_unat [simp]: "parse_u32 (to_string_nat (unat w)) = Some w" for w :: u32
  using parse_u32_to_string [of "unat w"] unat_u32_less [of w] by simp

lemma parse_u16_unat [simp]: "parse_u16 (to_string_nat (unat w)) = Some w" for w :: u16
proof -
  have w: "unat w < 2 ^ 16" using unat_u16_less [of w] by simp
  then have "parse_u32 (to_string_nat (unat w)) = Some (of_nat (unat w))"
    by (intro parse_u32_to_string) simp
  moreover have "unat (of_nat (unat w) :: u32) = unat w" using w by (intro unat_of_nat_u32) simp
  moreover have "(ucast (of_nat (unat w) :: u32) :: u16) = w"
    by (rule bit_word_eqI) (auto simp: bit_simps)
  ultimately show ?thesis using w by (simp add: parse_u16_def UINT16_MAX_def)
qed

subsection \<open>What a catalog holds\<close>

text \<open>The raw texts of the terminated tags of a catalog, in order, and the routes they declare.\<close>

function xmldef_tags :: "string \<Rightarrow> string list" where
  "xmldef_tags xml =
     (case dropWhile (\<lambda>c. c \<noteq> CHR ''<'') xml of
        [] \<Rightarrow> []
      | _ # after_open \<Rightarrow>
          if CHR ''>'' \<notin> set after_open then []
          else takeWhile (\<lambda>c. c \<noteq> CHR ''>'') after_open #
               xmldef_tags (drop 1 (dropWhile (\<lambda>c. c \<noteq> CHR ''>'') after_open)))"
  by pat_completeness auto
termination
  by (relation "measure length") (auto dest: after_tag_length [simplified])

declare xmldef_tags.simps [simp del]

definition catalog_routes :: "XmldefCatalogOptions \<Rightarrow> string \<Rightarrow> RouteEntry list" where
  "catalog_routes options xml =
     List.map_filter (\<lambda>tag. case xmldef_tag options tag of Inr (Some e) \<Rightarrow> Some e | _ \<Rightarrow> None) (xmldef_tags xml)"

lemma catalog_routes_end:
  "dropWhile (\<lambda>c. c \<noteq> CHR ''<'') xml = [] \<Longrightarrow> catalog_routes options xml = []"
  by (simp add: catalog_routes_def xmldef_tags.simps [of xml] map_filter_simps del: dropWhile_eq_Nil_conv)

lemma catalog_routes_tag:
  assumes "dropWhile (\<lambda>c. c \<noteq> CHR ''<'') xml = lt # after_open" "CHR ''>'' \<in> set after_open"
  shows "catalog_routes options xml =
    (case xmldef_tag options (takeWhile (\<lambda>c. c \<noteq> CHR ''>'') after_open) of Inr (Some e) \<Rightarrow> [e] | _ \<Rightarrow> []) @
    catalog_routes options (drop 1 (dropWhile (\<lambda>c. c \<noteq> CHR ''>'') after_open))"
  using assms by (auto simp: catalog_routes_def xmldef_tags.simps [of xml] map_filter_simps split: sum.splits option.splits)

text \<open>A stage of the parser keeps the id and names its errors.\<close>

definition stage_ok :: "RouteEntry \<Rightarrow> string + RouteEntry \<Rightarrow> bool" where
  "stage_ok e r = (case r of Inl m \<Rightarrow> m \<noteq> [] | Inr e' \<Rightarrow> re_route_id e' = re_route_id e)"

lemma stage_ok_simps [simp]:
  "stage_ok e (Inl m) \<longleftrightarrow> m \<noteq> []" "stage_ok e (Inr e') \<longleftrightarrow> re_route_id e' = re_route_id e"
  by (simp_all add: stage_ok_def)

lemma xmldef_stages:
  "stage_ok e (xmldef_direction attrs e)" "stage_ok e (xmldef_codec attrs e)" "stage_ok e (xmldef_schema attrs e)"
  "stage_ok e (xmldef_action attrs e)" "stage_ok e (xmldef_lazy attrs e)"
  by (simp_all add: xmldef_direction_def xmldef_codec_def xmldef_schema_def xmldef_action_def
      xmldef_lazy_def split: option.split)

lemma xmldef_auth_id [simp]: "re_route_id (xmldef_auth attrs e) = re_route_id e"
  by (simp add: xmldef_auth_def split: option.split)

lemma stage_ok_attempt:
  assumes "stage_ok e m" "\<And>e'. re_route_id e' = re_route_id e \<Longrightarrow> stage_ok e' (f e')"
  shows "stage_ok e (attempt m f)"
proof (cases m)
  case (Inr e')
  with assms have "re_route_id e' = re_route_id e" "stage_ok e' (f e')" by simp_all
  with Inr show ?thesis by (simp add: stage_ok_def split: sum.splits)
qed (use assms in simp)

lemma stage_ok_same_id: "stage_ok e r \<Longrightarrow> re_route_id e = re_route_id e2 \<Longrightarrow> stage_ok e2 r"
  by (simp add: stage_ok_def split: sum.splits)

lemma xmldef_entry_stages:
  "stage_ok e (attempt (xmldef_direction attrs e) (\<lambda>e.
     attempt (xmldef_codec attrs (xmldef_auth attrs e)) (\<lambda>e.
     attempt (xmldef_schema attrs e) (\<lambda>e.
     attempt (xmldef_action attrs e) (\<lambda>e. xmldef_lazy attrs e)))))"
proof -
  have "stage_ok e (xmldef_codec attrs (xmldef_auth attrs e))" for e
    by (rule stage_ok_same_id [OF xmldef_stages(2)]) simp
  then show ?thesis by (intro stage_ok_attempt xmldef_stages) auto
qed

lemma xmldef_entry_id:
  assumes "xmldef_entry options attrs = Inr e"
  shows "re_route_id e \<noteq> 0"
proof -
  from assms obtain v where v: "find_attr attrs ''id'' = Some v"
    by (cases "find_attr attrs ''id''") (auto simp: xmldef_entry_def)
  with assms obtain i where i: "parse_u32 v = Some i" "i \<noteq> 0"
    by (cases "parse_u32 v") (auto simp: xmldef_entry_def split: if_splits)
  let ?e = "new_RouteEntry\<lparr> re_route_id := i, re_codec_id := xo_default_codec_id options,
    re_policy := \<lparr> rp_action = xo_default_action options, rp_lazy_decode = xo_default_lazy_decode options \<rparr>,
    re_debug_name := (case find_attr attrs ''name'' of None \<Rightarrow> [] | Some v \<Rightarrow> v) \<rparr>"
  have "stage_ok ?e (Inr e)"
    using xmldef_entry_stages [of ?e attrs] assms v i by (simp add: xmldef_entry_def)
  with i show ?thesis by simp
qed

lemma xmldef_entry_named: "xmldef_entry options attrs \<noteq> Inl []"
proof
  assume *: "xmldef_entry options attrs = Inl []"
  then obtain v where v: "find_attr attrs ''id'' = Some v"
    by (cases "find_attr attrs ''id''") (auto simp: xmldef_entry_def)
  with * obtain i where i: "parse_u32 v = Some i" "i \<noteq> 0"
    by (cases "parse_u32 v") (auto simp: xmldef_entry_def split: if_splits)
  let ?e = "new_RouteEntry\<lparr> re_route_id := i, re_codec_id := xo_default_codec_id options,
    re_policy := \<lparr> rp_action = xo_default_action options, rp_lazy_decode = xo_default_lazy_decode options \<rparr>,
    re_debug_name := (case find_attr attrs ''name'' of None \<Rightarrow> [] | Some v \<Rightarrow> v) \<rparr>"
  have "stage_ok ?e (Inl [])"
    using xmldef_entry_stages [of ?e attrs] * v i by (simp add: xmldef_entry_def)
  then show False by simp
qed

lemma xmldef_tag_entry:
  assumes "xmldef_tag options tag = r" "r \<noteq> Inr None"
  obtains attrs where "r = map_sum id Some (xmldef_entry options attrs)"
  using assms by (simp only: xmldef_tag_def Let_def split: if_splits) (simp_all, metis)

lemma xmldef_tag_id: "xmldef_tag options tag = Inr (Some e) \<Longrightarrow> re_route_id e \<noteq> 0"
proof (erule xmldef_tag_entry)
  fix attrs assume "Inr (Some e) = map_sum id Some (xmldef_entry options attrs)"
  then show ?thesis by (cases "xmldef_entry options attrs") (auto dest: xmldef_entry_id)
qed simp

lemma xmldef_tag_named: "xmldef_tag options tag = Inl e \<Longrightarrow> e \<noteq> []"
proof (erule xmldef_tag_entry)
  fix attrs assume "Inl e = map_sum id Some (xmldef_entry options attrs)"
  then show ?thesis using xmldef_entry_named [of options attrs] by (cases "xmldef_entry options attrs") auto
qed simp

text \<open>One turn of the loader.\<close>

lemma xmldef_loop_cases:
  obtains (finished) "dropWhile (\<lambda>c. c \<noteq> CHR ''<'') xml = []" "xmldef_loop options xml t = (True, t, [])"
  | (unterminated) lt after_open where "dropWhile (\<lambda>c. c \<noteq> CHR ''<'') xml = lt # after_open"
      "CHR ''>'' \<notin> set after_open" "xmldef_loop options xml t = (False, t, ''xmldef contains an unterminated tag'')"
  | (tag) lt after_open rest where "dropWhile (\<lambda>c. c \<noteq> CHR ''<'') xml = lt # after_open"
      "CHR ''>'' \<in> set after_open" "rest = drop 1 (dropWhile (\<lambda>c. c \<noteq> CHR ''>'') after_open)"
      "length rest < length xml"
      "xmldef_loop options xml t =
        (case xmldef_tag options (takeWhile (\<lambda>c. c \<noteq> CHR ''>'') after_open) of
           Inl e \<Rightarrow> (False, t, e)
         | Inr None \<Rightarrow> xmldef_loop options rest t
         | Inr (Some entry) \<Rightarrow>
             if snd (route_add entry t) then xmldef_loop options rest (fst (route_add entry t))
             else (False, t, ''xmldef contains duplicate route id or name''))"
proof (cases "dropWhile (\<lambda>c. c \<noteq> CHR ''<'') xml")
  case Nil
  then show ?thesis using finished by (simp add: xmldef_loop.simps [of options xml] del: dropWhile_eq_Nil_conv)
next
  case (Cons lt after_open)
  show ?thesis
  proof (cases "CHR ''>'' \<in> set after_open")
    case False
    with Cons show ?thesis using unterminated by (simp add: xmldef_loop.simps [of options xml])
  next
    case True
    let ?rest = "drop 1 (dropWhile (\<lambda>c. c \<noteq> CHR ''>'') after_open)"
    have "xmldef_loop options xml t =
        (case xmldef_tag options (takeWhile (\<lambda>c. c \<noteq> CHR ''>'') after_open) of
           Inl e \<Rightarrow> (False, t, e)
         | Inr None \<Rightarrow> xmldef_loop options ?rest t
         | Inr (Some entry) \<Rightarrow>
             if snd (route_add entry t) then xmldef_loop options ?rest (fst (route_add entry t))
             else (False, t, ''xmldef contains duplicate route id or name''))"
    proof -
      have "xmldef_loop options xml t =
        (case xmldef_tag options (takeWhile (\<lambda>c. c \<noteq> CHR ''>'') after_open) of
           Inl e \<Rightarrow> (False, t, e)
         | Inr None \<Rightarrow> xmldef_loop options ?rest t
         | Inr (Some entry) \<Rightarrow>
             if snd (route_add entry t) then xmldef_loop options ?rest (fst (route_add entry t))
             else (False, fst (route_add entry t), ''xmldef contains duplicate route id or name''))"
        by (simp only: xmldef_loop.simps [of options xml] Cons list.case True Let_def split_beta simp_thms if_False)
      then show ?thesis
        by (cases "xmldef_tag options (takeWhile (\<lambda>c. c \<noteq> CHR ''>'') after_open)")
          (auto simp: route_add_refused split: option.splits)
    qed
    with Cons True after_tag_length [OF Cons] show ?thesis by (intro tag) auto
  qed
qed

lemma xmldef_loop_correct:
  assumes "route_table_inv t" "xmldef_loop options xml t = (ok, t', err)"
  shows "route_table_inv t' \<and> (ok \<longleftrightarrow> err = []) \<and>
    (\<forall>i e. route_find t i = Some e \<longrightarrow> route_find t' i = Some e) \<and>
    (\<forall>i e. route_find t' i = Some e \<longrightarrow> route_find t i = Some e \<or> i \<noteq> 0 \<and> e \<in> set (catalog_routes options xml)) \<and>
    (ok \<longrightarrow> (\<forall>e \<in> set (catalog_routes options xml). route_find t' (re_route_id e) = Some e))"
  using assms
proof (induction xml arbitrary: t rule: length_induct)
  case (1 xml)
  show ?case
  proof (cases rule: xmldef_loop_cases [of xml options t])
    case finished
    with "1.prems" show ?thesis by (simp add: catalog_routes_end del: dropWhile_eq_Nil_conv)
  next
    case unterminated
    with "1.prems" show ?thesis by auto
  next
    case (tag lt after_open rest)
    let ?tag = "xmldef_tag options (takeWhile (\<lambda>c. c \<noteq> CHR ''>'') after_open)"
    note cat = catalog_routes_tag [OF tag(1,2), of options, folded tag(3)]
    show ?thesis
    proof (cases ?tag)
      case (Inl e)
      with "1.prems" tag(5) xmldef_tag_named [OF Inl] show ?thesis by simp
    next
      case (Inr r)
      show ?thesis
      proof (cases r)
        case None
        with "1.prems" tag(5) Inr have "xmldef_loop options rest t = (ok, t', err)" by simp
        with "1.IH" tag(4) "1.prems"(1) cat Inr None show ?thesis by simp
      next
        case (Some entry)
        note id = xmldef_tag_id [OF Inr [unfolded Some]]
        show ?thesis
        proof (cases "snd (route_add entry t)")
          case False
          with "1.prems" tag(5) Inr Some show ?thesis by auto
        next
          case True
          let ?t = "fst (route_add entry t)"
          have inv: "route_table_inv ?t" using "1.prems"(1) by (rule route_add_inv)
          have find: "route_find ?t = (route_find t)(re_route_id entry \<mapsto> entry)" "route_find t (re_route_id entry) = None"
            using routes.add_lookup [OF "1.prems"(1) refl, of entry] routes.add_accepts [OF "1.prems"(1) refl, of entry] True
            by auto
          have "xmldef_loop options rest ?t = (ok, t', err)" using "1.prems"(2) tag(5) Inr Some True by simp
          with "1.IH" tag(4) inv have IH: "route_table_inv t' \<and> (ok \<longleftrightarrow> err = []) \<and>
            (\<forall>i e. route_find ?t i = Some e \<longrightarrow> route_find t' i = Some e) \<and>
            (\<forall>i e. route_find t' i = Some e \<longrightarrow> route_find ?t i = Some e \<or> i \<noteq> 0 \<and> e \<in> set (catalog_routes options rest)) \<and>
            (ok \<longrightarrow> (\<forall>e \<in> set (catalog_routes options rest). route_find t' (re_route_id e) = Some e))"
            by blast
          have keep: "route_find t' i = Some e" if "route_find t i = Some e" for i e
            using that IH find by (cases "i = re_route_id entry") auto
          have new: "route_find t' (re_route_id entry) = Some entry" using IH find by simp
          have cat': "catalog_routes options xml = entry # catalog_routes options rest" using cat Inr Some by simp
          have "route_find t i = Some e \<or> i \<noteq> 0 \<and> e \<in> set (catalog_routes options xml)"
            if "route_find t' i = Some e" for i e
          proof -
            from that IH have "route_find ?t i = Some e \<or> i \<noteq> 0 \<and> e \<in> set (catalog_routes options rest)" by blast
            then show ?thesis using find(1) id cat' by (cases "i = re_route_id entry") auto
          qed
          with IH keep new cat' show ?thesis by auto
        qed
      qed
    qed
  qed
qed

subsection \<open>Writing catalogs\<close>

text \<open>A route as a tag of a catalog, every attribute spelled out.\<close>

definition render_attr :: "string \<Rightarrow> string \<Rightarrow> string" where
  "render_attr k v = k @ ''='' @ [CHR 0x22] @ v @ [CHR 0x22]"

definition render_direction :: "RouteDirection \<Rightarrow> string" where
  "render_direction d = (case d of ClientToServer \<Rightarrow> ''c2s'' | ServerToClient \<Rightarrow> ''s2c'' | Bidirectional \<Rightarrow> ''bidi'')"

definition render_action :: "RouteAction \<Rightarrow> string" where
  "render_action a = (case a of DecodeLocal \<Rightarrow> ''decode'' | ForwardRaw \<Rightarrow> ''forward'' | Drop \<Rightarrow> ''drop'')"

definition render_bool :: "bool \<Rightarrow> string" where
  "render_bool b = (if b then ''true'' else ''false'')"

fun render_attrs :: "(string \<times> string) list \<Rightarrow> string" where
  "render_attrs [] = []"
| "render_attrs ((k, v) # kvs) = '' '' @ render_attr k v @ render_attrs kvs"

definition route_attrs :: "RouteEntry \<Rightarrow> (string \<times> string) list" where
  "route_attrs e =
     [(''name'', re_debug_name e), (''direction'', render_direction (re_direction e)),
      (''requires_auth'', render_bool (re_requires_auth e)), (''codec_id'', to_string_nat (unat (re_codec_id e))),
      (''schema_id'', to_string_nat (unat (re_schema_id e))), (''action'', render_action (rp_action (re_policy e))),
      (''lazy_decode'', render_bool (rp_lazy_decode (re_policy e)))]"

definition route_tag :: "RouteEntry \<Rightarrow> string" where
  "route_tag e = ''route '' @ render_attr ''id'' (to_string_nat (unat (re_route_id e))) @ render_attrs (route_attrs e)"

definition render_route :: "RouteEntry \<Rightarrow> string" where
  "render_route e = ''<'' @ route_tag e @ ''>''"

definition printable_route :: "RouteEntry \<Rightarrow> bool" where
  "printable_route e \<longleftrightarrow> re_route_id e \<noteq> 0 \<and> re_kind e = Message \<and>
     CHR 0x22 \<notin> set (re_debug_name e) \<and> CHR ''>'' \<notin> set (re_debug_name e)"

lemma takeWhile_stop: "list_all P xs \<Longrightarrow> \<not> P y \<Longrightarrow> takeWhile P (xs @ y # ys) = xs"
  by (induction xs) auto

lemma dropWhile_stop: "list_all P xs \<Longrightarrow> \<not> P y \<Longrightarrow> dropWhile P (xs @ y # ys) = y # ys"
  by (induction xs) auto

lemma attrs_loop_attr:
  assumes "list_all is_key_char k" "k \<noteq> []" "CHR 0x22 \<notin> set v" "list_all is_blank bl"
  shows "attrs_loop (bl @ render_attr k v @ rest) attrs = attrs_loop rest (umap_put k v attrs)"
proof -
  obtain c cs where k: "k = c # cs" using assms(2) by (cases k) auto
  have c: "\<not> is_blank c" "c \<noteq> CHR ''/''"
    using assms(1) k by (auto simp: is_key_char_def is_blank_def c_isalnum_def Let_def)
  have eq: "\<not> is_key_char (CHR ''='')" "\<not> is_blank (CHR ''='')" "\<not> is_blank (CHR 0x22)" "is_quote (CHR 0x22)"
    by (auto simp: is_key_char_def is_blank_def c_isalnum_def is_quote_def Let_def)
  let ?tail = "CHR 0x22 # v @ CHR 0x22 # rest"
  have layout: "bl @ render_attr k v @ rest = bl @ k @ CHR ''='' # ?tail" by (simp add: render_attr_def)
  have key: "dropWhile (\<lambda>c. is_blank c \<or> c = CHR ''/'') (bl @ k @ CHR ''='' # ?tail) = k @ CHR ''='' # ?tail"
    using dropWhile_stop [of "\<lambda>c. is_blank c \<or> c = CHR ''/''" bl c "cs @ CHR ''='' # ?tail"] assms(4) c k
    by (simp add: list_all_iff)
  have v: "takeWhile (\<lambda>c. c \<noteq> CHR 0x22) (v @ CHR 0x22 # rest) = v"
    "dropWhile (\<lambda>c. c \<noteq> CHR 0x22) (v @ CHR 0x22 # rest) = CHR 0x22 # rest"
    using assms(3) by (intro takeWhile_stop dropWhile_stop; auto simp: list_all_iff)+
  have "bl @ k @ CHR ''='' # ?tail \<noteq> []" by simp
  then show ?thesis
    unfolding layout attrs_loop.simps [of "bl @ k @ CHR ''='' # ?tail"]
    using takeWhile_stop [OF assms(1) eq(1), of ?tail] dropWhile_stop [OF assms(1) eq(1), of ?tail]
    by (simp only: key Let_def if_False) (simp add: eq v assms(2))
qed

lemma attrs_loop_attrs:
  "list_all (\<lambda>(k, v). list_all is_key_char k \<and> k \<noteq> [] \<and> CHR 0x22 \<notin> set v) kvs \<Longrightarrow>
   attrs_loop (render_attrs kvs) attrs = fold (\<lambda>(k, v). umap_put k v) kvs attrs"
proof (induction kvs arbitrary: attrs)
  case Nil
  then show ?case by (simp add: attrs_loop.simps)
next
  case (Cons kv kvs)
  obtain k v where kv: "kv = (k, v)" by fastforce
  with Cons show ?case
    using attrs_loop_attr [of k v "'' ''" "render_attrs kvs" attrs] by (simp add: is_blank_def)
qed

lemma decimal_no_quote: "list_all is_decimal s \<Longrightarrow> CHR 0x22 \<notin> set s \<and> CHR ''>'' \<notin> set s"
  by (auto simp: list_all_iff is_decimal_def)

lemma to_string_no_quote [simp]: "CHR 0x22 \<notin> set (to_string_nat n)" "CHR ''>'' \<notin> set (to_string_nat n)"
  using decimal_no_quote [OF to_string_nat_decimal [of n]] by auto

lemma render_direction_no_quote [simp]:
  "CHR 0x22 \<notin> set (render_direction d)" "CHR ''>'' \<notin> set (render_direction d)"
  by (cases d; simp add: render_direction_def)+

lemma render_action_no_quote [simp]:
  "CHR 0x22 \<notin> set (render_action a)" "CHR ''>'' \<notin> set (render_action a)"
  by (cases a; simp add: render_action_def)+

lemma render_bool_no_quote [simp]: "CHR 0x22 \<notin> set (render_bool b)" "CHR ''>'' \<notin> set (render_bool b)"
  by (simp_all add: render_bool_def)

lemma route_tag_no_close: "printable_route e \<Longrightarrow> CHR ''>'' \<notin> set (route_tag e)"
  by (simp add: route_tag_def route_attrs_def render_attr_def printable_route_def)

lemma key_chars:
  "list_all is_key_char ''id''" "list_all is_key_char ''name''" "list_all is_key_char ''direction''"
  "list_all is_key_char ''requires_auth''" "list_all is_key_char ''codec_id''" "list_all is_key_char ''schema_id''"
  "list_all is_key_char ''action''" "list_all is_key_char ''lazy_decode''"
  by (simp_all add: is_key_char_def c_isalnum_def)

lemma route_tag_attrs:
  assumes "printable_route e"
  shows "parse_xml_attributes (render_attr ''id'' (to_string_nat (unat (re_route_id e))) @ render_attrs (route_attrs e)) =
    fold (\<lambda>(k, v). umap_put k v) (route_attrs e) [(''id'', to_string_nat (unat (re_route_id e)))]"
proof -
  have "list_all (\<lambda>(k, v). list_all is_key_char k \<and> k \<noteq> [] \<and> CHR 0x22 \<notin> set v) (route_attrs e)"
    using assms key_chars by (simp add: route_attrs_def printable_route_def)
  then show ?thesis
    using attrs_loop_attr [of "''id''" "to_string_nat (unat (re_route_id e))" "[]" "render_attrs (route_attrs e)" "[]"] key_chars(1)
    by (simp add: parse_xml_attributes_def attrs_loop_attrs umap_put_def)
qed

lemma parse_rendered [simp]:
  "parse_action (render_action a) = Some a" "parse_bool (render_bool b) = Some b"
  by (cases a; simp add: parse_action_def render_action_def trim_copy_def is_blank_def)
    (simp add: parse_bool_def render_bool_def trim_copy_def is_blank_def)

lemma xmldef_entry_rendered:
  assumes "printable_route e"
    and "attrs = fold (\<lambda>(k, v). umap_put k v) (route_attrs e) [(''id'', to_string_nat (unat (re_route_id e)))]"
  shows "xmldef_entry options attrs = Inr e"
proof -
  have find: "find_attr attrs ''id'' = Some (to_string_nat (unat (re_route_id e)))"
    "find_attr attrs ''name'' = Some (re_debug_name e)"
    "find_attr attrs ''direction'' = Some (render_direction (re_direction e))"
    "find_attr attrs ''requires_auth'' = Some (render_bool (re_requires_auth e))"
    "find_attr attrs ''codec_id'' = Some (to_string_nat (unat (re_codec_id e)))"
    "find_attr attrs ''schema_id'' = Some (to_string_nat (unat (re_schema_id e)))"
    "find_attr attrs ''action'' = Some (render_action (rp_action (re_policy e)))"
    "find_attr attrs ''lazy_decode'' = Some (render_bool (rp_lazy_decode (re_policy e)))"
    unfolding assms(2) find_attr_def route_attrs_def by (simp_all add: umap_find_def [of _ "[_]"])
  have dir: "xmldef_direction attrs x = Inr (x\<lparr> re_direction := re_direction e \<rparr>)" for x
    by (cases "re_direction e") (simp_all add: xmldef_direction_def find render_direction_def)
  have auth: "xmldef_auth attrs x = x\<lparr> re_requires_auth := re_requires_auth e \<rparr>" for x
    by (simp add: xmldef_auth_def find render_bool_def)
  have rest: "xmldef_codec attrs x = Inr (x\<lparr> re_codec_id := re_codec_id e \<rparr>)"
    "xmldef_schema attrs x = Inr (x\<lparr> re_schema_id := re_schema_id e \<rparr>)"
    "xmldef_action attrs x = Inr (x\<lparr> re_policy := (re_policy x)\<lparr> rp_action := rp_action (re_policy e) \<rparr> \<rparr>)"
    "xmldef_lazy attrs x = Inr (x\<lparr> re_policy := (re_policy x)\<lparr> rp_lazy_decode := rp_lazy_decode (re_policy e) \<rparr> \<rparr>)" for x
    by (simp_all add: xmldef_codec_def xmldef_schema_def xmldef_action_def xmldef_lazy_def find)
  show ?thesis
    using assms(1) by (cases e; cases "re_policy e")
      (simp add: xmldef_entry_def find dir auth rest printable_route_def new_RouteEntry_def)
qed

lemma xmldef_tag_rendered:
  assumes "printable_route e"
  shows "xmldef_tag options (route_tag e) = Inr (Some e)"
proof -
  let ?attrs = "render_attr ''id'' (to_string_nat (unat (re_route_id e))) @ render_attrs (route_attrs e)"
  have tag: "route_tag e = ''route'' @ CHR '' '' # ?attrs" by (simp add: route_tag_def)
  have "last (route_tag e) = CHR 0x22" by (simp add: route_tag_def route_attrs_def render_attr_def)
  then have trim: "trim_copy (route_tag e) = route_tag e"
    by (intro trim_copy_id) (simp add: tag is_blank_def)
  have name: "takeWhile (\<lambda>c. \<not> (is_blank c \<or> c = CHR ''/'')) (route_tag e) = ''route''"
    "dropWhile (\<lambda>c. \<not> (is_blank c \<or> c = CHR ''/'')) (route_tag e) = CHR '' '' # ?attrs"
    by (simp_all add: tag is_blank_def)
  have hd: "hd (route_tag e) = CHR ''r''" "route_tag e \<noteq> []" by (simp_all add: tag)
  have "xmldef_tag options (route_tag e) = map_sum id Some (xmldef_entry options (parse_xml_attributes ?attrs))"
    unfolding xmldef_tag_def Let_def trim name using hd by simp
  then show ?thesis
    using route_tag_attrs [OF assms] xmldef_entry_rendered [OF assms refl, of options] by simp
qed

lemma xmldef_loop_rendered:
  assumes "printable_route e"
  shows "xmldef_loop options (render_route e @ rest) t =
    (if snd (route_add e t) then xmldef_loop options rest (fst (route_add e t))
     else (False, t, ''xmldef contains duplicate route id or name''))"
proof -
  have no: "list_all (\<lambda>c. c \<noteq> CHR ''>'') (route_tag e)"
    using route_tag_no_close [OF assms] by (auto simp: list_all_iff)
  have xml: "render_route e @ rest = CHR ''<'' # route_tag e @ CHR ''>'' # rest" by (simp add: render_route_def)
  have cut: "takeWhile (\<lambda>c. c \<noteq> CHR ''>'') (route_tag e @ CHR ''>'' # rest) = route_tag e"
    "dropWhile (\<lambda>c. c \<noteq> CHR ''>'') (route_tag e @ CHR ''>'' # rest) = CHR ''>'' # rest"
    using no by (intro takeWhile_stop dropWhile_stop; simp)+
  show ?thesis
  proof (cases rule: xmldef_loop_cases [of "render_route e @ rest" options t])
    case (tag lt after_open r)
    from tag(1) have after: "after_open = route_tag e @ CHR ''>'' # rest" by (simp add: xml)
    then have "r = rest" using tag(3) by (simp add: cut)
    with after tag(5) show ?thesis by (simp add: cut xmldef_tag_rendered [OF assms])
  qed (simp_all add: xml)
qed

lemma load_rendered:
  assumes "list_all printable_route es" "distinct (map re_route_id es)"
    "distinct (filter (\<lambda>n. n \<noteq> []) (map re_debug_name es))" "route_table_inv t"
    "\<forall>e \<in> set es. route_find t (re_route_id e) = None \<and> (re_debug_name e = [] \<or> route_find_by_name t (re_debug_name e) = None)"
  shows "\<exists>t'. xmldef_loop options (concat (map render_route es)) t = (True, t', []) \<and> route_table_inv t' \<and>
    (\<forall>i. route_find t' i = (case map_of (map (\<lambda>e. (re_route_id e, e)) es) i of Some e \<Rightarrow> Some e | None \<Rightarrow> route_find t i))"
  using assms
proof (induction es arbitrary: t)
  case Nil
  have "xmldef_loop options [] t = (True, t, [])" by (simp add: xmldef_loop.simps)
  with Nil show ?case by simp
next
  case (Cons e es)
  let ?t = "fst (route_add e t)"
  have ok: "snd (route_add e t)"
    using routes.add_accepts [OF Cons.prems(4) refl, of e] Cons.prems(5) by simp
  have find: "route_find ?t = (route_find t)(re_route_id e \<mapsto> e)"
    using routes.add_lookup [OF Cons.prems(4) refl, of e] ok by simp
  have inv: "route_table_inv ?t" using Cons.prems(4) by (rule route_add_inv)
  have free: "route_find ?t (re_route_id x) = None \<and> (re_debug_name x = [] \<or> route_find_by_name ?t (re_debug_name x) = None)"
    if x: "x \<in> set es" for x
  proof
    have "re_route_id x \<noteq> re_route_id e" using Cons.prems(2) x by (auto simp: rev_image_eqI)
    then show "route_find ?t (re_route_id x) = None" using Cons.prems(5) x by (simp add: find)
    show "re_debug_name x = [] \<or> route_find_by_name ?t (re_debug_name x) = None"
    proof (rule ccontr)
      assume "\<not> ?thesis"
      then obtain y where y: "route_find_by_name ?t (re_debug_name x) = Some y" "re_debug_name x \<noteq> []" by auto
      then have name: "re_debug_name y = re_debug_name x" and fy: "route_find ?t (re_route_id y) = Some y"
        by (auto simp: route_find_by_name_inv [OF inv])
      have "re_debug_name e \<noteq> re_debug_name x" using Cons.prems(3) x y(2) by (auto split: if_splits)
      then have "y \<noteq> e" using name by auto
      then have "route_find t (re_route_id y) = Some y" using fy by (simp add: find split: if_splits)
      then have "route_find_by_name t (re_debug_name x) = Some y"
        using name y(2) by (simp add: route_find_by_name_inv [OF Cons.prems(4)])
      with Cons.prems(5) x y(2) show False by fastforce
    qed
  qed
  have "\<exists>t'. xmldef_loop options (concat (map render_route es)) ?t = (True, t', []) \<and> route_table_inv t' \<and>
    (\<forall>i. route_find t' i = (case map_of (map (\<lambda>e. (re_route_id e, e)) es) i of Some e \<Rightarrow> Some e | None \<Rightarrow> route_find ?t i))"
    using Cons.prems inv free by (intro Cons.IH) (auto split: if_splits)
  then obtain t' where t': "xmldef_loop options (concat (map render_route es)) ?t = (True, t', [])" "route_table_inv t'"
    "\<And>i. route_find t' i = (case map_of (map (\<lambda>e. (re_route_id e, e)) es) i of Some e \<Rightarrow> Some e | None \<Rightarrow> route_find ?t i)"
    by blast
  have "map_of (map (\<lambda>e. (re_route_id e, e)) es) (re_route_id e) = None"
    using Cons.prems(2) by (auto simp: map_of_eq_None_iff)
  with t' ok find Cons.prems(1) show ?case
    by (intro exI [of _ t']) (auto simp: xmldef_loop_rendered split: option.split)
qed

subsection \<open>Properties\<close>

text \<open>
  C31. Loading a catalog: the loader always returns, keeps the invariant of the table and every route
  that was there, adds only routes with a non-zero id that some tag of the catalog declares, and
  reports success exactly with an empty error; on success every declared route is found under its
  id.
\<close>

theorem xmldef_load_correct:
  assumes "route_table_inv t" "load_xmldef_routes_from_string options xml t = (ok, t', err)"
  shows "route_table_inv t' \<and> (ok \<longleftrightarrow> err = []) \<and>
    (\<forall>i e. route_find t i = Some e \<longrightarrow> route_find t' i = Some e) \<and>
    (\<forall>i e. route_find t' i = Some e \<longrightarrow> route_find t i = Some e \<or> i \<noteq> 0 \<and> e \<in> set (catalog_routes options xml)) \<and>
    (ok \<longrightarrow> (\<forall>e \<in> set (catalog_routes options xml). route_find t' (re_route_id e) = Some e))"
  using assms(1) assms(2) [unfolded load_xmldef_routes_from_string_def] by (rule xmldef_loop_correct)

theorem xmldef_load_correct_witness:
  "\<exists>t' err. load_xmldef_routes_from_string new_XmldefCatalogOptions ''<route name='' empty_RouteTable = (False, t', err) \<and>
     err \<noteq> [] \<and> route_table_inv t'"
proof -
  have l: "load_xmldef_routes_from_string new_XmldefCatalogOptions ''<route name='' empty_RouteTable =
      (False, empty_RouteTable, ''xmldef contains an unterminated tag'')"
    by (simp add: load_xmldef_routes_from_string_def xmldef_loop.simps)
  from xmldef_load_correct [OF route_table_inv_empty l] l show ?thesis by blast
qed

text \<open>
  Catalogs round-trip: a catalog written with one tag per route, every attribute spelled out, is
  loaded without an error into a table with exactly those routes, field by field, provided the ids
  are distinct and non-zero, the names are distinct where they are given and free of quotes and
  closing brackets.
\<close>

theorem xmldef_catalog_roundtrip:
  assumes "list_all printable_route es" "distinct (map re_route_id es)"
    "distinct (filter (\<lambda>n. n \<noteq> []) (map re_debug_name es))"
  shows "\<exists>t. load_xmldef_routes_from_string options (concat (map render_route es)) empty_RouteTable = (True, t, []) \<and>
    route_table_inv t \<and> (\<forall>i. route_find t i = map_of (map (\<lambda>e. (re_route_id e, e)) es) i)"
proof -
  have "\<forall>e \<in> set es. route_find empty_RouteTable (re_route_id e) = None \<and>
      (re_debug_name e = [] \<or> route_find_by_name empty_RouteTable (re_debug_name e) = None)"
    by (simp add: routes.lookup_empty route_find_by_name_def) (simp add: empty_RouteTable_def)
  from load_rendered [OF assms route_table_inv_empty this, of options] obtain t where
    "xmldef_loop options (concat (map render_route es)) empty_RouteTable = (True, t, [])" "route_table_inv t"
    and find: "\<And>i. route_find t i =
      (case map_of (map (\<lambda>e. (re_route_id e, e)) es) i of Some e \<Rightarrow> Some e | None \<Rightarrow> route_find empty_RouteTable i)"
    by blast
  moreover have "route_find t i = map_of (map (\<lambda>e. (re_route_id e, e)) es) i" for i
    using find [of i] by (simp add: routes.lookup_empty split: option.splits)
  ultimately show ?thesis by (auto simp: load_xmldef_routes_from_string_def)
qed

theorem xmldef_catalog_roundtrip_witness:
  "\<exists>t. load_xmldef_routes_from_string new_XmldefCatalogOptions
      (render_route (new_RouteEntry\<lparr> re_route_id := 7, re_debug_name := ''login'' \<rparr>)) empty_RouteTable = (True, t, []) \<and>
    route_find t 7 = Some (new_RouteEntry\<lparr> re_route_id := 7, re_debug_name := ''login'' \<rparr>)"
  using xmldef_catalog_roundtrip [of "[new_RouteEntry\<lparr> re_route_id := 7, re_debug_name := ''login'' \<rparr>]"
      new_XmldefCatalogOptions]
  by (auto simp: printable_route_def new_RouteEntry_def)

end
