(* ===== verification/Pipeline_Config.thy ===== *)
theory Pipeline_Config
  imports Pipeline Xmldef
begin

section \<open>Building a pipeline from its configuration\<close>

text \<open>
  \<open>build_protocol_pipeline_from_json\<close> of \<open>src/src/transport/protocol.cpp\<close> with its parsers of names.
  The function returns a null pointer without an error for an empty configuration, a null pointer
  with an error text, or a pipeline; an exception of the JSON library becomes an error text.  The
  file system (reading a file, \<open>is_relative\<close> and joining paths) and the resolver of external codecs
  are arguments.
\<close>

datatype build_error = ConfigError string | JsonError string

record file_system =
  fs_read :: "string \<Rightarrow> string option"
  fs_is_relative :: "string \<Rightarrow> bool"
  fs_join :: "string \<Rightarrow> string \<Rightarrow> string"

record ProtocolBuildOptions =
  po_source_dir :: string
  po_fallback_max_frame_size :: nat
  po_external_codec_resolver :: "(string \<Rightarrow> string \<Rightarrow> shield_protocol_codec option \<times> string) option"

abbreviation json_call :: "string + 'a \<Rightarrow> build_error + 'a" where
  "json_call r \<equiv> map_sum JsonError id r"

subsection \<open>Names\<close>

definition parse_protocol_endian :: "'j json_api \<Rightarrow> 'j \<Rightarrow> string + Endian option" where
  "parse_protocol_endian J v =
     (if \<not> js_is_string J v then Inr None
      else attempt (js_get_string J v) (\<lambda>t.
        Inr (if t = ''big'' \<or> t = ''be'' then Some Big
             else if t = ''little'' \<or> t = ''le'' then Some Little else None)))"

definition parse_envelope_kind :: "string \<Rightarrow> EnvelopeKind option" where
  "parse_envelope_kind v =
     (if v = ''lenprefix'' \<or> v = ''len-prefix'' \<or> v = ''len_prefix'' then Some LenPrefix
      else if v = ''idlen'' \<or> v = ''id-len'' \<or> v = ''id_len'' then Some IdLen
      else if v = ''typed_len'' \<or> v = ''type_len'' \<or> v = ''typed-len'' \<or> v = ''typelen'' then Some TypeLen
      else if v = ''delimiter'' \<or> v = ''line'' then Some Delimiter
      else None)"

definition parse_route_source :: "string \<Rightarrow> RouteSource option" where
  "parse_route_source v =
     (if v = ''header'' \<or> v = ''header.route_id'' \<or> v = ''header.msg_id'' then Some RS_Header
      else if v = ''body'' \<or> v = ''body.route'' \<or> v = ''body.route_id'' then Some RS_Body
      else if v = ''none'' then Some RS_None
      else None)"

definition default_route_source_for_envelope :: "EnvelopeKind \<Rightarrow> RouteSource" where
  "default_route_source_for_envelope kind =
     (case kind of IdLen \<Rightarrow> RS_Header | TypeLen \<Rightarrow> RS_Header | LenPrefix \<Rightarrow> RS_Body | Delimiter \<Rightarrow> RS_Body)"

subsection \<open>The envelope\<close>

definition build_envelope_kind ::
  "'j json_api \<Rightarrow> 'j \<Rightarrow> ProtocolProfile \<Rightarrow> build_error + ProtocolProfile" where
  "build_envelope_kind J envelope profile =
     (if js_contains J envelope ''type''
      then attempt (json_call (js_get_string J (js_at J envelope ''type''))) (\<lambda>t.
        case parse_envelope_kind t of
          None \<Rightarrow> Inl (ConfigError ''unknown network.protocol.envelope.type'')
        | Some kind \<Rightarrow> Inr (profile\<lparr> pf_envelope_kind := kind \<rparr>))
      else Inr profile)"

definition build_endian ::
  "'j json_api \<Rightarrow> 'j \<Rightarrow> EnvelopeConfig \<Rightarrow> build_error + EnvelopeConfig" where
  "build_endian J envelope c =
     (if js_contains J envelope ''endian''
      then attempt (json_call (parse_protocol_endian J (js_at J envelope ''endian''))) (\<lambda>e.
        case e of
          None \<Rightarrow> Inl (ConfigError ''invalid network.protocol.envelope.endian'')
        | Some endian \<Rightarrow> Inr (c\<lparr> ec_endian := endian \<rparr>))
      else Inr c)"

definition build_delimiter ::
  "'j json_api \<Rightarrow> 'j \<Rightarrow> EnvelopeConfig \<Rightarrow> build_error + EnvelopeConfig" where
  "build_delimiter J envelope c =
     (if js_contains J envelope ''delimiter'' \<and> js_is_string J (js_at J envelope ''delimiter'')
      then attempt (json_call (js_get_string J (js_at J envelope ''delimiter''))) (\<lambda>d.
        Inr (if d = [] then c else c\<lparr> ec_delimiter := of_char (hd d) \<rparr>))
      else Inr c)"

definition build_envelope ::
  "'j json_api \<Rightarrow> 'j \<Rightarrow> ProtocolProfile \<Rightarrow> build_error + ProtocolProfile" where
  "build_envelope J envelope profile =
     (if \<not> js_is_object J envelope then Inr profile
      else
        attempt (build_envelope_kind J envelope profile) (\<lambda>profile.
        attempt (build_endian J envelope (pf_envelope profile)) (\<lambda>c.
        attempt (json_call (js_value_int J envelope ''length_bytes'' 0)) (\<lambda>length_bytes.
        attempt (json_call (js_value_int J envelope ''route_id_bytes'' 0)) (\<lambda>route_id_bytes.
        attempt (json_call (js_value_bool J envelope ''length_includes_header'' False)) (\<lambda>includes.
        attempt (build_delimiter J envelope (c\<lparr> ec_length_bytes := ucast length_bytes,
                   ec_route_id_bytes := ucast route_id_bytes, ec_length_includes_header := includes \<rparr>)) (\<lambda>c.
        attempt (json_call (js_value_size J envelope ''max_frame_size'' 0)) (\<lambda>max_frame_size.
        Inr (profile\<lparr> pf_envelope := c\<lparr> ec_max_frame_size := unat max_frame_size \<rparr> \<rparr>)))))))))"

definition build_limit :: "nat \<Rightarrow> ProtocolProfile \<Rightarrow> ProtocolProfile" where
  "build_limit fallback profile =
     (if ec_max_frame_size (pf_envelope profile) = 0 \<and> 0 < fallback
      then profile\<lparr> pf_envelope := (pf_envelope profile)\<lparr> ec_max_frame_size := fallback \<rparr> \<rparr>
      else profile)"

subsection \<open>The codec\<close>

definition build_codec ::
  "ProtocolBuildOptions \<Rightarrow> string \<Rightarrow> string \<Rightarrow> build_error + BodyCodec" where
  "build_codec options body_provider body_codec =
     (if body_provider \<noteq> []
      then case po_external_codec_resolver options of
          None \<Rightarrow> Inl (ConfigError
            ''network.protocol.body.provider is configured but no external codec resolver is available'')
        | Some resolver \<Rightarrow>
            (case resolver body_provider body_codec of
               (None, resolver_error) \<Rightarrow> Inl (ConfigError
                 (if resolver_error = [] then ''failed to resolve network.protocol.body.provider''
                  else resolver_error))
             | (Some external, _) \<Rightarrow>
                 if pc_codec_name external \<noteq> Some body_codec
                 then Inl (ConfigError ''network.protocol.body.provider does not serve network.protocol.body.codec'')
                 else if (case pc_decode external of None \<Rightarrow> True | Some _ \<Rightarrow> False) \<or>
                         (case pc_encode external of None \<Rightarrow> True | Some _ \<Rightarrow> False)
                 then Inl (ConfigError ''network.protocol.body.provider has incomplete vtable'')
                 else Inr (ExternalBodyCodec body_provider body_codec (Some external)))
      else case create_body_codec body_codec of
          None \<Rightarrow> Inl (ConfigError ''unsupported network.protocol.body.codec'')
        | Some codec \<Rightarrow> Inr codec)"

subsection \<open>Routing\<close>

definition build_route_source ::
  "'j json_api \<Rightarrow> 'j \<Rightarrow> ProtocolProfile \<Rightarrow> build_error + ProtocolProfile" where
  "build_route_source J routing profile =
     (if js_contains J routing ''source'' \<and> js_is_string J (js_at J routing ''source'')
      then attempt (json_call (js_get_string J (js_at J routing ''source''))) (\<lambda>t.
        case parse_route_source t of
          None \<Rightarrow> Inl (ConfigError ''invalid network.protocol.routing.source'')
        | Some source \<Rightarrow> Inr (profile\<lparr> pf_route_source := source \<rparr>))
      else Inr profile)"

text \<open>An action under a key of an object, when it is there and a string.\<close>

definition build_action ::
  "'j json_api \<Rightarrow> 'j \<Rightarrow> string \<Rightarrow> string \<Rightarrow> build_error + RouteAction option" where
  "build_action J obj key message =
     (if js_contains J obj key \<and> js_is_string J (js_at J obj key)
      then attempt (json_call (js_get_string J (js_at J obj key))) (\<lambda>t.
        case parse_action t of
          None \<Rightarrow> Inl (ConfigError message)
        | Some a \<Rightarrow> Inr (Some a))
      else Inr None)"

definition build_routing ::
  "'j json_api \<Rightarrow> 'j \<Rightarrow> ProtocolProfile \<Rightarrow> build_error + ProtocolProfile" where
  "build_routing J routing profile =
     (if \<not> js_is_object J routing then Inr profile
      else
        attempt (build_route_source J routing profile) (\<lambda>profile.
        attempt (json_call (js_value_bool J routing ''decode_body_route'' True)) (\<lambda>body_route.
        attempt (json_call (js_value_bool J routing ''decode_before_dispatch'' False)) (\<lambda>before.
        attempt (build_action J routing ''unknown_route_action''
                   ''invalid network.protocol.routing.unknown_route_action'') (\<lambda>a.
        let profile = profile\<lparr> pf_decode_body_route := body_route, pf_decode_before_dispatch := before \<rparr> in
        Inr (case a of None \<Rightarrow> profile | Some x \<Rightarrow> profile\<lparr> pf_unknown_route_action := x \<rparr>))))))"

subsection \<open>Routes\<close>

definition build_catalog ::
  "'j json_api \<Rightarrow> file_system \<Rightarrow> ProtocolBuildOptions \<Rightarrow> string \<Rightarrow> 'j \<Rightarrow> 'j \<Rightarrow> build_error + RouteTable" where
  "build_catalog J fs options normalized_body_codec body routing =
     (if normalized_body_codec = ''xmldef'' \<and> js_contains J body ''catalog'' \<and>
         js_is_string J (js_at J body ''catalog'')
      then
        attempt (build_action J routing ''default_action'' ''invalid network.protocol.routing.default_action'') (\<lambda>a.
        attempt (json_call (js_value_bool J routing ''lazy_decode'' True)) (\<lambda>lazy.
        attempt (json_call (js_get_string J (js_at J body ''catalog''))) (\<lambda>catalog.
        let catalog_options = \<lparr> xo_default_codec_id = 1,
              xo_default_action = (case a of None \<Rightarrow> DecodeLocal | Some x \<Rightarrow> x),
              xo_default_lazy_decode = lazy \<rparr>;
            path = (if fs_is_relative fs catalog \<and> po_source_dir options \<noteq> []
                    then fs_join fs (po_source_dir options) catalog else catalog) in
        case load_xmldef_routes_from_file (fs_read fs) catalog_options path empty_RouteTable of
          (loaded, routes, catalog_error) \<Rightarrow>
            if loaded then Inr routes
            else Inl (ConfigError (''failed to load xmldef catalog: '' @ catalog_error)))))
      else Inr empty_RouteTable)"

definition json_direction :: "string \<Rightarrow> RouteDirection" where
  "json_direction dir =
     (if dir = ''s2c'' \<or> dir = ''server_to_client'' then ServerToClient
      else if dir = ''bidi'' \<or> dir = ''bidirectional'' then Bidirectional
      else ClientToServer)"

definition json_route_entry :: "'j json_api \<Rightarrow> 'j \<Rightarrow> build_error + RouteEntry" where
  "json_route_entry J route =
     (attempt (json_call (js_value_u32 J route ''id'' 0)) (\<lambda>route_id.
      attempt (json_call (js_value_string J route ''direction'' ''c2s'')) (\<lambda>dir.
      attempt (json_call (js_value_bool J route ''requires_auth'' True)) (\<lambda>auth.
      attempt (json_call (js_value_u16 J route ''codec_id'' 1)) (\<lambda>codec_id.
      attempt (json_call (js_value_u16 J route ''schema_id'' 0)) (\<lambda>schema_id.
      attempt (json_call (js_value_string J route ''name'' [])) (\<lambda>name.
      attempt (json_call (js_value_bool J route ''lazy_decode'' True)) (\<lambda>lazy.
      attempt (build_action J route ''action'' ''invalid network.protocol.routes.action'') (\<lambda>a.
      Inr (new_RouteEntry\<lparr>
        re_route_id := route_id, re_direction := json_direction dir, re_requires_auth := auth,
        re_codec_id := codec_id, re_schema_id := schema_id, re_debug_name := name,
        re_policy := \<lparr> rp_action = (case a of None \<Rightarrow> DecodeLocal | Some x \<Rightarrow> x), rp_lazy_decode = lazy \<rparr> \<rparr>))))))))))"

definition add_json_route :: "'j json_api \<Rightarrow> 'j \<Rightarrow> RouteTable \<Rightarrow> build_error + RouteTable" where
  "add_json_route J route routes =
     (if \<not> js_is_object J route then Inr routes
      else attempt (json_route_entry J route) (\<lambda>entry.
        if re_route_id entry = 0 then Inl (ConfigError ''network.protocol.routes[].id is required'')
        else if re_debug_name entry \<noteq> [] \<and>
                (case route_find_by_name routes (re_debug_name entry) of
                   None \<Rightarrow> False | Some named \<Rightarrow> re_route_id named \<noteq> re_route_id entry)
        then Inl (ConfigError ''network.protocol.routes contains duplicate name'')
        else Inr (route_upsert entry routes)))"

fun add_json_routes :: "'j json_api \<Rightarrow> 'j list \<Rightarrow> RouteTable \<Rightarrow> build_error + RouteTable" where
  "add_json_routes J [] routes = Inr routes"
| "add_json_routes J (r # rs) routes = attempt (add_json_route J r routes) (add_json_routes J rs)"

definition build_routes ::
  "'j json_api \<Rightarrow> 'j \<Rightarrow> RouteTable \<Rightarrow> build_error + RouteTable" where
  "build_routes J config routes =
     (if js_contains J config ''routes'' \<and> js_is_array J (js_at J config ''routes'')
      then add_json_routes J (js_elems J (js_at J config ''routes'')) routes
      else Inr routes)"

subsection \<open>The builder\<close>

definition build_pipeline ::
  "'j json_api \<Rightarrow> file_system \<Rightarrow> ProtocolBuildOptions \<Rightarrow> 'j \<Rightarrow> build_error + ProtocolPipeline" where
  "build_pipeline J fs options config =
     (attempt (json_call (js_value_string J config ''name'' [])) (\<lambda>name.
      attempt (json_call (js_value_json J config ''envelope'' (js_object J))) (\<lambda>envelope.
      attempt (build_envelope J envelope (new_ProtocolProfile\<lparr> pf_name := name \<rparr>)) (\<lambda>profile.
      let profile = build_limit (po_fallback_max_frame_size options) profile;
          profile = profile\<lparr> pf_route_source := default_route_source_for_envelope (pf_envelope_kind profile) \<rparr> in
      attempt (json_call (js_value_json J config ''body'' (js_object J))) (\<lambda>body.
      attempt (json_call (js_value_string J body ''codec'' ''raw'')) (\<lambda>body_codec.
      attempt (json_call (js_value_string J body ''provider'' [])) (\<lambda>body_provider.
      attempt (build_codec options body_provider body_codec) (\<lambda>codec.
      let codecs = fst (registry_add 1 (Some codec) empty_BodyCodecRegistry);
          profile = profile\<lparr> pf_default_codec_id := 1 \<rparr> in
      attempt (json_call (js_value_json J config ''routing'' (js_object J))) (\<lambda>routing.
      attempt (build_routing J routing profile) (\<lambda>profile.
      attempt (build_catalog J fs options (codec_name codec) body routing) (\<lambda>routes.
      attempt (build_routes J config routes) (\<lambda>routes.
      Inr (new_ProtocolPipeline profile routes codecs)))))))))))))"

text \<open>The pipeline, if there is one, and the text the function leaves in \<open>*error\<close>.\<close>

definition build_protocol_pipeline_from_json ::
  "'j json_api \<Rightarrow> file_system \<Rightarrow> ProtocolBuildOptions \<Rightarrow> bytes \<Rightarrow> ProtocolPipeline option \<times> string" where
  "build_protocol_pipeline_from_json J fs options config_json =
     (case js_parse J config_json of
        Inl _ \<Rightarrow> (None, [])
      | Inr config \<Rightarrow>
          if \<not> js_is_object J config \<or> js_empty J config then (None, [])
          else case build_pipeline J fs options config of
            Inl (ConfigError e) \<Rightarrow> (None, e)
          | Inl (JsonError e) \<Rightarrow> (None, ''invalid network.protocol: '' @ e)
          | Inr pl \<Rightarrow> (Some pl, []))"

subsection \<open>What a built pipeline promises\<close>

definition ids_nonzero :: "RouteTable \<Rightarrow> bool" where
  "ids_nonzero t \<longleftrightarrow> route_find t 0 = None"

lemma add_json_route_ok:
  assumes "add_json_route J r t = Inr t'" "route_table_inv t" "ids_nonzero t"
  shows "route_table_inv t' \<and> ids_nonzero t'"
proof (cases "js_is_object J r")
  case True
  then obtain entry where entry: "json_route_entry J r = Inr entry"
    using assms(1) by (cases "json_route_entry J r") (auto simp: add_json_route_def)
  with True assms(1) have id: "re_route_id entry \<noteq> 0"
    and name: "re_debug_name entry \<noteq> [] \<Longrightarrow> route_find_by_name t (re_debug_name entry) = Some named \<Longrightarrow>
      re_route_id named = re_route_id entry"
    and t': "t' = route_upsert entry t" for named
    by (auto simp: add_json_route_def split: if_splits)
  have "re_debug_name entry = [] \<or> route_find_by_name t (re_debug_name entry) = None \<or>
      route_find_by_name t (re_debug_name entry) = route_find t (re_route_id entry)"
  proof (cases "route_find_by_name t (re_debug_name entry)")
    case (Some named)
    show ?thesis
    proof (cases "re_debug_name entry = []")
      case False
      with name [OF False Some] Some show ?thesis by (simp add: route_find_by_name_inv [OF assms(2)])
    qed simp
  qed simp
  with assms(2) have "route_table_inv t'" unfolding t' by (rule route_upsert_inv)
  with t' id assms(3) show ?thesis by (simp add: ids_nonzero_def)
qed (use assms in \<open>simp add: add_json_route_def\<close>)

lemma add_json_routes_ok:
  "add_json_routes J rs t = Inr t' \<Longrightarrow> route_table_inv t \<Longrightarrow> ids_nonzero t \<Longrightarrow> route_table_inv t' \<and> ids_nonzero t'"
proof (induction rs arbitrary: t)
  case (Cons r rs)
  from Cons.prems(1) obtain t1 where t1: "add_json_route J r t = Inr t1" "add_json_routes J rs t1 = Inr t'"
    by (auto simp: attempt_eq_Inr)
  from add_json_route_ok [OF t1(1) Cons.prems(2,3)] Cons.IH [OF t1(2)] show ?case by simp
qed simp

lemma build_routes_ok:
  assumes "build_routes J config t = Inr t'" "route_table_inv t" "ids_nonzero t"
  shows "route_table_inv t' \<and> ids_nonzero t'"
proof (cases "js_contains J config ''routes'' \<and> js_is_array J (js_at J config ''routes'')")
  case True
  with assms(1) have "add_json_routes J (js_elems J (js_at J config ''routes'')) t = Inr t'"
    by (simp add: build_routes_def)
  then show ?thesis using assms(2,3) by (rule add_json_routes_ok)
qed (use assms in \<open>auto simp: build_routes_def split: if_splits\<close>)

lemma load_xmldef_ok:
  assumes "load_xmldef_routes_from_file rd options path empty_RouteTable = (ok, t, err)"
  shows "route_table_inv t \<and> ids_nonzero t"
proof (cases "rd path")
  case None
  with assms show ?thesis by (auto simp: load_xmldef_routes_from_file_def ids_nonzero_def routes.lookup_empty)
next
  case (Some content)
  with assms have "xmldef_loop options content empty_RouteTable = (ok, t, err)"
    by (simp add: load_xmldef_routes_from_file_def load_xmldef_routes_from_string_def)
  from xmldef_loop_correct [OF route_table_inv_empty this] show ?thesis
    by (cases "route_find t 0") (auto simp: ids_nonzero_def routes.lookup_empty)
qed

lemma build_catalog_ok:
  assumes "build_catalog J fs options codec body routing = Inr t"
  shows "route_table_inv t \<and> ids_nonzero t"
proof (cases "codec = ''xmldef'' \<and> js_contains J body ''catalog'' \<and> js_is_string J (js_at J body ''catalog'')")
  case False
  with assms have "t = empty_RouteTable" by (simp add: build_catalog_def)
  then show ?thesis by (simp add: ids_nonzero_def routes.lookup_empty)
next
  case True
  from assms True obtain rd opts path where
    "(case load_xmldef_routes_from_file rd opts path empty_RouteTable of
        (loaded, routes, e) \<Rightarrow> if loaded then Inr routes
          else Inl (ConfigError (''failed to load xmldef catalog: '' @ e))) = Inr t"
    by (simp only: build_catalog_def attempt_eq_Inr Let_def if_True simp_thms) blast
  moreover obtain loaded t0 e where "load_xmldef_routes_from_file rd opts path empty_RouteTable = (loaded, t0, e)"
    by (metis prod_cases3)
  ultimately have "load_xmldef_routes_from_file rd opts path empty_RouteTable = (True, t, e)"
    by (simp split: if_splits)
  then show ?thesis by (rule load_xmldef_ok)
qed

lemma build_route_source_kept:
  "build_route_source J routing p = Inr p' \<Longrightarrow> \<exists>src. p' = p\<lparr> pf_route_source := src \<rparr>"
  by (auto simp: build_route_source_def attempt_eq_Inr split: if_splits option.splits
      intro: exI [of _ "pf_route_source p"])

lemma build_routing_kept:
  assumes "build_routing J routing profile = Inr profile'"
  shows "\<exists>src body_route before unknown. profile' = profile\<lparr> pf_route_source := src,
    pf_decode_body_route := body_route, pf_decode_before_dispatch := before, pf_unknown_route_action := unknown \<rparr>"
proof (cases "js_is_object J routing")
  case False
  with assms have "profile' = profile\<lparr> pf_route_source := pf_route_source profile,
      pf_decode_body_route := pf_decode_body_route profile,
      pf_decode_before_dispatch := pf_decode_before_dispatch profile,
      pf_unknown_route_action := pf_unknown_route_action profile \<rparr>"
    by (simp add: build_routing_def)
  then show ?thesis by blast
next
  case True
  with assms obtain p1 body_route before a where p1: "build_route_source J routing profile = Inr p1"
    and "(let p = p1\<lparr> pf_decode_body_route := body_route, pf_decode_before_dispatch := before \<rparr> in
      Inr (case a of None \<Rightarrow> p | Some x \<Rightarrow> p\<lparr> pf_unknown_route_action := x \<rparr>) :: build_error + ProtocolProfile) = Inr profile'"
    by (simp only: build_routing_def attempt_eq_Inr if_False simp_thms) blast
  moreover from build_route_source_kept [OF p1] obtain src where "p1 = profile\<lparr> pf_route_source := src \<rparr>" by blast
  ultimately have "profile' = profile\<lparr> pf_route_source := src, pf_decode_body_route := body_route,
      pf_decode_before_dispatch := before,
      pf_unknown_route_action := (case a of None \<Rightarrow> pf_unknown_route_action profile | Some x \<Rightarrow> x) \<rparr>"
    by (cases a; cases profile) (auto simp: Let_def)
  then show ?thesis by blast
qed

lemma registry_add_first: "registry_find (fst (registry_add i (Some c) empty_BodyCodecRegistry)) i = Some c"
  by (auto simp: registry_add_def registry_find_def empty_BodyCodecRegistry_def Let_def)

lemma build_limit_positive: "0 < n \<Longrightarrow> 0 < ec_max_frame_size (pf_envelope (build_limit n profile))"
  by (simp add: build_limit_def)

definition pipeline_wf :: "ProtocolPipeline \<Rightarrow> bool" where
  "pipeline_wf pl \<longleftrightarrow>
     route_table_inv (pp_routes pl) \<and> ids_nonzero (pp_routes pl) \<and>
     registry_find (pp_codecs pl) (pf_default_codec_id (pp_profile pl)) \<noteq> None \<and>
     pp_envelope pl = Some (create_envelope (pf_envelope_kind (pp_profile pl)) (pf_envelope (pp_profile pl))) \<and>
     pp_error pl = []"

lemma build_pipeline_wf:
  assumes "build_pipeline J fs options config = Inr pl"
  shows "pipeline_wf pl \<and>
    (0 < po_fallback_max_frame_size options \<longrightarrow> 0 < ec_max_frame_size (pf_envelope (pp_profile pl)))"
proof -
  from assms obtain envelope profile profile' codec body routing routes0 routes where
    "build_routing J routing ((build_limit (po_fallback_max_frame_size options) profile)\<lparr> pf_route_source :=
        default_route_source_for_envelope (pf_envelope_kind (build_limit (po_fallback_max_frame_size options) profile)),
        pf_default_codec_id := 1 \<rparr>) = Inr profile'"
    and cat: "build_catalog J fs options (codec_name codec) body routing = Inr routes0"
    and routes: "build_routes J config routes0 = Inr routes"
    and pl: "pl = new_ProtocolPipeline profile' routes (fst (registry_add 1 (Some codec) empty_BodyCodecRegistry))"
    by (simp only: build_pipeline_def attempt_eq_Inr Let_def sum.inject) blast
  from build_routing_kept [OF this(1)]
  have kept: "pf_envelope profile' = pf_envelope (build_limit (po_fallback_max_frame_size options) profile)"
    "pf_default_codec_id profile' = 1"
    by auto
  have "route_table_inv routes \<and> ids_nonzero routes"
    using build_routes_ok [OF routes] build_catalog_ok [OF cat] by blast
  with kept registry_add_first [of 1 codec] build_limit_positive [of "po_fallback_max_frame_size options" profile]
  show ?thesis by (simp add: pl pipeline_wf_def new_ProtocolPipeline_def)
qed

lemma wf_resolve_error:
  assumes "pipeline_wf pl" "resolve_route J pl p = (p', route, err)"
  shows "err = []"
  using assms by (auto simp: pipeline_wf_def resolve_route_def split: option.splits if_splits)

subsection \<open>Properties\<close>

text \<open>
  C30. Every pipeline the builder returns is well formed: its name index is exact, no route has id
  zero, its default codec is registered, its envelope is the fresh one of its profile, and a
  positive fallback limit means a positive frame limit.
\<close>

theorem built_pipeline_wf:
  assumes "build_protocol_pipeline_from_json J fs options config_json = (Some pl, err)"
  shows "err = [] \<and> pipeline_wf pl \<and>
    (0 < po_fallback_max_frame_size options \<longrightarrow> 0 < ec_max_frame_size (pf_envelope (pp_profile pl)))"
proof -
  from assms obtain config where config: "js_parse J config_json = Inr config" "js_is_object J config" "\<not> js_empty J config"
    by (cases "js_parse J config_json") (auto simp: build_protocol_pipeline_from_json_def split: if_splits)
  with assms have "build_pipeline J fs options config = Inr pl \<and> err = []"
    by (cases "build_pipeline J fs options config")
      (auto simp: build_protocol_pipeline_from_json_def split: build_error.splits)
  then show ?thesis using build_pipeline_wf [of J fs options config pl] by simp
qed

definition sample_config :: sample where
  "sample_config = SObj [(''body'', SObj [(''codec'', SStr ''json'')]),
     (''routes'', SArr [SObj [(''id'', SNum 7), (''name'', SStr ''login'')]])]"

definition sample_options :: ProtocolBuildOptions where
  "sample_options = \<lparr> po_source_dir = [], po_fallback_max_frame_size = 64, po_external_codec_resolver = None \<rparr>"

definition sample_fs :: file_system where
  "sample_fs = \<lparr> fs_read = (\<lambda>_. None), fs_is_relative = (\<lambda>_. True), fs_join = (\<lambda>a b. a @ ''/'' @ b) \<rparr>"

theorem built_pipeline_wf_witness:
  "\<exists>pl. build_protocol_pipeline_from_json (sample_api [(sample_config, [1])]) sample_fs sample_options [1] = (Some pl, []) \<and>
     pipeline_wf pl \<and> 0 < ec_max_frame_size (pf_envelope (pp_profile pl))"
proof -
  let ?J = "sample_api [(sample_config, [1])]"
  have env: "build_envelope ?J (SObj []) profile = Inr (profile\<lparr> pf_envelope := (pf_envelope profile)\<lparr>
      ec_length_bytes := 0, ec_route_id_bytes := 0, ec_length_includes_header := False, ec_max_frame_size := 0 \<rparr> \<rparr>)" for profile
    by (simp add: build_envelope_def build_envelope_kind_def build_endian_def build_delimiter_def sample_api_def s_value_def)
  have codec: "build_codec sample_options [] ''json'' = Inr JsonBodyCodec"
    by (simp add: build_codec_def create_body_codec_def)
  have routing: "build_routing ?J (SObj []) profile =
      Inr (profile\<lparr> pf_decode_body_route := True, pf_decode_before_dispatch := False \<rparr>)" for profile
    by (simp add: build_routing_def build_route_source_def build_action_def sample_api_def s_value_def)
  have cat: "build_catalog ?J sample_fs sample_options ''json'' body r = Inr empty_RouteTable" for body r
    by (simp add: build_catalog_def)
  have entry: "json_route_entry ?J (SObj [(''id'', SNum 7), (''name'', SStr ''login'')]) =
      Inr (new_RouteEntry\<lparr> re_route_id := 7, re_codec_id := 1, re_debug_name := ''login'' \<rparr>)"
    by (simp add: json_route_entry_def build_action_def sample_api_def s_value_def json_direction_def new_RouteEntry_def)
  have r: "js_contains ?J sample_config ''routes''" "js_is_array ?J (js_at ?J sample_config ''routes'')"
    "js_elems ?J (js_at ?J sample_config ''routes'') = [SObj [(''id'', SNum 7), (''name'', SStr ''login'')]]"
    "js_is_object ?J (SObj [(''id'', SNum 7), (''name'', SStr ''login'')])"
    by (simp_all add: sample_api_def sample_config_def)
  have "route_find_by_name empty_RouteTable n = None" for n
    by (simp add: route_find_by_name_def empty_RouteTable_def)
  then have routes: "\<exists>t. build_routes ?J sample_config empty_RouteTable = Inr t"
    by (simp add: build_routes_def r add_json_route_def entry)
  have vals: "js_value_string ?J sample_config ''name'' [] = Inr []"
    "js_value_json ?J sample_config ''envelope'' (js_object ?J) = Inr (SObj [])"
    "js_value_json ?J sample_config ''body'' (js_object ?J) = Inr (SObj [(''codec'', SStr ''json'')])"
    "js_value_json ?J sample_config ''routing'' (js_object ?J) = Inr (SObj [])"
    "js_value_string ?J (SObj [(''codec'', SStr ''json'')]) ''codec'' ''raw'' = Inr ''json''"
    "js_value_string ?J (SObj [(''codec'', SStr ''json'')]) ''provider'' [] = Inr []"
    by (simp_all add: sample_api_def sample_config_def s_value_def)
  have "\<exists>pl. build_pipeline ?J sample_fs sample_options sample_config = Inr pl"
    using routes by (auto simp: build_pipeline_def vals env codec routing cat codec_name_def Let_def)
  then obtain pl where pl: "build_pipeline ?J sample_fs sample_options sample_config = Inr pl" ..
  have "js_parse ?J [1] = Inr sample_config" "js_is_object ?J sample_config" "\<not> js_empty ?J sample_config"
    by (simp_all add: sample_api_def sample_config_def)
  with pl have b: "build_protocol_pipeline_from_json ?J sample_fs sample_options [1] = (Some pl, [])"
    by (simp add: build_protocol_pipeline_from_json_def)
  from built_pipeline_wf [OF b] b show ?thesis by (auto simp: sample_options_def)
qed

text \<open>
  A well-formed pipeline never misses its codec: the only error its dispatch can report is a
  failed decode, with the text of the codec.
\<close>

theorem wf_dispatch_errors:
  assumes "pipeline_wf pl"
  shows "dr_error (dispatch_packet J pl p) = [] \<or>
    (\<exists>codec route e. registry_find (pp_codecs pl) (pf_default_codec_id (pp_profile pl)) = Some codec \<and>
       dr_route (dispatch_packet J pl p) = Some route \<and>
       codec_decode J codec (dr_packet (dispatch_packet J pl p)) route = Inl e \<and>
       dr_error (dispatch_packet J pl p) = ''body decode failed: '' @ e)"
proof -
  obtain p' route err where res: "resolve_route J pl p = (p', route, err)" by (metis prod_cases3)
  with wf_resolve_error [OF assms] have err: "err = []" by blast
  obtain codec where codec: "registry_find (pp_codecs pl) (pf_default_codec_id (pp_profile pl)) = Some codec"
    using assms by (auto simp: pipeline_wf_def)
  show ?thesis
  proof (cases route)
    case None
    with res err show ?thesis by (simp add: dispatch_packet_def result_ok_def)
  next
    case (Some r)
    let ?res = "new_DispatchResult\<lparr> dr_packet := p', dr_route := Some r, dr_error := [], dr_action := rp_action (re_policy r) \<rparr>"
    have "dispatch_packet J pl p = ?res \<or> dispatch_packet J pl p = decode_result J pl r ?res"
      using Some res err by (auto simp: dispatch_packet_def result_ok_def Let_def)
    then show ?thesis
    proof
      assume "dispatch_packet J pl p = decode_result J pl r ?res"
      with codec show ?thesis
        by (cases "codec_decode J codec p' r") (simp_all add: decode_result_def codec_for_route_def)
    qed simp
  qed
qed

theorem wf_dispatch_errors_witness:
  "dr_error (dispatch_packet sample_J (new_ProtocolPipeline sample_profile sample_routes sample_codecs) new_Packet) = []"
proof -
  let ?pl = "new_ProtocolPipeline sample_profile sample_routes sample_codecs"
  have wf: "pipeline_wf ?pl"
    using sample_routes_inv sample_routes_find [of 0] sample_codecs_find
    by (simp add: pipeline_wf_def new_ProtocolPipeline_def ids_nonzero_def sample_profile_def)
  have "resolve_route sample_J ?pl new_Packet = (new_Packet, None, [])"
    by (simp add: resolve_route_def new_ProtocolPipeline_def new_Packet_def sample_profile_def new_ProtocolProfile_def
        sample_codecs_find codec_route_key_def sample_J_def sample_api_def)
  then have "dr_route (dispatch_packet sample_J ?pl new_Packet) = None"
    by (simp add: dispatch_packet_def result_ok_def)
  with wf_dispatch_errors [OF wf, of sample_J new_Packet] show ?thesis by simp
qed

end
