(* ===== verification/Session.thy ===== *)
theory Session
  imports Pipeline Frame
begin

section \<open>TCP sessions\<close>

text \<open>
  \<open>TcpSession\<close> of \<open>src/include/shield/net/session.hpp\<close> and \<open>src/src/net/session.cpp\<close>.

  \<open>send\<close>, \<open>send_message\<close> and \<open>close\<close> may be called from any thread, while the handlers of the strand (the
  posted closures and the completion handlers) run one after the other.  The model cuts callers and
  handlers at their accesses to the atomic members \<open>alive_\<close> and \<open>queued_count_\<close> and at their calls of
  callbacks, so that an action makes at most one such access.  Callers: one that passed the liveness check
  waits in \<open>ss_checked\<close>, one that reserved a slot but found the queue full in \<open>ss_over\<close> (a number), one
  that reserved a slot and has not posted yet in \<open>ss_admitted\<close>, one that won the compare-exchange of
  \<open>close\<close> but has not posted the drop yet in \<open>ss_closing\<close>.  The strand: \<open>ss_strand\<close> holds the posted
  closures in order, and \<open>ss_handler\<close> is the point the running handler has reached.

  \<open>session_act\<close> is one action; \<open>None\<close> means that it is not enabled.  Every interleaving is a sequence of
  actions, and so is everything a callback may do: \<open>on_packet\<close> and \<open>on_message\<close> are called at the end of a
  step of the read handler, and the sends and closes they make are actions between that step and the
  next.  A read or a write is aborted only by closing the socket, which \<open>close\<close> does after clearing
  \<open>alive_\<close>.  The post of the drop and the call of \<open>on_disconnect\<close> are one action; what that callback does
  are again actions of their own.

  The atomic counter \<open>queued_count_\<close> is an integer, so that an underflow would show as a negative value.
  \<open>ss_writing\<close> counts the \<open>async_write\<close> operations that are outstanding or whose frame is not popped yet;
  \<open>ss_reading\<close> and \<open>ss_waits\<close> count the outstanding reads and deadline waits, and \<open>ss_starts\<close> the calls of
  \<open>start\<close>.  A cancelled wait may still report expiry when its handler was already queued, so each wait may
  end either way.  \<open>ss_enqueued\<close>, \<open>ss_written\<close>, \<open>ss_packets\<close>, \<open>ss_messages\<close> and \<open>ss_disconnects\<close> record the
  frames pushed to the queue, the frames whose write completed, what \<open>on_packet\<close> and \<open>on_message\<close> were
  called with, and the reasons \<open>on_disconnect\<close> was called with.
\<close>

datatype 'j job = SendFrame bytes | SendMessage "'j DecodedBody" | DropQueue

text \<open>
  The points between the atomic accesses of the strand handlers: none is running; a send closure has to
  release its slot or to push its frame; the completion of a write has to release the slot, to pop the
  frame, or to report its error; the deadline has expired on a live session; the read handler has results
  or frames left to hand out.
\<close>

datatype 'j handler =
    HIdle
  | HRelease
  | HPush bytes
  | HWritten
  | HPop
  | HWriteError string
  | HTimeout
  | HDeliver "'j DispatchResult list"
  | HDeliverFrames "bytes list"

record RemoteAddress =
  ra_ip :: string
  ra_port :: u16

definition remote_to_string :: "RemoteAddress \<Rightarrow> string" where
  "remote_to_string a = ra_ip a @ '':'' @ to_string_nat (unat (ra_port a))"

record 'j session =
  ss_id :: u64
  ss_remote_addr :: RemoteAddress
  ss_user_data :: "(string, string) umap"
  ss_target_service :: string
  ss_player_id :: string
  ss_epoch :: u32
  ss_read_idle_timeout_ms :: u32
  ss_max_send_queue :: nat
  ss_alive :: bool
  ss_queued_count :: int
  ss_send_queue :: "bytes list"
  ss_send_in_progress :: bool
  ss_pipeline :: "ProtocolPipeline option"
  ss_decoder :: FrameDecoder
  ss_error_code :: string
  ss_checked :: "'j job list"
  ss_over :: nat
  ss_admitted :: "'j job list"
  ss_strand :: "'j job list"
  ss_handler :: "'j handler"
  ss_writing :: nat
  ss_reading :: nat
  ss_waits :: nat
  ss_starts :: nat
  ss_closing :: "string list"
  ss_enqueued :: "bytes list"
  ss_written :: "bytes list"
  ss_packets :: "'j DispatchResult list"
  ss_messages :: "bytes list"
  ss_disconnects :: "string list"

definition new_session ::
  "u64 \<Rightarrow> RemoteAddress \<Rightarrow> ProtocolPipeline option \<Rightarrow> nat \<Rightarrow> nat \<Rightarrow> u32 \<Rightarrow> 'j session" where
  "new_session i addr pipeline max_frame_size max_send_queue read_idle_timeout_ms =
     \<lparr> ss_id = i, ss_remote_addr = addr, ss_user_data = [], ss_target_service = [], ss_player_id = [],
       ss_epoch = 0, ss_read_idle_timeout_ms = read_idle_timeout_ms, ss_max_send_queue = max_send_queue,
       ss_alive = True, ss_queued_count = 0, ss_send_queue = [], ss_send_in_progress = False,
       ss_pipeline = pipeline, ss_decoder = new_FrameDecoder max_frame_size, ss_error_code = [],
       ss_checked = [], ss_over = 0, ss_admitted = [], ss_strand = [], ss_handler = HIdle, ss_writing = 0,
       ss_reading = 0, ss_waits = 0, ss_starts = 0, ss_closing = [], ss_enqueued = [], ss_written = [],
       ss_packets = [], ss_messages = [], ss_disconnects = [] \<rparr>"

subsection \<open>Bindings\<close>

definition has_protocol_pipeline :: "'j session \<Rightarrow> bool" where
  "has_protocol_pipeline st = (ss_pipeline st \<noteq> None)"

definition protocol_codec_name :: "'j session \<Rightarrow> string" where
  "protocol_codec_name st = (case ss_pipeline st of None \<Rightarrow> [] | Some pl \<Rightarrow> default_codec_name pl)"

definition set_user_data :: "string \<Rightarrow> string \<Rightarrow> 'j session \<Rightarrow> 'j session" where
  "set_user_data key val st = st\<lparr> ss_user_data := umap_put key val (ss_user_data st) \<rparr>"

definition get_user_data :: "string \<Rightarrow> 'j session \<Rightarrow> string" where
  "get_user_data key st = (case umap_find key (ss_user_data st) of Some v \<Rightarrow> v | None \<Rightarrow> [])"

definition set_target_service :: "string \<Rightarrow> 'j session \<Rightarrow> 'j session" where
  "set_target_service name st = st\<lparr> ss_target_service := name \<rparr>"

definition set_player_id :: "string \<Rightarrow> 'j session \<Rightarrow> 'j session" where
  "set_player_id pid st = st\<lparr> ss_player_id := pid \<rparr>"

definition set_epoch :: "u32 \<Rightarrow> 'j session \<Rightarrow> 'j session" where
  "set_epoch epoch st = st\<lparr> ss_epoch := epoch \<rparr>"

subsection \<open>Sending\<close>

text \<open>The liveness check of \<open>send\<close> and \<open>send_message\<close>: \<open>Inl\<close> is what the call returns at once.\<close>

definition send_check :: "bytes \<Rightarrow> 'j session \<Rightarrow> (bool \<times> string) + 'j job" where
  "send_check data st =
     (if \<not> ss_alive st then Inl (False, ''session is closed'')
      else if data = [] then Inl (True, [])
      else Inr (SendFrame data))"

definition send_message_check :: "'j DecodedBody \<Rightarrow> 'j session \<Rightarrow> (bool \<times> string) + 'j job" where
  "send_message_check message st =
     (if \<not> ss_alive st then Inl (False, ''session is closed'')
      else if ss_pipeline st = None then Inl (False, ''protocol pipeline is not configured'')
      else Inr (SendMessage message))"

text \<open>The \<open>fetch_add\<close> and the comparison of its result with the limit.\<close>

definition reserve_slot :: "'j job \<Rightarrow> 'j session \<Rightarrow> 'j session" where
  "reserve_slot job st =
     (let reserved = ss_queued_count st;
          st' = st\<lparr> ss_queued_count := reserved + 1 \<rparr> in
      if 0 < ss_max_send_queue st \<and> int (ss_max_send_queue st) \<le> reserved
      then st'\<lparr> ss_over := ss_over st + 1 \<rparr>
      else st'\<lparr> ss_admitted := ss_admitted st @ [job] \<rparr>)"

definition release_slots :: "nat \<Rightarrow> 'j session \<Rightarrow> 'j session" where
  "release_slots n st = st\<lparr> ss_queued_count := ss_queued_count st - int n \<rparr>"

definition do_async_write :: "'j session \<Rightarrow> 'j session" where
  "do_async_write st =
     (if \<not> ss_alive st \<or> ss_send_queue st = [] then st\<lparr> ss_send_in_progress := False \<rparr>
      else st\<lparr> ss_writing := ss_writing st + 1 \<rparr>)"

definition enqueue_frame :: "bytes \<Rightarrow> 'j session \<Rightarrow> 'j session" where
  "enqueue_frame frame st =
     (let st' = st\<lparr> ss_send_queue := ss_send_queue st @ [frame], ss_enqueued := ss_enqueued st @ [frame] \<rparr> in
      if \<not> ss_send_in_progress st' then do_async_write (st'\<lparr> ss_send_in_progress := True \<rparr>) else st')"

subsection \<open>Closing\<close>

definition error_code_of :: "string \<Rightarrow> string" where
  "error_code_of reason =
     (if contains_substring ''idle'' reason then ''read_idle_timeout''
      else if contains_substring ''decode'' reason \<or> contains_substring ''frame'' reason then ''decode_error''
      else if contains_substring ''timeout'' reason then ''handshake_timeout''
      else ''session_closed'')"

definition close_session :: "string \<Rightarrow> 'j session \<Rightarrow> 'j session" where
  "close_session reason st =
     (if \<not> ss_alive st then st else st\<lparr> ss_alive := False, ss_closing := ss_closing st @ [reason] \<rparr>)"

definition handle_error :: "string \<Rightarrow> 'j session \<Rightarrow> 'j session" where
  "handle_error reason st = close_session reason (st\<lparr> ss_error_code := error_code_of reason \<rparr>)"

definition drop_queue :: "'j session \<Rightarrow> 'j session" where
  "drop_queue st =
     (let dropped = length (ss_send_queue st);
          st' = st\<lparr> ss_send_queue := [] \<rparr>;
          st'' = (if 0 < dropped then release_slots dropped st' else st') in
      st''\<lparr> ss_send_in_progress := False \<rparr>)"

subsection \<open>Handlers on the strand\<close>

text \<open>
  The beginning of a handler, up to its first atomic access: the liveness check of a send closure, the
  whole drop.  \<open>None\<close> is an exception that leaves the handler, or a missing pipeline, which
  \<open>send_message\<close> has ruled out.
\<close>

definition run_send_frame :: "bytes \<Rightarrow> 'j session \<Rightarrow> 'j session" where
  "run_send_frame frame st = st\<lparr> ss_handler := (if \<not> ss_alive st then HRelease else HPush frame) \<rparr>"

definition run_send_message :: "'j json_api \<Rightarrow> 'j DecodedBody \<Rightarrow> 'j session \<Rightarrow> 'j session option" where
  "run_send_message J message st =
     (if \<not> ss_alive st then Some (st\<lparr> ss_handler := HRelease \<rparr>)
      else case ss_pipeline st of
        None \<Rightarrow> None
      | Some pl \<Rightarrow>
          (case encode_message J pl message of
             Inl _ \<Rightarrow> None
           | Inr (encoded, pl') \<Rightarrow>
               let st' = st\<lparr> ss_pipeline := Some pl' \<rparr> in
               if pp_error pl' \<noteq> [] \<or> encoded = [] then Some (st'\<lparr> ss_handler := HRelease \<rparr>)
               else Some (st'\<lparr> ss_handler := HPush encoded \<rparr>)))"

definition run_job :: "'j json_api \<Rightarrow> 'j job \<Rightarrow> 'j session \<Rightarrow> 'j session option" where
  "run_job J job st =
     (case job of
        SendFrame frame \<Rightarrow> Some (run_send_frame frame st)
      | SendMessage message \<Rightarrow> run_send_message J message st
      | DropQueue \<Rightarrow> Some (drop_queue st))"

text \<open>The completion handler of \<open>async_write\<close>: its liveness check, and the pop after the slot is released.\<close>

datatype write_result = WriteOk | WriteAborted | WriteFailed string

definition end_write :: "'j session \<Rightarrow> 'j session" where
  "end_write st = st\<lparr> ss_handler := HIdle, ss_writing := ss_writing st - 1 \<rparr>"

definition write_completed :: "write_result \<Rightarrow> 'j session \<Rightarrow> 'j session" where
  "write_completed r st =
     (if \<not> ss_alive st \<or> r = WriteAborted then end_write st
      else case r of
        WriteFailed message \<Rightarrow> st\<lparr> ss_handler := HWriteError (''send error: '' @ message) \<rparr>
      | _ \<Rightarrow> st\<lparr> ss_handler := HWritten \<rparr>)"

definition pop_written :: "'j session \<Rightarrow> 'j session" where
  "pop_written st =
     do_async_write ((end_write st)\<lparr>
       ss_send_queue := tl (ss_send_queue st), ss_written := ss_written st @ take 1 (ss_send_queue st) \<rparr>)"

subsection \<open>Receiving\<close>

datatype read_result = ReadBytes bytes | ReadAborted | ReadFailed string

definition receive_buffer_size :: nat where
  "receive_buffer_size = 64 * 1024"

definition do_receive :: "'j session \<Rightarrow> 'j session" where
  "do_receive st =
     (if \<not> ss_alive st then st
      else let st' = (if 0 < ss_read_idle_timeout_ms st then st\<lparr> ss_waits := ss_waits st + 1 \<rparr> else st) in
           st'\<lparr> ss_reading := ss_reading st + 1 \<rparr>)"

text \<open>\<open>start\<close> after its \<open>on_connect\<close> callback.\<close>

definition start_session :: "'j session \<Rightarrow> 'j session" where
  "start_session st = do_receive (st\<lparr> ss_starts := ss_starts st + 1 \<rparr>)"

definition wait_completed :: "bool \<Rightarrow> 'j session \<Rightarrow> 'j session" where
  "wait_completed expired st =
     (if \<not> expired then st
      else if ss_alive st then st\<lparr> ss_handler := HTimeout \<rparr>
      else st)"

text \<open>
  The completion handler of \<open>async_read_some\<close> up to its loop over the results or frames.  It does not look
  at \<open>alive_\<close>.  \<open>None\<close> is a feed that does not return.
\<close>

definition receive_packets :: "'j json_api \<Rightarrow> ProtocolPipeline \<Rightarrow> bytes \<Rightarrow> 'j session \<Rightarrow> 'j session option" where
  "receive_packets J pl bs st =
     (case pipeline_feed J pl (Some bs) (length bs) of
        None \<Rightarrow> None
      | Some (results, pl') \<Rightarrow>
          let st' = st\<lparr> ss_pipeline := Some pl' \<rparr> in
          if pp_error pl' \<noteq> [] then Some (handle_error (''protocol decode error: '' @ pp_error pl') st')
          else Some (st'\<lparr> ss_handler := HDeliver results \<rparr>))"

definition receive_frames :: "bytes \<Rightarrow> 'j session \<Rightarrow> 'j session" where
  "receive_frames bs st =
     (case decoder_feed (ss_decoder st) bs of
        (frames, d) \<Rightarrow>
          let st' = st\<lparr> ss_decoder := d \<rparr> in
          if fd_error d \<noteq> [] then handle_error (''frame decode error: '' @ fd_error d) st'
          else st'\<lparr> ss_handler := HDeliverFrames (map fr_payload frames) \<rparr>)"

definition read_completed :: "'j json_api \<Rightarrow> read_result \<Rightarrow> 'j session \<Rightarrow> 'j session option" where
  "read_completed J r st =
     (case r of
        ReadAborted \<Rightarrow> Some st
      | ReadFailed message \<Rightarrow> Some (handle_error (''receive error: '' @ message) st)
      | ReadBytes bs \<Rightarrow>
          (case ss_pipeline st of
             Some pl \<Rightarrow> receive_packets J pl bs st
           | None \<Rightarrow> Some (receive_frames bs st)))"

text \<open>One round of the loop over the results, up to and including the call of \<open>on_packet\<close>.\<close>

definition deliver_result ::
  "'j json_api \<Rightarrow> ProtocolPipeline \<Rightarrow> 'j DispatchResult \<Rightarrow> 'j DispatchResult list \<Rightarrow> 'j session \<Rightarrow> 'j session" where
  "deliver_result J pl r rs st =
     (if \<not> result_ok r then handle_error (''protocol dispatch error: '' @ dr_error r) (st\<lparr> ss_handler := HIdle \<rparr>)
      else if should_drop r then st\<lparr> ss_handler := HDeliver rs \<rparr>
      else if dr_action r = DecodeLocal
      then (case materialize_decode J pl r of
              (ok, r') \<Rightarrow>
                if \<not> ok then handle_error (''protocol decode error: '' @ dr_error r') (st\<lparr> ss_handler := HIdle \<rparr>)
                else st\<lparr> ss_handler := HDeliver rs, ss_packets := ss_packets st @ [r'] \<rparr>)
      else st\<lparr> ss_handler := HDeliver rs, ss_packets := ss_packets st @ [r] \<rparr>)"

subsection \<open>One step of the running handler\<close>

definition handler_step :: "'j json_api \<Rightarrow> 'j session \<Rightarrow> 'j session option" where
  "handler_step J st =
     (case ss_handler st of
        HIdle \<Rightarrow> None
      | HRelease \<Rightarrow> Some ((release_slots 1 st)\<lparr> ss_handler := HIdle \<rparr>)
      | HPush frame \<Rightarrow> Some (enqueue_frame frame (st\<lparr> ss_handler := HIdle \<rparr>))
      | HWritten \<Rightarrow> Some ((release_slots 1 st)\<lparr> ss_handler := HPop \<rparr>)
      | HPop \<Rightarrow> Some (pop_written st)
      | HWriteError reason \<Rightarrow> Some (handle_error reason (end_write st))
      | HTimeout \<Rightarrow> Some (handle_error ''read idle timeout'' (st\<lparr> ss_handler := HIdle \<rparr>))
      | HDeliver [] \<Rightarrow> Some (do_receive (st\<lparr> ss_handler := HIdle \<rparr>))
      | HDeliver (r # rs) \<Rightarrow>
          (case ss_pipeline st of None \<Rightarrow> None | Some pl \<Rightarrow> Some (deliver_result J pl r rs st))
      | HDeliverFrames [] \<Rightarrow> Some (do_receive (st\<lparr> ss_handler := HIdle \<rparr>))
      | HDeliverFrames (p # ps) \<Rightarrow>
          Some (st\<lparr> ss_handler := HDeliverFrames ps, ss_messages := ss_messages st @ [p] \<rparr>))"

subsection \<open>Atomic actions\<close>

datatype 'j action =
    StartSession
  | EnterSend bytes
  | EnterSendMessage "'j DecodedBody"
  | Reserve nat
  | RollBack
  | PostJob nat
  | RunStrand
  | RunHandler
  | CompleteWrite write_result
  | CompleteRead read_result
  | CompleteWait bool
  | CloseExchange string
  | ClosePost

definition remove_nth :: "nat \<Rightarrow> 'a list \<Rightarrow> 'a list" where
  "remove_nth i xs = take i xs @ drop (Suc i) xs"

definition enter_send :: "(bool \<times> string) + 'j job \<Rightarrow> 'j session \<Rightarrow> 'j session" where
  "enter_send r st = (case r of Inl _ \<Rightarrow> st | Inr job \<Rightarrow> st\<lparr> ss_checked := ss_checked st @ [job] \<rparr>)"

fun session_act :: "'j json_api \<Rightarrow> 'j action \<Rightarrow> 'j session \<Rightarrow> 'j session option" where
  "session_act J StartSession st = Some (start_session st)"
| "session_act J (EnterSend data) st = Some (enter_send (send_check data st) st)"
| "session_act J (EnterSendMessage m) st = Some (enter_send (send_message_check m st) st)"
| "session_act J (Reserve i) st =
     (if i < length (ss_checked st)
      then Some (reserve_slot (ss_checked st ! i) (st\<lparr> ss_checked := remove_nth i (ss_checked st) \<rparr>))
      else None)"
| "session_act J RollBack st =
     (if 0 < ss_over st then Some ((release_slots 1 st)\<lparr> ss_over := ss_over st - 1 \<rparr>) else None)"
| "session_act J (PostJob i) st =
     (if i < length (ss_admitted st)
      then Some (st\<lparr> ss_admitted := remove_nth i (ss_admitted st), ss_strand := ss_strand st @ [ss_admitted st ! i] \<rparr>)
      else None)"
| "session_act J RunStrand st =
     (case ss_strand st of
        [] \<Rightarrow> None
      | job # jobs \<Rightarrow> if ss_handler st = HIdle then run_job J job (st\<lparr> ss_strand := jobs \<rparr>) else None)"
| "session_act J RunHandler st = handler_step J st"
| "session_act J (CompleteWrite r) st =
     (if ss_handler st = HIdle \<and> 0 < ss_writing st \<and> (r = WriteAborted \<longrightarrow> \<not> ss_alive st)
      then Some (write_completed r st) else None)"
| "session_act J (CompleteRead r) st =
     (if ss_handler st = HIdle \<and> 0 < ss_reading st \<and> (r = ReadAborted \<longrightarrow> \<not> ss_alive st) \<and>
         (case r of ReadBytes bs \<Rightarrow> length bs \<le> receive_buffer_size | _ \<Rightarrow> True)
      then read_completed J r (st\<lparr> ss_reading := ss_reading st - 1 \<rparr>)
      else None)"
| "session_act J (CompleteWait expired) st =
     (if ss_handler st = HIdle \<and> 0 < ss_waits st
      then Some (wait_completed expired (st\<lparr> ss_waits := ss_waits st - 1 \<rparr>)) else None)"
| "session_act J (CloseExchange reason) st = Some (close_session reason st)"
| "session_act J ClosePost st =
     (case ss_closing st of
        [] \<Rightarrow> None
      | reason # rest \<Rightarrow>
          Some (st\<lparr> ss_closing := rest, ss_strand := ss_strand st @ [DropQueue],
                    ss_disconnects := ss_disconnects st @ [reason] \<rparr>))"

inductive session_reach :: "'j json_api \<Rightarrow> 'j session \<Rightarrow> 'j session \<Rightarrow> bool" for J st0 where
  start: "session_reach J st0 st0"
| step: "session_reach J st0 st \<Longrightarrow> session_act J a st = Some st' \<Longrightarrow> session_reach J st0 st'"

inductive_cases session_reachE: "session_reach J st0 st"

subsection \<open>The invariant of a session\<close>

definition is_send :: "'j job \<Rightarrow> bool" where
  "is_send job = (job \<noteq> DropQueue)"

text \<open>
  The slots the running handler holds for a frame it has not queued, the frames of the queue that are not
  written, and the messages accepted and not yet written or dropped.
\<close>

definition handler_slots :: "'j handler \<Rightarrow> nat" where
  "handler_slots h = (case h of HRelease \<Rightarrow> 1 | HPush _ \<Rightarrow> 1 | _ \<Rightarrow> 0)"

definition unwritten :: "'j session \<Rightarrow> bytes list" where
  "unwritten st = (if ss_handler st = HPop then tl (ss_send_queue st) else ss_send_queue st)"

definition accepted :: "'j session \<Rightarrow> nat" where
  "accepted st =
     length (ss_admitted st) + length (filter is_send (ss_strand st)) + handler_slots (ss_handler st) +
     length (unwritten st)"

definition slots_ok :: "'j session \<Rightarrow> bool" where
  "slots_ok st \<longleftrightarrow>
     ss_queued_count st = int (ss_over st + accepted st) \<and>
     (0 < ss_max_send_queue st \<longrightarrow>
        accepted st \<le> ss_max_send_queue st \<and> length (ss_send_queue st) \<le> ss_max_send_queue st) \<and>
     DropQueue \<notin> set (ss_checked st) \<and> DropQueue \<notin> set (ss_admitted st)"

text \<open>The handler of a write works on the front of the queue.\<close>

definition in_write :: "'j handler \<Rightarrow> bool" where
  "in_write h = (case h of HWritten \<Rightarrow> True | HPop \<Rightarrow> True | HWriteError _ \<Rightarrow> True | _ \<Rightarrow> False)"

definition writes_ok :: "'j session \<Rightarrow> bool" where
  "writes_ok st \<longleftrightarrow>
     (\<exists>rest. ss_enqueued st = ss_written st @ rest) \<and>
     ss_writing st \<le> 1 \<and>
     (ss_alive st \<or> in_write (ss_handler st) \<longrightarrow>
        ss_enqueued st = ss_written st @ ss_send_queue st \<and>
        ss_writing st = (if ss_send_queue st = [] then 0 else 1) \<and>
        ss_send_in_progress st = (ss_send_queue st \<noteq> [])) \<and>
     (in_write (ss_handler st) \<longrightarrow> ss_send_queue st \<noteq> [])"

definition close_ok :: "'j session \<Rightarrow> bool" where
  "close_ok st \<longleftrightarrow>
     (if ss_alive st
      then ss_closing st = [] \<and> ss_disconnects st = [] \<and> DropQueue \<notin> set (ss_strand st)
      else length (ss_closing st) + length (ss_disconnects st) = 1 \<and>
           (ss_closing st = [] \<longrightarrow>
              DropQueue \<in> set (ss_strand st) \<or> ss_send_queue st = [] \<and> (\<forall>f. ss_handler st \<noteq> HPush f)))"

text \<open>A live session has a read outstanding, or in its handler, for every call of \<open>start\<close>.\<close>

definition in_read :: "'j handler \<Rightarrow> bool" where
  "in_read h = (case h of HDeliver _ \<Rightarrow> True | HDeliverFrames _ \<Rightarrow> True | _ \<Rightarrow> False)"

definition deliverable_result :: "'j DispatchResult \<Rightarrow> bool" where
  "deliverable_result d \<longleftrightarrow>
     result_ok d \<and> dr_action d \<noteq> Drop \<and> (dr_action d = DecodeLocal \<longrightarrow> result_decoded d)"

definition reads_ok :: "'j session \<Rightarrow> bool" where
  "reads_ok st \<longleftrightarrow>
     (ss_alive st \<longrightarrow> ss_reading st + (if in_read (ss_handler st) then 1 else 0) = ss_starts st) \<and>
     (\<forall>d \<in> set (ss_packets st). deliverable_result d) \<and>
     (ss_pipeline st = None \<longrightarrow> ss_packets st = [] \<and> (\<forall>rs. ss_handler st \<noteq> HDeliver rs))"

definition session_inv :: "'j session \<Rightarrow> bool" where
  "session_inv st \<longleftrightarrow> slots_ok st \<and> writes_ok st \<and> close_ok st \<and> reads_ok st"

lemmas inv_base = session_inv_def slots_ok_def accepted_def unwritten_def writes_ok_def close_ok_def reads_ok_def

lemmas inv_defs = inv_base handler_slots_def in_write_def in_read_def

lemma is_send_simps [simp]: "is_send (SendFrame f)" "is_send (SendMessage m)" "\<not> is_send DropQueue"
  by (simp_all add: is_send_def)

lemma new_session_inv: "session_inv (new_session i addr pl mf mq t)"
  by (simp add: inv_defs new_session_def)

lemma remove_nth_length [simp]: "i < length xs \<Longrightarrow> length (remove_nth i xs) = length xs - 1"
  by (simp add: remove_nth_def min_def)

lemma remove_nth_set: "x \<in> set (remove_nth i xs) \<Longrightarrow> x \<in> set xs"
  by (auto simp: remove_nth_def dest: in_set_takeD in_set_dropD)

text \<open>What each part of the invariant does not read.\<close>

lemma slots_ok_frame [simp]:
  "slots_ok (st\<lparr> ss_alive := x0 \<rparr>) = slots_ok st" "slots_ok (st\<lparr> ss_send_in_progress := x3 \<rparr>) = slots_ok st"
  "slots_ok (st\<lparr> ss_pipeline := x4 \<rparr>) = slots_ok st" "slots_ok (st\<lparr> ss_decoder := x5 \<rparr>) = slots_ok st"
  "slots_ok (st\<lparr> ss_error_code := x6 \<rparr>) = slots_ok st" "slots_ok (st\<lparr> ss_writing := x12 \<rparr>) = slots_ok st"
  "slots_ok (st\<lparr> ss_reading := x13 \<rparr>) = slots_ok st" "slots_ok (st\<lparr> ss_waits := x14 \<rparr>) = slots_ok st"
  "slots_ok (st\<lparr> ss_starts := x15 \<rparr>) = slots_ok st" "slots_ok (st\<lparr> ss_closing := x16 \<rparr>) = slots_ok st"
  "slots_ok (st\<lparr> ss_enqueued := x17 \<rparr>) = slots_ok st" "slots_ok (st\<lparr> ss_written := x18 \<rparr>) = slots_ok st"
  "slots_ok (st\<lparr> ss_packets := x19 \<rparr>) = slots_ok st" "slots_ok (st\<lparr> ss_messages := x20 \<rparr>) = slots_ok st"
  "slots_ok (st\<lparr> ss_disconnects := x21 \<rparr>) = slots_ok st"
  by (simp_all add: slots_ok_def accepted_def unwritten_def)

lemma writes_ok_frame [simp]:
  "writes_ok (st\<lparr> ss_queued_count := x1 \<rparr>) = writes_ok st" "writes_ok (st\<lparr> ss_pipeline := x4 \<rparr>) = writes_ok st"
  "writes_ok (st\<lparr> ss_decoder := x5 \<rparr>) = writes_ok st" "writes_ok (st\<lparr> ss_error_code := x6 \<rparr>) = writes_ok st"
  "writes_ok (st\<lparr> ss_checked := x7 \<rparr>) = writes_ok st" "writes_ok (st\<lparr> ss_over := x8 \<rparr>) = writes_ok st"
  "writes_ok (st\<lparr> ss_admitted := x9 \<rparr>) = writes_ok st" "writes_ok (st\<lparr> ss_strand := x10 \<rparr>) = writes_ok st"
  "writes_ok (st\<lparr> ss_reading := x13 \<rparr>) = writes_ok st" "writes_ok (st\<lparr> ss_waits := x14 \<rparr>) = writes_ok st"
  "writes_ok (st\<lparr> ss_starts := x15 \<rparr>) = writes_ok st" "writes_ok (st\<lparr> ss_closing := x16 \<rparr>) = writes_ok st"
  "writes_ok (st\<lparr> ss_packets := x19 \<rparr>) = writes_ok st" "writes_ok (st\<lparr> ss_messages := x20 \<rparr>) = writes_ok st"
  "writes_ok (st\<lparr> ss_disconnects := x21 \<rparr>) = writes_ok st"
  by (simp_all add: writes_ok_def)

lemma close_ok_frame [simp]:
  "close_ok (st\<lparr> ss_queued_count := x1 \<rparr>) = close_ok st" "close_ok (st\<lparr> ss_send_in_progress := x3 \<rparr>) = close_ok st"
  "close_ok (st\<lparr> ss_pipeline := x4 \<rparr>) = close_ok st" "close_ok (st\<lparr> ss_decoder := x5 \<rparr>) = close_ok st"
  "close_ok (st\<lparr> ss_error_code := x6 \<rparr>) = close_ok st" "close_ok (st\<lparr> ss_checked := x7 \<rparr>) = close_ok st"
  "close_ok (st\<lparr> ss_over := x8 \<rparr>) = close_ok st" "close_ok (st\<lparr> ss_admitted := x9 \<rparr>) = close_ok st"
  "close_ok (st\<lparr> ss_writing := x12 \<rparr>) = close_ok st" "close_ok (st\<lparr> ss_reading := x13 \<rparr>) = close_ok st"
  "close_ok (st\<lparr> ss_waits := x14 \<rparr>) = close_ok st" "close_ok (st\<lparr> ss_starts := x15 \<rparr>) = close_ok st"
  "close_ok (st\<lparr> ss_enqueued := x17 \<rparr>) = close_ok st" "close_ok (st\<lparr> ss_written := x18 \<rparr>) = close_ok st"
  "close_ok (st\<lparr> ss_packets := x19 \<rparr>) = close_ok st" "close_ok (st\<lparr> ss_messages := x20 \<rparr>) = close_ok st"
  by (simp_all add: close_ok_def)

lemma reads_ok_frame [simp]:
  "reads_ok (st\<lparr> ss_queued_count := x1 \<rparr>) = reads_ok st" "reads_ok (st\<lparr> ss_send_queue := x2 \<rparr>) = reads_ok st"
  "reads_ok (st\<lparr> ss_send_in_progress := x3 \<rparr>) = reads_ok st" "reads_ok (st\<lparr> ss_decoder := x5 \<rparr>) = reads_ok st"
  "reads_ok (st\<lparr> ss_error_code := x6 \<rparr>) = reads_ok st" "reads_ok (st\<lparr> ss_checked := x7 \<rparr>) = reads_ok st"
  "reads_ok (st\<lparr> ss_over := x8 \<rparr>) = reads_ok st" "reads_ok (st\<lparr> ss_admitted := x9 \<rparr>) = reads_ok st"
  "reads_ok (st\<lparr> ss_strand := x10 \<rparr>) = reads_ok st" "reads_ok (st\<lparr> ss_writing := x12 \<rparr>) = reads_ok st"
  "reads_ok (st\<lparr> ss_waits := x14 \<rparr>) = reads_ok st" "reads_ok (st\<lparr> ss_closing := x16 \<rparr>) = reads_ok st"
  "reads_ok (st\<lparr> ss_enqueued := x17 \<rparr>) = reads_ok st" "reads_ok (st\<lparr> ss_written := x18 \<rparr>) = reads_ok st"
  "reads_ok (st\<lparr> ss_messages := x20 \<rparr>) = reads_ok st" "reads_ok (st\<lparr> ss_disconnects := x21 \<rparr>) = reads_ok st"
  by (simp_all add: reads_ok_def)

lemma session_invI: "slots_ok st \<Longrightarrow> writes_ok st \<Longrightarrow> close_ok st \<Longrightarrow> reads_ok st \<Longrightarrow> session_inv st"
  by (simp add: session_inv_def)

lemma session_invD:
  assumes "session_inv st"
  shows "slots_ok st" "writes_ok st" "close_ok st" "reads_ok st"
  using assms by (simp_all add: session_inv_def)

lemma irrelevant_inv [simp]:
  "session_inv (st\<lparr> ss_error_code := c \<rparr>) = session_inv st"
  "session_inv (st\<lparr> ss_decoder := d \<rparr>) = session_inv st"
  "session_inv (st\<lparr> ss_waits := n \<rparr>) = session_inv st"
  "session_inv (st\<lparr> ss_messages := ms \<rparr>) = session_inv st"
  by (simp_all add: session_inv_def)

lemma pipeline_inv: "session_inv st \<Longrightarrow> ss_pipeline st \<noteq> None \<Longrightarrow> session_inv (st\<lparr> ss_pipeline := Some pl \<rparr>)"
  by (simp add: session_inv_def reads_ok_def)

lemma pipeline_handler_inv:
  assumes "session_inv (st\<lparr> ss_handler := h \<rparr>)" "ss_pipeline st \<noteq> None"
  shows "session_inv (st\<lparr> ss_pipeline := Some pl, ss_handler := h \<rparr>)"
proof -
  have eq: "st\<lparr> ss_pipeline := Some pl, ss_handler := h \<rparr> = st\<lparr> ss_handler := h, ss_pipeline := Some pl \<rparr>" by simp
  show ?thesis unfolding eq by (rule pipeline_inv [OF assms(1)]) (simp add: assms(2))
qed

text \<open>A session that is about to be closed need not have a read outstanding.\<close>

definition packets_ok :: "'j session \<Rightarrow> bool" where
  "packets_ok st \<longleftrightarrow>
     (\<forall>d \<in> set (ss_packets st). deliverable_result d) \<and>
     (ss_pipeline st = None \<longrightarrow> ss_packets st = [] \<and> (\<forall>rs. ss_handler st \<noteq> HDeliver rs))"

lemma dead_writes: "writes_ok st \<Longrightarrow> writes_ok (st\<lparr> ss_alive := False \<rparr>)"
  by (auto simp: writes_ok_def)

lemma close_session_parts:
  assumes "slots_ok st" "writes_ok st" "close_ok st" "packets_ok st" "\<not> ss_alive st \<longrightarrow> reads_ok st"
  shows "session_inv (close_session reason st)"
proof (cases "ss_alive st")
  case True
  moreover have "close_ok (st\<lparr> ss_alive := False, ss_closing := ss_closing st @ [reason] \<rparr>)"
    using assms(3) True by (simp add: close_ok_def)
  moreover have "reads_ok (st\<lparr> ss_alive := False, ss_closing := ss_closing st @ [reason] \<rparr>)"
    using assms(4) by (simp add: reads_ok_def packets_ok_def)
  ultimately show ?thesis using assms(1,2) dead_writes by (simp add: session_inv_def close_session_def)
next
  case False
  then show ?thesis using assms by (simp add: session_inv_def close_session_def)
qed

lemma reads_packets: "reads_ok st \<Longrightarrow> packets_ok st" "packets_ok st \<Longrightarrow> \<not> ss_alive st \<Longrightarrow> reads_ok st"
  by (simp_all add: reads_ok_def packets_ok_def)

lemma close_session_inv: "session_inv st \<Longrightarrow> session_inv (close_session reason st)"
  by (rule close_session_parts) (simp_all add: session_inv_def reads_packets)

lemma dying_error:
  assumes "slots_ok st" "writes_ok st" "close_ok st" "packets_ok st"
  shows "session_inv (handle_error reason st)"
proof -
  have "packets_ok (st\<lparr> ss_error_code := c \<rparr>)" for c using assms(4) by (simp add: packets_ok_def)
  then show ?thesis unfolding handle_error_def by (intro close_session_parts) (use assms reads_packets in auto)
qed

lemma handle_error_inv: "session_inv st \<Longrightarrow> session_inv (handle_error reason st)"
  by (simp add: handle_error_def close_session_inv)

lemma do_receive_inv:
  assumes "slots_ok st" "writes_ok st" "close_ok st" "packets_ok st" "ss_handler st = HIdle"
    and "ss_alive st \<Longrightarrow> ss_reading st + 1 = ss_starts st"
  shows "session_inv (do_receive st)"
proof -
  have "reads_ok (do_receive st)"
    using assms(4-6) by (simp add: do_receive_def reads_ok_def packets_ok_def in_read_def Let_def)
  then show ?thesis using assms(1-3) by (simp add: session_inv_def do_receive_def Let_def split: if_splits)
qed

lemma start_session_inv:
  assumes "session_inv st"
  shows "session_inv (start_session st)"
proof -
  have "reads_ok (start_session st)"
    using assms by (auto simp: session_inv_def reads_ok_def start_session_def do_receive_def Let_def)
  then show ?thesis
    using assms by (simp add: session_inv_def start_session_def do_receive_def Let_def split: if_splits)
qed

lemma enter_send_inv:
  "session_inv st \<Longrightarrow> session_inv (enter_send (send_check data st) st)"
  "session_inv st \<Longrightarrow> session_inv (enter_send (send_message_check m st) st)"
  by (auto simp: session_inv_def enter_send_def send_check_def send_message_check_def slots_ok_def accepted_def
      unwritten_def)

lemma reserve_inv:
  assumes "session_inv st" "i < length (ss_checked st)"
  shows "session_inv (reserve_slot (ss_checked st ! i) (st\<lparr> ss_checked := remove_nth i (ss_checked st) \<rparr>))"
proof -
  have "ss_checked st ! i \<noteq> DropQueue" using assms by (auto simp: session_inv_def slots_ok_def in_set_conv_nth)
  then have "slots_ok (reserve_slot (ss_checked st ! i) (st\<lparr> ss_checked := remove_nth i (ss_checked st) \<rparr>))"
    using assms
    by (auto simp: session_inv_def slots_ok_def accepted_def unwritten_def reserve_slot_def Let_def dest: remove_nth_set)
  then show ?thesis using assms by (simp add: session_inv_def reserve_slot_def Let_def split: if_splits)
qed

lemma post_inv:
  assumes "session_inv st" "i < length (ss_admitted st)"
  shows "session_inv (st\<lparr> ss_admitted := remove_nth i (ss_admitted st),
                          ss_strand := ss_strand st @ [ss_admitted st ! i] \<rparr>)" (is "session_inv ?st")
proof -
  have job: "ss_admitted st ! i \<noteq> DropQueue" using assms by (auto simp: session_inv_def slots_ok_def in_set_conv_nth)
  then have "slots_ok ?st" using assms
    by (auto simp: session_inv_def slots_ok_def accepted_def unwritten_def is_send_def dest: remove_nth_set)
  moreover have "close_ok ?st" using assms job by (simp add: session_inv_def close_ok_def)
  ultimately show ?thesis using assms by (simp add: session_inv_def)
qed

lemma rollback_inv:
  "session_inv st \<Longrightarrow> 0 < ss_over st \<Longrightarrow> session_inv ((release_slots (Suc 0) st)\<lparr> ss_over := ss_over st - Suc 0 \<rparr>)"
  by (auto simp: session_inv_def release_slots_def slots_ok_def accepted_def unwritten_def)

lemma close_post_inv:
  assumes "session_inv st" "ss_closing st = reason # rest"
  shows "session_inv (st\<lparr> ss_closing := rest, ss_strand := ss_strand st @ [DropQueue],
                         ss_disconnects := ss_disconnects st @ [reason] \<rparr>)" (is "session_inv ?st")
proof -
  have "slots_ok ?st" using assms by (auto simp: session_inv_def slots_ok_def accepted_def unwritten_def)
  moreover have "close_ok ?st" using assms by (cases "ss_alive st") (simp_all add: session_inv_def close_ok_def)
  ultimately show ?thesis using assms by (simp add: session_inv_def)
qed

text \<open>A send closure taken from the strand keeps its slot in the handler.\<close>

lemma run_send_inv:
  assumes "session_inv st" "ss_strand st = job # jobs" "is_send job" "ss_handler st = HIdle"
    and "h = HRelease \<or> ss_alive st \<and> (\<exists>f. h = HPush f)"
  shows "session_inv (st\<lparr> ss_strand := jobs, ss_handler := h \<rparr>)" (is "session_inv ?st")
proof (rule session_invI)
  show "slots_ok ?st" using session_invD(1) [OF assms(1)] assms(2-5)
    by (auto simp: slots_ok_def accepted_def unwritten_def handler_slots_def)
  show "writes_ok ?st" using session_invD(2) [OF assms(1)] assms(4,5)
    by (auto simp: writes_ok_def in_write_def)
  show "close_ok ?st" using session_invD(3) [OF assms(1)] assms(2-5) by (auto simp: close_ok_def)
  show "reads_ok ?st" using session_invD(4) [OF assms(1)] assms(4,5) by (auto simp: reads_ok_def in_read_def)
qed

lemma drop_queue_inv:
  assumes "session_inv st" "ss_strand st = DropQueue # jobs" "ss_handler st = HIdle"
  shows "session_inv (drop_queue (st\<lparr> ss_strand := jobs \<rparr>))" (is "session_inv ?st")
proof (rule session_invI)
  have dead: "\<not> ss_alive st" using session_invD(3) [OF assms(1)] assms(2) by (auto simp: close_ok_def)
  show "slots_ok ?st" using session_invD(1) [OF assms(1)] assms(2,3)
    by (auto simp: slots_ok_def accepted_def unwritten_def handler_slots_def drop_queue_def release_slots_def Let_def)
  show "writes_ok ?st" using session_invD(2) [OF assms(1)] assms(3) dead
    by (auto simp: writes_ok_def in_write_def drop_queue_def release_slots_def Let_def)
  show "close_ok ?st" using session_invD(3) [OF assms(1)] assms(3) dead
    by (auto simp: close_ok_def drop_queue_def release_slots_def Let_def)
  show "reads_ok ?st" using session_invD(4) [OF assms(1)] by (simp add: drop_queue_def release_slots_def Let_def)
qed

lemma run_strand_inv:
  assumes "session_inv st" "ss_strand st = job # jobs" "ss_handler st = HIdle"
    and "run_job J job (st\<lparr> ss_strand := jobs \<rparr>) = Some st'"
  shows "session_inv st'"
proof (cases job)
  case (SendFrame f)
  then show ?thesis using assms(4) run_send_inv [OF assms(1,2) _ assms(3)]
    by (auto simp: run_job_def run_send_frame_def)
next
  case (SendMessage m)
  have push: "session_inv (st\<lparr> ss_strand := jobs, ss_pipeline := Some pl, ss_handler := h \<rparr>)"
    if "ss_pipeline st \<noteq> None" "h = HRelease \<or> ss_alive st \<and> (\<exists>f. h = HPush f)" for pl h
    using run_send_inv [OF assms(1,2) _ assms(3) that(2)] SendMessage that(1)
      pipeline_handler_inv [of h "st\<lparr> ss_strand := jobs \<rparr>" pl] by simp
  show ?thesis using assms(4) SendMessage run_send_inv [OF assms(1,2) _ assms(3), of HRelease] push
    by (auto simp: run_job_def run_send_message_def Let_def split: if_splits option.splits sum.splits prod.splits)
next
  case DropQueue
  then show ?thesis using assms(2,4) drop_queue_inv [OF assms(1), of jobs] assms(3) by (auto simp: run_job_def)
qed

text \<open>A handler that holds no slot and no read may be left or entered freely.\<close>

lemma handler_inv:
  assumes "session_inv st"
    and "handler_slots h = handler_slots (ss_handler st)" "(h = HPop) = (ss_handler st = HPop)"
    and "in_write h \<Longrightarrow> in_write (ss_handler st) \<or> ss_alive st \<and> ss_send_queue st \<noteq> []"
    and "(\<exists>f. h = HPush f) \<Longrightarrow> (\<exists>f. ss_handler st = HPush f)"
    and "in_read h = in_read (ss_handler st)" "(\<exists>rs. h = HDeliver rs) \<Longrightarrow> (\<exists>rs. ss_handler st = HDeliver rs)"
  shows "session_inv (st\<lparr> ss_handler := h \<rparr>)" (is "session_inv ?st")
proof (rule session_invI)
  show "slots_ok ?st" using session_invD(1) [OF assms(1)] assms(2,3) by (auto simp: slots_ok_def accepted_def unwritten_def)
  show "writes_ok ?st" using session_invD(2) [OF assms(1)] assms(4) by (auto simp: writes_ok_def)
  show "close_ok ?st" using session_invD(3) [OF assms(1)] assms(5) by (auto simp: close_ok_def)
  show "reads_ok ?st" using session_invD(4) [OF assms(1)] assms(6,7) by (auto simp: reads_ok_def)
qed

lemma write_completed_inv:
  assumes "session_inv st" "0 < ss_writing st" "r = WriteAborted \<longrightarrow> \<not> ss_alive st" "ss_handler st = HIdle"
  shows "session_inv (write_completed r st)"
proof (cases "ss_alive st")
  case False
  have "session_inv (end_write st)"
  proof (rule session_invI)
    show "slots_ok (end_write st)" using session_invD(1) [OF assms(1)] assms(4)
      by (simp add: slots_ok_def accepted_def unwritten_def end_write_def)
    show "writes_ok (end_write st)" using session_invD(2) [OF assms(1)] False
      by (auto simp: writes_ok_def end_write_def in_write_def)
    show "close_ok (end_write st)" using session_invD(3) [OF assms(1)] by (auto simp: close_ok_def end_write_def)
    show "reads_ok (end_write st)" using session_invD(4) [OF assms(1)] assms(4) by (simp add: reads_ok_def end_write_def)
  qed
  then show ?thesis using False by (simp add: write_completed_def)
next
  case True
  then have "ss_send_queue st \<noteq> []" using session_invD(2) [OF assms(1)] assms(2) by (auto simp: writes_ok_def)
  then have "session_inv (st\<lparr> ss_handler := h \<rparr>)" if "h = HWritten \<or> (\<exists>m. h = HWriteError m)" for h
    using that True assms(4) by (intro handler_inv [OF assms(1)]) (auto simp: handler_slots_def in_read_def)
  then show ?thesis using True assms(3) by (cases r) (simp_all add: write_completed_def)
qed

lemma read_completed_inv:
  assumes "session_inv st" "ss_handler st = HIdle" "0 < ss_reading st" "r = ReadAborted \<longrightarrow> \<not> ss_alive st"
    and "read_completed J r (st\<lparr> ss_reading := ss_reading st - 1 \<rparr>) = Some st'"
  shows "session_inv st'"
proof -
  let ?st = "st\<lparr> ss_reading := ss_reading st - 1 \<rparr>"
  have ok: "slots_ok st" "writes_ok st" "close_ok st" "reads_ok st" "packets_ok st"
    using session_invD [OF assms(1)] reads_packets(1) by simp_all
  have err: "session_inv (handle_error reason (?st\<lparr> ss_pipeline := Some pl \<rparr>))" for reason pl
    by (rule dying_error) (use ok assms(2) in \<open>simp_all add: packets_ok_def\<close>)
  have err': "session_inv (handle_error reason (?st\<lparr> ss_decoder := d \<rparr>))" "session_inv (handle_error reason ?st)" for reason d
    by (rule dying_error; use ok in \<open>simp add: packets_ok_def\<close>)+
  have go: "session_inv (st\<lparr> ss_reading := ss_reading st - 1, ss_handler := h \<rparr>)"
    if "in_read h" "ss_pipeline st = None \<Longrightarrow> (\<forall>rs. h \<noteq> HDeliver rs)" for h
  proof (rule session_invI)
    have "handler_slots h = 0" "h \<noteq> HPop" "\<not> in_write h" "\<forall>f. h \<noteq> HPush f"
      using that(1) by (auto simp: in_read_def handler_slots_def in_write_def split: handler.splits)
    then show "slots_ok (st\<lparr> ss_reading := ss_reading st - 1, ss_handler := h \<rparr>)"
      "writes_ok (st\<lparr> ss_reading := ss_reading st - 1, ss_handler := h \<rparr>)"
      "close_ok (st\<lparr> ss_reading := ss_reading st - 1, ss_handler := h \<rparr>)"
      using ok(1-3) assms(2)
      by (auto simp: slots_ok_def accepted_def unwritten_def handler_slots_def writes_ok_def close_ok_def)
    show "reads_ok (st\<lparr> ss_reading := ss_reading st - 1, ss_handler := h \<rparr>)"
      using ok(4) assms(2,3) that by (auto simp: reads_ok_def in_read_def)
  qed
  have go1: "session_inv (?st\<lparr> ss_pipeline := Some pl, ss_handler := HDeliver rs \<rparr>)" if "ss_pipeline st \<noteq> None" for rs pl
    using pipeline_handler_inv [of "HDeliver rs" ?st pl] go [of "HDeliver rs"] that by (simp add: in_read_def)
  have go2: "session_inv (?st\<lparr> ss_decoder := d, ss_handler := HDeliverFrames ps \<rparr>)" for d ps
  proof -
    have eq: "?st\<lparr> ss_decoder := d, ss_handler := HDeliverFrames ps \<rparr> = (?st\<lparr> ss_handler := HDeliverFrames ps \<rparr>)\<lparr> ss_decoder := d \<rparr>"
      by simp
    show ?thesis unfolding eq using go [of "HDeliverFrames ps"] by (simp add: in_read_def)
  qed
  show ?thesis
  proof (cases r)
    case (ReadBytes bs)
    then show ?thesis using assms(5) err err' go1 go2
      by (auto simp: read_completed_def receive_packets_def receive_frames_def Let_def
          split: option.splits prod.splits if_splits)
  next
    case ReadAborted
    then show ?thesis using assms(4,5) ok by (auto simp: read_completed_def session_inv_def reads_ok_def)
  next
    case (ReadFailed m)
    then show ?thesis using assms(5) err'(2) by (auto simp: read_completed_def)
  qed
qed

lemma wait_completed_inv: "session_inv st \<Longrightarrow> ss_handler st = HIdle \<Longrightarrow> session_inv (wait_completed e st)"
  using handler_inv [of st HTimeout] by (simp add: wait_completed_def handler_slots_def in_write_def in_read_def)

text \<open>The steps of a running handler.\<close>

lemma materialize_deliverable:
  assumes "materialize_decode J pl r = (True, r')" "result_ok r" "dr_action r = DecodeLocal"
  shows "deliverable_result r'"
  using assms
  by (auto simp: deliverable_result_def materialize_decode_def result_decoded_def result_ok_def
      split: if_splits option.splits sum.splits)

lemma leave_handler:
  assumes "session_inv st" "\<not> in_write (ss_handler st)" "handler_slots (ss_handler st) = 0"
  shows "slots_ok (st\<lparr> ss_handler := HIdle \<rparr>)" "writes_ok (st\<lparr> ss_handler := HIdle \<rparr>)"
    "close_ok (st\<lparr> ss_handler := HIdle \<rparr>)" "packets_ok (st\<lparr> ss_handler := HIdle \<rparr>)"
proof -
  have ok: "slots_ok st" "writes_ok st" "close_ok st" "reads_ok st" using session_invD [OF assms(1)] .
  have "ss_handler st \<noteq> HPop" using assms(2) by (auto simp: in_write_def)
  then show "slots_ok (st\<lparr> ss_handler := HIdle \<rparr>)"
    using ok(1) assms(3) by (simp add: slots_ok_def accepted_def unwritten_def handler_slots_def)
  show "writes_ok (st\<lparr> ss_handler := HIdle \<rparr>)" using ok(2) by (auto simp: writes_ok_def in_write_def)
  show "close_ok (st\<lparr> ss_handler := HIdle \<rparr>)" using ok(3) by (auto simp: close_ok_def)
  show "packets_ok (st\<lparr> ss_handler := HIdle \<rparr>)" using ok(4) by (auto simp: packets_ok_def reads_ok_def)
qed

lemma in_read_plain: "in_read h \<Longrightarrow> \<not> in_write h" "in_read h \<Longrightarrow> handler_slots h = 0"
  by (auto simp: in_read_def in_write_def handler_slots_def split: handler.splits)

lemma deliver_result_inv:
  assumes "session_inv st" "ss_handler st = HDeliver (r # rs)"
  shows "session_inv (deliver_result J pl r rs st)"
proof -
  have pipe: "ss_pipeline st \<noteq> None" using session_invD(4) [OF assms(1)] assms(2) by (auto simp: reads_ok_def)
  have go: "session_inv (st\<lparr> ss_handler := HDeliver rs \<rparr>)"
    by (rule handler_inv [OF assms(1)]) (simp_all add: assms(2) handler_slots_def in_write_def in_read_def)
  have out: "session_inv (st\<lparr> ss_handler := HDeliver rs, ss_packets := ss_packets st @ [d] \<rparr>)" if "deliverable_result d" for d
    using go that pipe by (auto simp: session_inv_def reads_ok_def)
  have err: "session_inv (handle_error reason (st\<lparr> ss_handler := HIdle \<rparr>))" for reason
    using leave_handler [OF assms(1)] assms(2) by (intro dying_error) (simp_all add: in_write_def handler_slots_def)
  have "deliverable_result r" if "result_ok r" "\<not> should_drop r" "dr_action r \<noteq> DecodeLocal"
    using that by (auto simp: deliverable_result_def should_drop_def result_ok_def)
  then show ?thesis
    using go out err materialize_deliverable [of J pl r]
    by (auto simp: deliver_result_def split: prod.splits)
qed

lemma pop_written_inv:
  assumes "session_inv st" "ss_handler st = HPop"
  shows "session_inv (pop_written st)"
proof -
  have ok: "slots_ok st" "writes_ok st" "close_ok st" "reads_ok st" using session_invD [OF assms(1)] .
  obtain f q where q: "ss_send_queue st = f # q"
    using ok(2) assms(2) by (cases "ss_send_queue st") (auto simp: writes_ok_def in_write_def)
  show ?thesis
  proof (rule session_invI)
    show "slots_ok (pop_written st)" using ok(1) assms(2) q
      by (auto simp: slots_ok_def accepted_def unwritten_def handler_slots_def pop_written_def end_write_def do_async_write_def)
    show "writes_ok (pop_written st)" using ok(2) assms(2) q
      by (auto simp: writes_ok_def in_write_def pop_written_def end_write_def do_async_write_def)
    show "close_ok (pop_written st)" using ok(3) assms(2) q
      by (auto simp: close_ok_def pop_written_def end_write_def do_async_write_def)
    show "reads_ok (pop_written st)" using ok(4) assms(2)
      by (auto simp: reads_ok_def in_read_def pop_written_def end_write_def do_async_write_def)
  qed
qed

lemma push_inv:
  assumes "session_inv st" "ss_handler st = HPush f"
  shows "session_inv (enqueue_frame f (st\<lparr> ss_handler := HIdle \<rparr>))" (is "session_inv ?st")
proof -
  have ok: "slots_ok st" "writes_ok st" "close_ok st" "reads_ok st" using session_invD [OF assms(1)] .
  show ?thesis
  proof (rule session_invI)
    show "slots_ok ?st" using ok(1) assms(2)
      by (auto simp: slots_ok_def accepted_def unwritten_def handler_slots_def enqueue_frame_def do_async_write_def Let_def)
    show "writes_ok ?st" using ok(2) assms(2)
      by (auto simp: writes_ok_def in_write_def enqueue_frame_def do_async_write_def Let_def)
    show "close_ok ?st" using ok(3) assms(2)
      by (auto simp: close_ok_def enqueue_frame_def do_async_write_def Let_def)
    show "reads_ok ?st" using ok(4) assms(2)
      by (auto simp: reads_ok_def in_read_def enqueue_frame_def do_async_write_def Let_def)
  qed
qed

lemma release_inv:
  assumes "session_inv st" "ss_handler st = HRelease"
  shows "session_inv ((release_slots 1 st)\<lparr> ss_handler := HIdle \<rparr>)" (is "session_inv ?st")
proof (rule session_invI)
  show "slots_ok ?st" using session_invD(1) [OF assms(1)] assms(2)
    by (auto simp: slots_ok_def accepted_def unwritten_def handler_slots_def release_slots_def)
  show "writes_ok ?st" using session_invD(2) [OF assms(1)] by (auto simp: writes_ok_def in_write_def release_slots_def)
  show "close_ok ?st" using session_invD(3) [OF assms(1)] by (auto simp: close_ok_def release_slots_def)
  show "reads_ok ?st" using session_invD(4) [OF assms(1)] assms(2) by (auto simp: reads_ok_def in_read_def release_slots_def)
qed

lemma written_inv:
  assumes "session_inv st" "ss_handler st = HWritten"
  shows "session_inv ((release_slots 1 st)\<lparr> ss_handler := HPop \<rparr>)" (is "session_inv ?st")
proof -
  have ok: "slots_ok st" "writes_ok st" "close_ok st" "reads_ok st" using session_invD [OF assms(1)] .
  obtain f q where q: "ss_send_queue st = f # q"
    using ok(2) assms(2) by (cases "ss_send_queue st") (auto simp: writes_ok_def in_write_def)
  show ?thesis
  proof (rule session_invI)
    show "slots_ok ?st" using ok(1) assms(2) q
      by (auto simp: slots_ok_def accepted_def unwritten_def handler_slots_def release_slots_def)
    show "writes_ok ?st" using ok(2) assms(2) by (auto simp: writes_ok_def in_write_def release_slots_def)
    show "close_ok ?st" using ok(3) assms(2) by (auto simp: close_ok_def release_slots_def)
    show "reads_ok ?st" using ok(4) assms(2) by (auto simp: reads_ok_def in_read_def release_slots_def)
  qed
qed

lemma write_error_inv:
  assumes "session_inv st" "ss_handler st = HWriteError m"
  shows "session_inv (handle_error reason (end_write st))"
proof -
  have ok: "slots_ok st" "writes_ok st" "close_ok st" "reads_ok st" using session_invD [OF assms(1)] .
  have w: "ss_writing st = 1" "ss_enqueued st = ss_written st @ ss_send_queue st"
    using ok(2) assms(2) by (auto simp: writes_ok_def in_write_def)
  have c: "close_session reason s = s\<lparr> ss_alive := False, ss_closing := ss_closing s @ (if ss_alive s then [reason] else []) \<rparr>"
    for s :: "'a session" by (cases s) (simp add: close_session_def)
  show ?thesis
    unfolding handle_error_def c
  proof (rule session_invI, goal_cases)
    case 1
    then show ?case using ok(1) assms(2)
      by (auto simp: end_write_def slots_ok_def accepted_def unwritten_def handler_slots_def)
  next
    case 2
    then show ?case using w by (auto simp: end_write_def writes_ok_def in_write_def)
  next
    case 3
    then show ?case using ok(3) assms(2) by (auto simp: end_write_def close_ok_def)
  next
    case 4
    then show ?case using ok(4) assms(2) by (auto simp: end_write_def reads_ok_def)
  qed
qed

lemma timeout_inv:
  assumes "session_inv st" "ss_handler st = HTimeout"
  shows "session_inv (handle_error reason (st\<lparr> ss_handler := HIdle \<rparr>))"
  using leave_handler [OF assms(1)] assms(2) by (intro dying_error) (simp_all add: in_write_def handler_slots_def)

lemma read_again_inv:
  assumes "session_inv st" "in_read (ss_handler st)"
  shows "session_inv (do_receive (st\<lparr> ss_handler := HIdle \<rparr>))"
  using leave_handler [OF assms(1) in_read_plain [OF assms(2)]] session_invD(4) [OF assms(1)] assms(2)
  by (intro do_receive_inv) (simp_all add: reads_ok_def)

lemma handler_step_inv:
  assumes "session_inv st" "handler_step J st = Some st'"
  shows "session_inv st'"
proof (cases "ss_handler st")
  case (HDeliver rs)
  then show ?thesis
    using assms deliver_result_inv [OF assms(1)] read_again_inv [OF assms(1)]
    by (auto simp: handler_step_def in_read_def split: list.splits option.splits)
next
  case (HDeliverFrames ps)
  show ?thesis
  proof (cases ps)
    case Nil
    then show ?thesis using assms read_again_inv [OF assms(1)] HDeliverFrames by (auto simp: handler_step_def in_read_def)
  next
    case (Cons p ps')
    have "session_inv (st\<lparr> ss_handler := HDeliverFrames ps' \<rparr>)"
      by (rule handler_inv [OF assms(1)]) (simp_all add: HDeliverFrames handler_slots_def in_write_def in_read_def)
    then show ?thesis using assms(2) HDeliverFrames Cons by (auto simp: handler_step_def)
  qed
next
  case HRelease
  then show ?thesis using assms(2) release_inv [OF assms(1)] by (auto simp: handler_step_def)
next
  case (HPush f)
  then show ?thesis using assms(2) push_inv [OF assms(1)] by (auto simp: handler_step_def)
next
  case HWritten
  then show ?thesis using assms(2) written_inv [OF assms(1)] by (auto simp: handler_step_def)
next
  case HPop
  then show ?thesis using assms(2) pop_written_inv [OF assms(1)] by (auto simp: handler_step_def)
next
  case (HWriteError m)
  then show ?thesis using assms(2) write_error_inv [OF assms(1)] by (auto simp: handler_step_def)
next
  case HTimeout
  then show ?thesis using assms(2) timeout_inv [OF assms(1)] by (auto simp: handler_step_def)
qed (use assms(2) in \<open>simp add: handler_step_def\<close>)

lemma session_act_inv:
  assumes "session_inv st" "session_act J a st = Some st'"
  shows "session_inv st'"
proof (cases a)
  case RollBack
  then show ?thesis using assms(2) rollback_inv [OF assms(1)] by (auto split: if_splits)
next
  case RunStrand
  then obtain job jobs where "ss_strand st = job # jobs" "ss_handler st = HIdle"
    "run_job J job (st\<lparr> ss_strand := jobs \<rparr>) = Some st'"
    using assms(2) by (auto split: list.splits if_splits)
  then show ?thesis by (rule run_strand_inv [OF assms(1)])
next
  case RunHandler
  then show ?thesis using assms handler_step_inv by auto
next
  case (CompleteRead r)
  then show ?thesis using assms(2) read_completed_inv [OF assms(1), of r J st'] by (simp split: if_splits)
next
  case ClosePost
  then show ?thesis using assms(2) close_post_inv [OF assms(1)] by (auto split: list.splits)
next
  case StartSession
  then show ?thesis using assms start_session_inv [OF assms(1)] by simp
next
  case (EnterSend data)
  then show ?thesis using assms enter_send_inv(1) [OF assms(1), of data] by simp
next
  case (EnterSendMessage m)
  then show ?thesis using assms enter_send_inv(2) [OF assms(1), of m] by simp
next
  case (Reserve i)
  then show ?thesis using assms(2) reserve_inv [OF assms(1), of i] by (simp split: if_splits)
next
  case (PostJob i)
  then show ?thesis using assms(2) post_inv [OF assms(1), of i] by (auto split: if_splits)
next
  case (CompleteWrite r)
  then show ?thesis using assms(2) write_completed_inv [OF assms(1), of r] by (simp split: if_splits)
next
  case (CompleteWait e)
  then show ?thesis using assms wait_completed_inv [of "st\<lparr> ss_waits := ss_waits st - 1 \<rparr>" e]
    by (simp split: if_splits)
next
  case (CloseExchange reason)
  then show ?thesis using assms close_session_inv [OF assms(1), of reason] by simp
qed

lemma session_reach_inv: "session_reach J st0 st \<Longrightarrow> session_inv st0 \<Longrightarrow> session_inv st"
  by (induction rule: session_reach.induct) (auto intro: session_act_inv)

subsection \<open>What the handlers leave alone\<close>

definition same_callers :: "'j session \<Rightarrow> 'j session \<Rightarrow> bool" where
  "same_callers st st' \<longleftrightarrow>
     ss_max_send_queue st' = ss_max_send_queue st \<and> (ss_pipeline st' = None) = (ss_pipeline st = None) \<and>
     ss_checked st' = ss_checked st \<and> ss_admitted st' = ss_admitted st \<and> ss_strand st' = ss_strand st"

lemma same_callers_trans: "same_callers st st' \<Longrightarrow> same_callers st' st'' \<Longrightarrow> same_callers st st''"
  by (simp add: same_callers_def)

lemma same_callers_upd [simp]:
  "same_callers st st"
  "same_callers st (st'\<lparr> ss_decoder := d \<rparr>) = same_callers st st'"
  "same_callers st (st'\<lparr> ss_reading := n \<rparr>) = same_callers st st'"
  "same_callers st (st'\<lparr> ss_waits := n \<rparr>) = same_callers st st'"
  "same_callers st (st'\<lparr> ss_error_code := c \<rparr>) = same_callers st st'"
  "same_callers st (st'\<lparr> ss_queued_count := k \<rparr>) = same_callers st st'"
  "same_callers st (st'\<lparr> ss_send_queue := q \<rparr>) = same_callers st st'"
  "same_callers st (st'\<lparr> ss_send_in_progress := ip \<rparr>) = same_callers st st'"
  "same_callers st (st'\<lparr> ss_writing := n \<rparr>) = same_callers st st'"
  "same_callers st (st'\<lparr> ss_enqueued := e \<rparr>) = same_callers st st'"
  "same_callers st (st'\<lparr> ss_written := e \<rparr>) = same_callers st st'"
  "same_callers st (st'\<lparr> ss_alive := al \<rparr>) = same_callers st st'"
  "same_callers st (st'\<lparr> ss_closing := cl \<rparr>) = same_callers st st'"
  "same_callers st (st'\<lparr> ss_handler := h \<rparr>) = same_callers st st'"
  "same_callers st (st'\<lparr> ss_starts := n \<rparr>) = same_callers st st'"
  "same_callers st (st'\<lparr> ss_packets := ds \<rparr>) = same_callers st st'"
  "same_callers st (st'\<lparr> ss_messages := ps \<rparr>) = same_callers st st'"
  by (simp_all add: same_callers_def)

lemma same_callers_pipeline [simp]:
  "ss_pipeline st = Some pl \<Longrightarrow> same_callers st (st\<lparr> ss_pipeline := Some pl' \<rparr>)"
  by (simp add: same_callers_def)

lemma same_callers_ops [simp]:
  "same_callers st (close_session reason st') = same_callers st st'"
  "same_callers st (release_slots n st') = same_callers st st'"
  "same_callers st (do_async_write st') = same_callers st st'"
  "same_callers st (do_receive st') = same_callers st st'"
  "same_callers st (end_write st') = same_callers st st'"
  by (simp_all add: close_session_def release_slots_def do_async_write_def do_receive_def end_write_def Let_def)

lemma same_callers_ops2 [simp]:
  "same_callers st (handle_error reason st') = same_callers st st'"
  "same_callers st (enqueue_frame f st') = same_callers st st'"
  "same_callers st (drop_queue st') = same_callers st st'"
  "same_callers st (pop_written st') = same_callers st st'"
  by (simp_all add: handle_error_def enqueue_frame_def drop_queue_def pop_written_def Let_def)

lemma same_callers_write [simp]: "same_callers st (write_completed w st') = same_callers st st'"
  by (cases w) (simp_all add: write_completed_def)

lemma same_callers_wait [simp]: "same_callers st (wait_completed e st') = same_callers st st'"
  by (simp add: wait_completed_def)

lemma run_job_callers: "run_job J job st = Some st' \<Longrightarrow> same_callers st st'"
  by (auto simp: run_job_def run_send_frame_def run_send_message_def Let_def
      split: job.splits if_splits option.splits sum.splits prod.splits)

lemma read_completed_callers: "read_completed J r st = Some st' \<Longrightarrow> same_callers st st'"
  by (auto simp: read_completed_def receive_packets_def receive_frames_def Let_def
      split: read_result.splits option.splits prod.splits if_splits)

lemma handler_step_callers: "handler_step J st = Some st' \<Longrightarrow> same_callers st st'"
  by (auto simp: handler_step_def deliver_result_def split: handler.splits list.splits option.splits prod.splits)

lemma same_callersD:
  assumes "same_callers st st'"
  shows "ss_max_send_queue st' = ss_max_send_queue st" "(ss_pipeline st' = None) = (ss_pipeline st = None)"
    "ss_checked st' = ss_checked st" "ss_admitted st' = ss_admitted st" "ss_strand st' = ss_strand st"
  using assms by (simp_all add: same_callers_def)

text \<open>A structured message is accepted only by a session that has a pipeline.\<close>

definition callers_ok :: "'j session \<Rightarrow> bool" where
  "callers_ok st \<longleftrightarrow>
     (ss_pipeline st = None \<longrightarrow>
       (\<forall>m. SendMessage m \<notin> set (ss_checked st) \<union> set (ss_admitted st) \<union> set (ss_strand st)))"

lemma callers_ok_same: "callers_ok st \<Longrightarrow> same_callers st st' \<Longrightarrow> callers_ok st'"
  by (simp add: callers_ok_def same_callers_def)

lemma callers_ok_subset:
  assumes "callers_ok st" "ss_pipeline st' = None \<Longrightarrow> ss_pipeline st = None"
    and "set (ss_checked st') \<union> set (ss_admitted st') \<union> set (ss_strand st') \<subseteq>
      insert DropQueue (set (ss_checked st) \<union> set (ss_admitted st) \<union> set (ss_strand st))"
  shows "callers_ok st'"
  unfolding callers_ok_def
proof (intro impI allI notI)
  fix m assume "ss_pipeline st' = None"
    and "SendMessage m \<in> set (ss_checked st') \<union> set (ss_admitted st') \<union> set (ss_strand st')"
  then have "ss_pipeline st = None" "SendMessage m \<in> set (ss_checked st) \<union> set (ss_admitted st) \<union> set (ss_strand st)"
    using assms(2,3) by auto
  with assms(1) show False by (simp add: callers_ok_def)
qed

lemma remove_nth_sub: "i < length xs \<Longrightarrow> set (remove_nth i xs) \<union> {xs ! i} \<subseteq> set xs"
  by (auto dest: remove_nth_set)

lemma reserve_slot_callers:
  "set (ss_checked (reserve_slot job st)) = set (ss_checked st)"
  "set (ss_admitted (reserve_slot job st)) \<subseteq> insert job (set (ss_admitted st))"
  "ss_strand (reserve_slot job st) = ss_strand st" "ss_pipeline (reserve_slot job st) = ss_pipeline st"
  "ss_max_send_queue (reserve_slot job st) = ss_max_send_queue st"
  by (auto simp: reserve_slot_def Let_def)

text \<open>Every action either leaves the callers alone or moves them towards the strand.\<close>

definition callers_advance :: "'j session \<Rightarrow> 'j session \<Rightarrow> bool" where
  "callers_advance st st' \<longleftrightarrow>
     ss_max_send_queue st' = ss_max_send_queue st \<and> (ss_pipeline st' = None \<longrightarrow> ss_pipeline st = None) \<and>
     set (ss_checked st') \<union> set (ss_admitted st') \<union> set (ss_strand st') \<subseteq>
       insert DropQueue (set (ss_checked st) \<union> set (ss_admitted st) \<union> set (ss_strand st))"

lemma callers_advance_same: "same_callers st st' \<Longrightarrow> callers_advance st st'"
  by (auto simp: callers_advance_def same_callers_def)

lemma callers_advance_reserve:
  assumes "i < length (ss_checked st)"
  shows "callers_advance st (reserve_slot (ss_checked st ! i) (st\<lparr> ss_checked := remove_nth i (ss_checked st) \<rparr>))"
  using reserve_slot_callers [of "ss_checked st ! i" "st\<lparr> ss_checked := remove_nth i (ss_checked st) \<rparr>"]
    remove_nth_sub [OF assms] unfolding callers_advance_def by auto

lemma callers_advance_post:
  assumes "i < length (ss_admitted st)"
  shows "callers_advance st (st\<lparr> ss_admitted := remove_nth i (ss_admitted st),
                                 ss_strand := ss_strand st @ [ss_admitted st ! i] \<rparr>)"
  using remove_nth_sub [OF assms] unfolding callers_advance_def by auto

lemma callers_advance_run:
  assumes "ss_strand st = job # jobs" "run_job J job (st\<lparr> ss_strand := jobs \<rparr>) = Some st'"
  shows "callers_advance st st'"
  using same_callersD [OF run_job_callers [OF assms(2)]] assms(1) unfolding callers_advance_def by auto

lemma callers_advance_read:
  assumes "read_completed J r (st\<lparr> ss_reading := n \<rparr>) = Some st'"
  shows "callers_advance st st'"
  using same_callersD [OF read_completed_callers [OF assms]] unfolding callers_advance_def by auto

definition is_enter :: "'j action \<Rightarrow> bool" where
  "is_enter a = (case a of EnterSend _ \<Rightarrow> True | EnterSendMessage _ \<Rightarrow> True | _ \<Rightarrow> False)"

lemma session_act_callers:
  assumes "session_act J a st = Some st'" "\<not> is_enter a"
  shows "callers_advance st st'"
proof (cases a)
  case (Reserve i)
  then show ?thesis using assms(1) callers_advance_reserve [of i st] by (auto split: if_splits)
next
  case (PostJob i)
  then show ?thesis using assms(1) callers_advance_post [of i st] by (auto split: if_splits)
next
  case RunStrand
  then show ?thesis using assms(1) by (auto split: list.splits if_splits intro: callers_advance_run)
next
  case RunHandler
  then show ?thesis using assms(1) by (auto intro: callers_advance_same handler_step_callers)
next
  case (CompleteRead r)
  then show ?thesis using assms(1) by (auto split: if_splits intro: callers_advance_read)
next
  case ClosePost
  then show ?thesis using assms(1) by (auto split: list.splits simp: callers_advance_def)
next
  case RollBack
  then have "st' = (release_slots 1 st)\<lparr> ss_over := ss_over st - 1 \<rparr>" using assms(1) by (simp split: if_splits)
  then show ?thesis by (auto simp: callers_advance_def release_slots_def)
next
  case (CompleteWrite r)
  then show ?thesis using assms(1) by (auto split: if_splits intro: callers_advance_same)
next
  case (CompleteWait e)
  then show ?thesis using assms(1) by (auto split: if_splits intro: callers_advance_same)
next
  case StartSession
  then show ?thesis using assms(1) by (auto simp: start_session_def intro: callers_advance_same)
next
  case (CloseExchange reason)
  then show ?thesis using assms(1) by (auto intro: callers_advance_same)
qed (use assms(2) in \<open>simp_all add: is_enter_def\<close>)

lemma enter_callers:
  "callers_ok st \<Longrightarrow> callers_ok (enter_send (send_check data st) st)"
  "callers_ok st \<Longrightarrow> callers_ok (enter_send (send_message_check m st) st)"
  "ss_max_send_queue (enter_send r st) = ss_max_send_queue st"
  by (auto simp: callers_ok_def enter_send_def send_check_def send_message_check_def split: sum.split)

lemma session_act_callers_ok:
  assumes "callers_ok st" "session_act J a st = Some st'"
  shows "callers_ok st'" "ss_max_send_queue st' = ss_max_send_queue st"
proof -
  have "callers_ok st' \<and> ss_max_send_queue st' = ss_max_send_queue st"
  proof (cases "is_enter a")
    case True
    then show ?thesis using assms enter_callers by (cases a) (auto simp: is_enter_def)
  next
    case False
    with session_act_callers [OF assms(2)] have "callers_advance st st'" by simp
    with callers_ok_subset [OF assms(1), of st'] show ?thesis by (simp add: callers_advance_def)
  qed
  then show "callers_ok st'" "ss_max_send_queue st' = ss_max_send_queue st" by auto
qed

lemma session_reach_new:
  assumes "session_reach J (new_session i addr pl mf mq t) st"
  shows "session_inv st \<and> callers_ok st \<and> ss_max_send_queue st = mq"
  using assms
proof (induction rule: session_reach.induct)
  case start
  show ?case using new_session_inv by (simp add: new_session_def callers_ok_def)
next
  case (step st a st')
  with session_act_inv [of st J a st'] session_act_callers_ok [of st J a st'] show ?case by simp
qed

subsection \<open>Progress\<close>

text \<open>
  The actions a session takes on its own once the peer and the callers are silent, a bound on how many
  of them are left, and the states in which none is left.
\<close>

definition is_internal :: "'j action \<Rightarrow> bool" where
  "is_internal a =
     (case a of
        Reserve _ \<Rightarrow> True | RollBack \<Rightarrow> True | PostJob _ \<Rightarrow> True | RunStrand \<Rightarrow> True | RunHandler \<Rightarrow> True
      | CompleteWrite _ \<Rightarrow> True | ClosePost \<Rightarrow> True | _ \<Rightarrow> False)"

definition handler_work :: "nat \<Rightarrow> 'j handler \<Rightarrow> nat" where
  "handler_work writing h =
     (case h of
        HIdle \<Rightarrow> 4 * writing
      | HRelease \<Rightarrow> 4 * writing + 1
      | HPush _ \<Rightarrow> 4 * writing + 8
      | HWritten \<Rightarrow> 3
      | HPop \<Rightarrow> 2
      | HWriteError _ \<Rightarrow> 1
      | HTimeout \<Rightarrow> 4 * writing + 1
      | HDeliver rs \<Rightarrow> 4 * writing + 1 + length rs
      | HDeliverFrames ps \<Rightarrow> 4 * writing + 1 + length ps)"

definition work :: "'j session \<Rightarrow> nat" where
  "work st =
     11 * length (ss_checked st) + ss_over st + 10 * length (ss_admitted st) + 9 * length (ss_strand st) +
     3 * length (ss_send_queue st) + handler_work (ss_writing st) (ss_handler st) +
     10 * length (ss_closing st) + (if ss_alive st then 10 else 0)"

definition settled :: "'j session \<Rightarrow> bool" where
  "settled st \<longleftrightarrow>
     ss_checked st = [] \<and> ss_over st = 0 \<and> ss_admitted st = [] \<and> ss_strand st = [] \<and> ss_handler st = HIdle \<and>
     ss_writing st = 0 \<and> ss_closing st = []"

lemma work_upd [simp]:
  "work (st\<lparr> ss_error_code := c \<rparr>) = work st" "work (st\<lparr> ss_queued_count := k \<rparr>) = work st"
  "work (st\<lparr> ss_pipeline := pl \<rparr>) = work st" "work (st\<lparr> ss_send_in_progress := ip \<rparr>) = work st"
  "work (st\<lparr> ss_enqueued := e \<rparr>) = work st" "work (st\<lparr> ss_written := e \<rparr>) = work st"
  "work (st\<lparr> ss_packets := ds \<rparr>) = work st" "work (st\<lparr> ss_messages := ms \<rparr>) = work st"
  "work (release_slots n st) = work st"
  by (simp_all add: work_def release_slots_def)

lemma work_close: "work (handle_error reason st) \<le> work st"
  by (simp add: work_def handle_error_def close_session_def)

lemma work_receive [simp]: "work (do_receive st) = work st"
  by (simp add: work_def do_receive_def Let_def)

lemma work_drop: "work (drop_queue st) \<le> work st"
  by (simp add: work_def drop_queue_def release_slots_def Let_def)

lemma work_run_job:
  assumes "run_job J job st = Some st'" "ss_handler st = HIdle"
  shows "work st' \<le> work st + 8"
proof -
  have "work (st\<lparr> ss_handler := h \<rparr>) \<le> work st + 8" if "h = HRelease \<or> (\<exists>f. h = HPush f)" for h
    using that assms(2) by (auto simp: work_def handler_work_def)
  moreover have "work (st\<lparr> ss_pipeline := pl, ss_handler := h \<rparr>) = work (st\<lparr> ss_handler := h \<rparr>)" for pl h
    by (simp add: work_def)
  ultimately show ?thesis using assms(1) work_drop [of st]
    by (auto simp: run_job_def run_send_frame_def run_send_message_def Let_def
        split: job.splits if_splits option.splits sum.splits prod.splits)
qed

lemma work_reserve:
  "i < length (ss_checked st) \<Longrightarrow>
   work (reserve_slot job (st\<lparr> ss_checked := remove_nth i (ss_checked st) \<rparr>)) < work st"
  by (cases "ss_checked st") (auto simp: work_def reserve_slot_def Let_def)

lemma work_completed:
  assumes "session_inv st" "0 < ss_writing st" "ss_handler st = HIdle"
  shows "work (write_completed r st) < work st"
  using assms by (auto simp: write_completed_def end_write_def work_def handler_work_def split: write_result.splits)

lemma work_deliver:
  assumes "ss_handler st = HDeliver (r # rs)"
  shows "work (deliver_result J pl r rs st) < work st"
proof -
  have "work (st\<lparr> ss_handler := HDeliver rs \<rparr>) < work st" "work (st\<lparr> ss_handler := HIdle \<rparr>) < work st"
    using assms by (simp_all add: work_def handler_work_def)
  moreover have "work (handle_error reason (st\<lparr> ss_handler := HIdle \<rparr>)) \<le> work (st\<lparr> ss_handler := HIdle \<rparr>)" for reason
    by (rule work_close)
  ultimately show ?thesis
    by (auto simp: deliver_result_def split: prod.splits intro: order_le_less_trans)
qed

lemma work_pop:
  assumes "session_inv st" "ss_handler st = HPop"
  shows "work (pop_written st) < work st"
proof -
  have "ss_writing st = 1" "ss_send_queue st \<noteq> []"
    using session_invD(2) [OF assms(1)] assms(2) by (auto simp: writes_ok_def in_write_def)
  then show ?thesis
    using assms(2) by (cases "ss_send_queue st") (auto simp: pop_written_def end_write_def do_async_write_def work_def handler_work_def)
qed

lemma work_handler:
  assumes "session_inv st" "handler_step J st = Some st'"
  shows "work st' < work st"
proof -
  have idle: "work (st\<lparr> ss_handler := HIdle \<rparr>) < work st" if "ss_handler st \<noteq> HIdle" "\<not> in_write (ss_handler st)"
    using that by (cases "ss_handler st") (auto simp: work_def handler_work_def in_write_def)
  have err: "work (handle_error reason (st\<lparr> ss_handler := HIdle \<rparr>)) < work st"
    if "ss_handler st \<noteq> HIdle" "\<not> in_write (ss_handler st)" for reason
    using work_close [of reason "st\<lparr> ss_handler := HIdle \<rparr>"] idle [OF that] by simp
  show ?thesis
  proof (cases "ss_handler st")
    case (HPush f)
    then show ?thesis using assms(2)
      by (auto simp: handler_step_def enqueue_frame_def do_async_write_def work_def handler_work_def Let_def
          split: if_splits)
  next
    case (HWriteError m)
    then have "ss_writing st = 1"
      using session_invD(2) [OF assms(1)] by (auto simp: writes_ok_def in_write_def)
    then have "work (end_write st) < work st"
      using HWriteError by (simp add: end_write_def work_def handler_work_def)
    with work_close [of m "end_write st"] show ?thesis using assms(2) HWriteError by (auto simp: handler_step_def)
  next
    case (HDeliver rs)
    then show ?thesis using assms(2) work_deliver [of st] idle
      by (auto simp: handler_step_def in_write_def split: list.splits option.splits)
  next
    case (HDeliverFrames ps)
    then show ?thesis using assms(2) idle
      by (auto simp: handler_step_def in_write_def split: list.splits) (simp add: work_def handler_work_def)
  next
    case HRelease
    then show ?thesis using assms(2) by (auto simp: handler_step_def release_slots_def work_def handler_work_def)
  next
    case HWritten
    then show ?thesis using assms(2) by (auto simp: handler_step_def release_slots_def work_def handler_work_def)
  next
    case HPop
    then show ?thesis using assms work_pop by (auto simp: handler_step_def)
  next
    case HTimeout
    then show ?thesis using assms(2) err by (auto simp: handler_step_def in_write_def)
  qed (use assms(2) in \<open>simp add: handler_step_def\<close>)
qed

lemma internal_decreases:
  assumes "session_inv st" "is_internal a" "session_act J a st = Some st'"
  shows "work st' < work st"
proof (cases a)
  case (Reserve i)
  then show ?thesis using assms(3) work_reserve [of i st] by (auto split: if_splits)
next
  case RollBack
  then show ?thesis using assms(3) by (auto simp: work_def release_slots_def split: if_splits)
next
  case (PostJob i)
  then show ?thesis using assms(3) by (auto simp: work_def split: if_splits)
next
  case RunStrand
  then obtain job jobs where run: "ss_strand st = job # jobs" "ss_handler st = HIdle"
    "run_job J job (st\<lparr> ss_strand := jobs \<rparr>) = Some st'"
    using assms(3) by (auto split: list.splits if_splits)
  have "work (st\<lparr> ss_strand := jobs \<rparr>) + 9 = work st" using run(1) by (simp add: work_def)
  with work_run_job [OF run(3)] run(2) show ?thesis by simp
next
  case RunHandler
  then show ?thesis using assms work_handler by auto
next
  case (CompleteWrite r)
  then show ?thesis using assms(3) work_completed [OF assms(1), of r] by (auto split: if_splits)
next
  case ClosePost
  then show ?thesis using assms(3) by (auto simp: work_def split: list.splits)
qed (use assms(2) in \<open>simp_all add: is_internal_def\<close>)

text \<open>A typed getter of the JSON library returns on a value of its type.\<close>

definition getters_total :: "'j json_api \<Rightarrow> bool" where
  "getters_total J \<longleftrightarrow>
     (\<forall>v. js_is_number_unsigned J v \<longrightarrow> (\<exists>n. js_get_u32 J v = Inr n)) \<and>
     (\<forall>v. js_is_string J v \<longrightarrow> (\<exists>s. js_get_string J v = Inr s))"

lemma getters_totalD:
  "getters_total J \<Longrightarrow> js_is_number_unsigned J v \<Longrightarrow> js_get_u32 J v \<noteq> Inl e"
  "getters_total J \<Longrightarrow> js_is_string J v \<Longrightarrow> js_get_string J v \<noteq> Inl e"
  by (force simp: getters_total_def)+

lemma first_found_Inl: "first_found xs = Inl e \<Longrightarrow> Inl e \<in> set xs"
  by (induction xs rule: first_found.induct) auto

lemma outbound_returns:
  assumes "getters_total J"
  shows "outbound_by_id J routes m f b \<noteq> Inl e" "outbound_by_name J routes m f b \<noteq> Inl e"
  using getters_totalD [OF assms] by (auto simp: outbound_by_id_def outbound_by_name_def split: sum.split)

lemma outbound_by_message_returns: "getters_total J \<Longrightarrow> outbound_by_message J routes b \<noteq> Inl e"
  using outbound_returns [of J] unfolding outbound_by_message_def
  by (auto split: option.split dest!: first_found_Inl) metis+

lemma resolve_outbound_returns:
  assumes "getters_total J"
  shows "resolve_outbound_route J routes b \<noteq> Inl e"
proof -
  obtain r where "outbound_by_message J routes b = Inr r"
    using outbound_by_message_returns [OF assms] by (cases "outbound_by_message J routes b") auto
  then show ?thesis unfolding resolve_outbound_route_def by (simp split: option.split)
qed

lemma encode_message_returns:
  assumes "getters_total J"
  shows "encode_message J pl body \<noteq> Inl e"
proof -
  obtain r where "resolve_outbound_route J (pp_routes pl) body = Inr r"
    using resolve_outbound_returns [OF assms] by (cases "resolve_outbound_route J (pp_routes pl) body") auto
  then show ?thesis unfolding encode_message_def by (simp split: option.split sum.split prod.split)
qed

lemma handler_step_enabled:
  assumes "session_inv st" "ss_handler st \<noteq> HIdle"
  shows "handler_step J st \<noteq> None"
  using session_invD(4) [OF assms(1)] assms(2)
  by (auto simp: handler_step_def reads_ok_def split: handler.split list.split option.split)

lemma unsettled_step:
  assumes "session_inv st" "callers_ok st" "getters_total J" "\<not> settled st"
  shows "\<exists>a. is_internal a \<and> session_act J a st \<noteq> None"
proof -
  consider (checked) "ss_checked st \<noteq> []" | (over) "0 < ss_over st" | (admitted) "ss_admitted st \<noteq> []"
    | (closing) "ss_closing st \<noteq> []" | (handler) "ss_handler st \<noteq> HIdle"
    | (writing) "0 < ss_writing st" "ss_handler st = HIdle" | (strand) "ss_strand st \<noteq> []" "ss_handler st = HIdle"
    using assms(4) by (auto simp: settled_def)
  then show ?thesis
  proof cases
    case checked
    then show ?thesis by (intro exI [of _ "Reserve 0"]) (simp add: is_internal_def)
  next
    case over
    then show ?thesis by (intro exI [of _ RollBack]) (simp add: is_internal_def)
  next
    case admitted
    then show ?thesis by (intro exI [of _ "PostJob 0"]) (simp add: is_internal_def)
  next
    case closing
    then show ?thesis by (intro exI [of _ ClosePost]) (simp add: is_internal_def split: list.split)
  next
    case handler
    then show ?thesis using handler_step_enabled [OF assms(1)] by (intro exI [of _ RunHandler]) (simp add: is_internal_def)
  next
    case writing
    then show ?thesis by (intro exI [of _ "CompleteWrite WriteOk"]) (simp add: is_internal_def)
  next
    case strand
    then obtain job jobs where s: "ss_strand st = job # jobs" by (cases "ss_strand st") auto
    have "ss_pipeline st \<noteq> None" if "job = SendMessage m" for m
      using assms(2) s that by (auto simp: callers_ok_def)
    then have "run_job J job (st\<lparr> ss_strand := jobs \<rparr>) \<noteq> None"
      using encode_message_returns [OF assms(3)]
      by (auto simp: run_job_def run_send_message_def Let_def split: job.split sum.split option.split)
    with s strand(2) show ?thesis by (intro exI [of _ RunStrand]) (simp add: is_internal_def)
  qed
qed

lemma settled_inv:
  assumes "session_inv st" "settled st"
  shows "ss_queued_count st = 0 \<and> ss_send_queue st = [] \<and>
    (if ss_alive st then ss_written st = ss_enqueued st \<and> ss_disconnects st = []
     else \<exists>reason. ss_disconnects st = [reason])"
proof -
  have "ss_send_queue st = []" using assms by (cases "ss_alive st") (auto simp: inv_defs settled_def split: if_splits)
  moreover have "ss_queued_count st = 0" using assms calculation by (simp add: inv_defs settled_def)
  moreover have "\<exists>reason. ss_disconnects st = [reason]" if "\<not> ss_alive st"
    using assms that by (auto simp: inv_defs settled_def length_Suc_conv)
  ultimately show ?thesis using assms by (auto simp: inv_defs)
qed

subsection \<open>A short run\<close>

fun run_actions :: "'j json_api \<Rightarrow> 'j action list \<Rightarrow> 'j session \<Rightarrow> 'j session option" where
  "run_actions J [] st = Some st"
| "run_actions J (a # as) st = (case session_act J a st of None \<Rightarrow> None | Some st' \<Rightarrow> run_actions J as st')"

lemma session_reach_trans: "session_reach J st1 st2 \<Longrightarrow> session_reach J st0 st1 \<Longrightarrow> session_reach J st0 st2"
  by (induction rule: session_reach.induct) (auto intro: session_reach.step)

lemma run_actions_reach: "run_actions J as st = Some st' \<Longrightarrow> session_reach J st st'"
proof (induction as arbitrary: st)
  case Nil
  then show ?case by (simp add: session_reach.start)
next
  case (Cons a as)
  then obtain st1 where "session_act J a st = Some st1" "session_reach J st1 st'" by (auto split: option.splits)
  then show ?case by (meson session_reach.start session_reach.step session_reach_trans)
qed

definition sample_addr :: RemoteAddress where
  "sample_addr = \<lparr> ra_ip = ''10.0.0.7'', ra_port = 4000 \<rparr>"

text \<open>Two callers race for the single slot of the queue; the first frame is being written.\<close>

definition sample_session :: "sample session" where
  "sample_session = the (run_actions sample_J
     [EnterSend [1, 2], EnterSend [3], Reserve 0, Reserve 0, PostJob 0, RunStrand, RunHandler]
     (new_session 1 sample_addr None 0 1 0))"

lemma sample_run:
  "run_actions sample_J [EnterSend [1, 2], EnterSend [3], Reserve 0, Reserve 0, PostJob 0, RunStrand, RunHandler]
     (new_session 1 sample_addr None 0 1 0) = Some sample_session"
  "ss_queued_count sample_session = 2" "ss_over sample_session = 1" "ss_send_queue sample_session = [[1, 2]]"
  "ss_enqueued sample_session = [[1, 2]]" "ss_writing sample_session = 1" "ss_alive sample_session"
  "accepted sample_session = 1" "\<not> settled sample_session"
  by (simp_all add: sample_session_def new_session_def enter_send_def send_check_def reserve_slot_def remove_nth_def
      Let_def run_job_def run_send_frame_def handler_step_def enqueue_frame_def do_async_write_def accepted_def
      handler_slots_def unwritten_def settled_def)

lemma sample_reach: "session_reach sample_J (new_session 1 sample_addr None 0 1 0) sample_session"
  by (rule run_actions_reach [OF sample_run(1)])

lemma sample_getters: "getters_total sample_J"
  by (auto simp: getters_total_def sample_J_def sample_api_def split: sample.splits)

subsection \<open>Properties\<close>

text \<open>
  C7. Backpressure is hard: whatever the interleaving of callers, strand and completions, the atomic
  counter is exactly the number of slots held (so it never underflows), and with a limit the messages
  accepted and not yet written never exceed it.
\<close>

theorem session_backpressure:
  assumes "session_reach J (new_session i addr pl max_frame_size max_send_queue timeout) st"
  shows "ss_queued_count st = int (ss_over st + accepted st) \<and>
    (0 < max_send_queue \<longrightarrow> accepted st \<le> max_send_queue \<and> length (ss_send_queue st) \<le> max_send_queue)"
  using session_reach_new [OF assms] by (auto simp: session_inv_def slots_ok_def)

theorem session_backpressure_witness:
  "ss_queued_count sample_session = int (1 + accepted sample_session) \<and> accepted sample_session \<le> 1"
  using session_backpressure [OF sample_reach] sample_run(3) by simp

text \<open>
  C10. Frames leave in the order they were queued: the frames written are a prefix of the frames
  queued, at most one write is outstanding, and while the session is alive the rest is the queue and
  a write is outstanding exactly when the queue is not empty (no wake-up is lost).
\<close>

theorem session_writes_in_order:
  assumes "session_reach J (new_session i addr pl max_frame_size max_send_queue timeout) st"
  shows "(\<exists>rest. ss_enqueued st = ss_written st @ rest) \<and> ss_writing st \<le> 1 \<and>
    (ss_alive st \<longrightarrow> ss_enqueued st = ss_written st @ ss_send_queue st \<and>
       (ss_writing st = 1 \<longleftrightarrow> ss_send_queue st \<noteq> []))"
  using session_reach_new [OF assms] by (auto simp: session_inv_def writes_ok_def split: if_splits)

theorem session_writes_in_order_witness:
  "ss_enqueued sample_session = ss_written sample_session @ [[1, 2]] \<and> ss_writing sample_session = 1"
  using session_writes_in_order [OF sample_reach] sample_run by simp

text \<open>
  C9. Left alone, a session settles: every action it takes on its own uses up work, such an action is
  possible until it has settled, and then every slot is free, a live session has written all it
  queued, and a closed one has called \<open>on_disconnect\<close> exactly once.
\<close>

theorem session_settles:
  assumes "session_reach J (new_session i addr pl max_frame_size max_send_queue timeout) st"
    and "getters_total J"
  shows "(\<forall>a st'. is_internal a \<and> session_act J a st = Some st' \<longrightarrow> work st' < work st) \<and>
    (if settled st
     then ss_queued_count st = 0 \<and> ss_send_queue st = [] \<and>
       (if ss_alive st then ss_written st = ss_enqueued st \<and> ss_disconnects st = []
        else \<exists>reason. ss_disconnects st = [reason])
     else \<exists>a. is_internal a \<and> session_act J a st \<noteq> None)"
  using session_reach_new [OF assms(1)] internal_decreases [of st _ J] unsettled_step [of st J] assms(2)
    settled_inv [of st] by auto

theorem session_settles_witness:
  "\<exists>a. is_internal a \<and> session_act sample_J a sample_session \<noteq> None"
  using session_settles [OF sample_reach sample_getters] sample_run(9) by simp

text \<open>
  C19. Receiving, whatever callers, callbacks and closes come between the steps of the handlers: every packet
  handed to \<open>on_packet\<close> carries no error, is not a dropped one and is decoded when its route asks for it;
  while the session is alive each call of \<open>start\<close> has exactly one read outstanding or in its handler, so
  reading neither stops nor doubles; and a handler that is running can always take its next step.
\<close>

theorem session_receive_sound:
  assumes "session_reach J (new_session i addr pl max_frame_size max_send_queue timeout) st"
  shows "(\<forall>d \<in> set (ss_packets st).
      result_ok d \<and> dr_action d \<noteq> Drop \<and> (dr_action d = DecodeLocal \<longrightarrow> result_decoded d)) \<and>
    (ss_alive st \<longrightarrow> ss_reading st + (if in_read (ss_handler st) then 1 else 0) = ss_starts st) \<and>
    (ss_handler st \<noteq> HIdle \<longrightarrow> session_act J RunHandler st \<noteq> None)"
  using session_reach_new [OF assms] handler_step_enabled [of st J]
  by (auto simp: session_inv_def reads_ok_def deliverable_result_def)

text \<open>A started session whose read handler has begun, and which another thread may still close.\<close>

definition sample_reader :: "sample session" where
  "sample_reader = (new_session 1 sample_addr None 0 1 0)\<lparr> ss_starts := 1, ss_handler := HDeliverFrames [] \<rparr>"

lemma sample_reader_reach: "session_reach sample_J (new_session 1 sample_addr None 0 1 0) sample_reader"
proof -
  have "decoder_feed (new_FrameDecoder 0) [] = ([], new_FrameDecoder 0)" by code_simp
  then have "run_actions sample_J [StartSession, CompleteRead (ReadBytes [])] (new_session 1 sample_addr None 0 1 0)
      = Some sample_reader"
    by (simp add: sample_reader_def new_session_def start_session_def do_receive_def read_completed_def
        receive_frames_def new_FrameDecoder_def)
  then show ?thesis by (rule run_actions_reach)
qed

theorem session_receive_sound_witness:
  "ss_alive sample_reader \<and> in_read (ss_handler sample_reader) \<and> ss_reading sample_reader + 1 = ss_starts sample_reader \<and>
   session_act sample_J RunHandler sample_reader \<noteq> None"
  using session_receive_sound [OF sample_reader_reach]
  by (simp add: sample_reader_def new_session_def in_read_def del: session_act.simps)

text \<open>
  The read handler does not look at \<open>alive_\<close>: a read that completed before a close still delivers its packets
  to \<open>on_packet\<close> after \<open>on_disconnect\<close> was called.
\<close>

lemma closed_session_delivers:
  assumes "\<not> ss_alive st" "ss_handler st = HIdle" "0 < ss_reading st" "length bs \<le> receive_buffer_size"
    and "ss_pipeline st = Some pl" "pipeline_feed J pl (Some bs) (length bs) = Some (r # rs, pl')" "pp_error pl' = []"
    and "result_ok r" "dr_action r = ForwardRaw"
  shows "\<exists>st'. run_actions J [CompleteRead (ReadBytes bs), RunHandler] st = Some st' \<and>
    ss_packets st' = ss_packets st @ [r] \<and> ss_disconnects st' = ss_disconnects st \<and> \<not> ss_alive st'"
  using assms
  by (simp add: read_completed_def receive_packets_def handler_step_def deliver_result_def should_drop_def result_ok_def)

text \<open>
  C8. Two sessions with the same protocol configuration: the message a caller hands to
  \<open>send_message\<close>, sendable on a route that is decoded locally, is queued as one frame by the sender's strand,
  and the peer that reads this frame hands exactly one packet to \<open>on_packet\<close>, on the message's route and
  decoded to the same message, and goes on reading.
\<close>

theorem session_message_delivered:
  assumes "deliverable J profile routes codecs body route m b"
    and "pl = new_ProtocolPipeline profile routes codecs"
    and "ss_alive sender" "ss_pipeline sender = Some pl" "ss_strand sender = SendMessage body # jobs"
    and "ss_alive peer" "ss_pipeline peer = Some pl"
    and "ss_handler sender = HIdle" "ss_handler peer = HIdle"
  shows "\<exists>frame sender' peer' d.
    run_actions J [RunStrand, RunHandler] sender = Some sender' \<and>
    ss_send_queue sender' = ss_send_queue sender @ [frame] \<and> ss_pipeline sender' = Some pl \<and>
    read_completed J (ReadBytes frame) peer = Some peer' \<and>
    run_actions J [RunHandler, RunHandler] peer' = Some (do_receive (peer\<lparr> ss_packets := ss_packets peer @ [d] \<rparr>)) \<and>
    dr_route d = Some route \<and> map_option db_message (dr_decoded_body d) = Some (Some m)"
proof -
  obtain out res decoded where rt: "encode_message J pl body = Inr (out, pl)"
    "pipeline_feed J pl (Some out) (length out) = Some ([res], pl)"
    "dr_route res = Some route" "dr_error res = []" "dr_action res = DecodeLocal" "out \<noteq> []"
    "materialize_decode J pl res = (True, decoded)"
    "map_option db_message (dr_decoded_body decoded) = Some (Some m)"
    using deliverable_roundtrip [OF assms(1,2)] by blast
  have same: "s\<lparr> ss_pipeline := Some pl \<rparr> = s" if "ss_pipeline s = Some pl" for s :: "'a session"
    using that by (cases s) simp
  have err: "pp_error pl = []" by (simp add: assms(2) new_ProtocolPipeline_def)
  have route: "dr_route decoded = Some route"
    using rt(3,5,7) by (auto simp: materialize_decode_def split: if_splits option.splits sum.splits)
  let ?peer = "peer\<lparr> ss_handler := HDeliver [res] \<rparr>"
  have read: "read_completed J (ReadBytes out) peer = Some ?peer"
    using rt(2) err assms(7) same [OF assms(7)] by (simp add: read_completed_def receive_packets_def)
  have idle: "peer\<lparr> ss_packets := ds, ss_handler := HIdle \<rparr> = peer\<lparr> ss_packets := ds \<rparr>" for ds
    using assms(9) by (cases peer) simp
  have deliver: "run_actions J [RunHandler, RunHandler] ?peer = Some (do_receive (peer\<lparr> ss_packets := ss_packets peer @ [decoded] \<rparr>))"
    using rt(4,5,7) assms(7) idle [of "ss_packets peer @ [decoded]"]
    by (simp add: handler_step_def deliver_result_def result_ok_def should_drop_def)
  define sender' where "sender' = enqueue_frame out (sender\<lparr> ss_strand := jobs, ss_pipeline := Some pl, ss_handler := HIdle \<rparr>)"
  have send: "run_actions J [RunStrand, RunHandler] sender = Some sender'"
    using rt(1,6) err assms(3,4,5,8)
    by (simp add: run_job_def run_send_message_def handler_step_def sender'_def Let_def)
  have "ss_send_queue sender' = ss_send_queue sender @ [out]" "ss_pipeline sender' = Some pl"
    by (simp_all add: sender'_def enqueue_frame_def do_async_write_def Let_def)
  with send read deliver route rt(8) show ?thesis by blast
qed

definition sample_peer :: "sample session" where
  "sample_peer = new_session 2 sample_addr (Some (new_ProtocolPipeline sample_profile sample_routes sample_codecs)) 0 0 0"

theorem session_message_delivered_witness:
  "\<exists>frame sender' peer' d.
    run_actions sample_J [RunStrand, RunHandler] (sample_peer\<lparr> ss_strand := [SendMessage sample_body] \<rparr>) = Some sender' \<and>
    ss_send_queue sender' = [frame] \<and>
    read_completed sample_J (ReadBytes frame) sample_peer = Some peer' \<and>
    run_actions sample_J [RunHandler, RunHandler] peer' = Some (do_receive (sample_peer\<lparr> ss_packets := [d] \<rparr>)) \<and>
    dr_route d = Some sample_route \<and> map_option db_message (dr_decoded_body d) = Some (Some (SStr ''hi''))"
proof -
  have "ss_alive sample_peer" "ss_send_queue sample_peer = []" "ss_handler sample_peer = HIdle" "ss_packets sample_peer = []"
    "ss_pipeline sample_peer = Some (new_ProtocolPipeline sample_profile sample_routes sample_codecs)"
    by (simp_all add: sample_peer_def new_session_def)
  with session_message_delivered [OF sample_deliverable refl,
      of "sample_peer\<lparr> ss_strand := [SendMessage sample_body] \<rparr>" "[]" sample_peer]
  show ?thesis by (simp del: session_act.simps run_actions.simps) blast
qed

end
