(* ===== verification/Topo_Order.thy ===== *)
theory Topo_Order
  imports Shield_Prelude "HOL-Library.List_Lexorder" "HOL-Library.Char_ord"
begin

section \<open>Start order of plugin instances\<close>

text \<open>
  The last part of \<open>PluginHost::plan_and_resolve\<close> of \<open>src/src/plugin/plugin_host.cpp\<close>: in-degrees and
  adjacency lists of the dependency graph, and Kahn's algorithm, which the source runs twice, once to
  count the visited nodes and once to collect them.  A graph is the list of instances with their
  resolved dependencies.  \<open>std::map\<close> iterates in key order, so the first queue is sorted; reading a
  missing key of the in-degree map creates a zero, which \<open>int_at\<close> returns.
\<close>

type_synonym nodes = "(string \<times> string list) list"

definition int_at :: "(string, int) umap \<Rightarrow> string \<Rightarrow> int" where
  "int_at m k = (case umap_find k m of Some v \<Rightarrow> v | None \<Rightarrow> 0)"

definition list_at :: "(string, string list) umap \<Rightarrow> string \<Rightarrow> string list" where
  "list_at m k = (case umap_find k m of Some v \<Rightarrow> v | None \<Rightarrow> [])"

definition zero_indegrees :: "nodes \<Rightarrow> (string, int) umap" where
  "zero_indegrees ns = foldl (\<lambda>m n. umap_put (fst n) 0 m) [] ns"

definition add_edge ::
  "string \<Rightarrow> (string, string list) umap \<times> (string, int) umap \<Rightarrow> string \<Rightarrow>
     (string, string list) umap \<times> (string, int) umap" where
  "add_edge i g dep =
     (umap_put dep (list_at (fst g) dep @ [i]) (fst g), umap_put i (int_at (snd g) i + 1) (snd g))"

definition build_graph :: "nodes \<Rightarrow> (string, string list) umap \<times> (string, int) umap" where
  "build_graph ns = foldl (\<lambda>g n. foldl (add_edge (fst n)) g (snd n)) ([], zero_indegrees ns) ns"

definition ready :: "(string, int) umap \<Rightarrow> string list" where
  "ready indeg = filter (\<lambda>k. int_at indeg k = 0) (sort (map fst indeg))"

fun release :: "string list \<Rightarrow> (string, int) umap \<Rightarrow> string list \<Rightarrow> (string, int) umap \<times> string list" where
  "release [] work q = (work, q)"
| "release (m # ms) work q =
     (let w = int_at work m - 1; work' = umap_put m w work in
      release ms work' (if w = 0 then q @ [m] else q))"

definition positive :: "(string, int) umap \<Rightarrow> string set" where
  "positive work = {k. 0 < int_at work k}"

lemma int_at_put [simp]: "int_at (umap_put k v m) k' = (if k' = k then v else int_at m k')"
  by (simp add: int_at_def)

lemma list_at_put [simp]: "list_at (umap_put k v m) k' = (if k' = k then v else list_at m k')"
  by (simp add: list_at_def)

lemma finite_positive: "finite (positive work)"
proof (rule finite_subset)
  show "positive work \<subseteq> fst ` set work"
    by (auto simp: positive_def int_at_def umap_find_def split: option.splits dest: map_of_SomeD intro: rev_image_eqI)
qed simp

lemma release_measure:
  "release ms work q = (work', q') \<Longrightarrow> length q' + card (positive work') \<le> length q + card (positive work)"
proof (induction ms arbitrary: work q)
  case (Cons m ms)
  let ?w = "int_at work m - 1"
  have pos: "positive (umap_put m ?w work) = (if ?w \<le> 0 then positive work - {m} else positive work)"
    by (auto simp: positive_def)
  have "length (if ?w = 0 then q @ [m] else q) + card (positive (umap_put m ?w work)) \<le> length q + card (positive work)"
  proof (cases "?w = 0")
    case True
    then have "m \<in> positive work" by (simp add: positive_def)
    then have "card (positive work) = Suc (card (positive work - {m}))"
      using finite_positive by (metis card_Suc_Diff1)
    with True pos show ?thesis by simp
  next
    case False
    with pos show ?thesis by (auto intro: card_mono finite_positive)
  qed
  with Cons show ?case by (fastforce simp: Let_def)
qed simp

function kahn_loop ::
  "(string, string list) umap \<Rightarrow> string list \<Rightarrow> (string, int) umap \<Rightarrow> string list \<Rightarrow> string list" where
  "kahn_loop adj [] work order = order"
| "kahn_loop adj (n # q) work order =
     (case release (list_at adj n) work q of (work', q') \<Rightarrow> kahn_loop adj q' work' (order @ [n]))"
  by pat_completeness auto

termination
  by (relation "measure (\<lambda>(adj, q, work, order). length q + card (positive work))")
    (auto dest!: release_measure [OF sym])

definition kahn_order :: "nodes \<Rightarrow> string list" where
  "kahn_order ns = (case build_graph ns of (adj, indeg) \<Rightarrow> kahn_loop adj (ready indeg) indeg [])"

text \<open>\<open>None\<close> is the error for a circular dependency.\<close>

definition start_order_of :: "nodes \<Rightarrow> string list option" where
  "start_order_of ns = (if length (kahn_order ns) \<noteq> length ns then None else Some (kahn_order ns))"

subsection \<open>The graph\<close>

definition ids :: "nodes \<Rightarrow> string set" where
  "ids ns = set (map fst ns)"

definition deps :: "nodes \<Rightarrow> string \<Rightarrow> string list" where
  "deps ns i = (case map_of ns i of Some ds \<Rightarrow> ds | None \<Rightarrow> [])"

definition nodes_ok :: "nodes \<Rightarrow> bool" where
  "nodes_ok ns \<longleftrightarrow> distinct (map fst ns) \<and> (\<forall>i. set (deps ns i) \<subseteq> ids ns)"

text \<open>\<open>(d, i)\<close>: instance \<open>i\<close> depends on instance \<open>d\<close>.\<close>

definition depends :: "nodes \<Rightarrow> (string \<times> string) set" where
  "depends ns = {(d, i). d \<in> set (deps ns i)}"

lemma umap_put_keys [simp]: "fst ` set (umap_put k v m) = insert k (fst ` set m)"
  by (simp add: umap_put_def dom_update)

lemma zero_indegrees_at: "int_at (zero_indegrees ns) k = 0"
proof -
  have "int_at (foldl (\<lambda>m n. umap_put (fst n) 0 m) m ns) k = 0" if "int_at m k = 0" for m
    using that by (induction ns arbitrary: m) auto
  then show ?thesis by (simp add: zero_indegrees_def int_at_def)
qed

lemma zero_indegrees_keys: "fst ` set (zero_indegrees ns) = ids ns \<and> umap_wf (zero_indegrees ns)"
proof -
  have "fst ` set (foldl (\<lambda>m n. umap_put (fst n) 0 m) m ns) = fst ` set m \<union> ids ns \<and>
      umap_wf (foldl (\<lambda>m n. umap_put (fst n) 0 m) m ns)" if "umap_wf m" for m :: "(string, int) umap"
    using that by (induction ns arbitrary: m) (simp_all add: ids_def)
  from this [of "[]"] show ?thesis by (simp add: zero_indegrees_def)
qed

lemma add_edges:
  assumes "foldl (add_edge i) g ds = (adj, indeg)"
  shows "count_list (list_at adj d) m = count_list (list_at (fst g) d) m + (if m = i then count_list ds d else 0)"
    and "int_at indeg k = int_at (snd g) k + (if k = i then int (length ds) else 0)"
  using assms by (induction ds arbitrary: g) (auto simp: add_edge_def)

lemma add_edges_keys:
  assumes "foldl (add_edge i) g ds = (adj, indeg)" "i \<in> fst ` set (snd g)" "umap_wf (snd g)"
  shows "fst ` set indeg = fst ` set (snd g) \<and> umap_wf indeg"
  using assms
proof (induction ds arbitrary: g)
  case (Cons d ds)
  from Cons.IH [of "add_edge i g d"] Cons.prems show ?case by (auto simp: add_edge_def)
qed simp

lemma add_edges_graph:
  assumes "foldl (\<lambda>g n. foldl (add_edge (fst n)) g (snd n)) g ns = (adj, indeg)" "distinct (map fst ns)"
  shows "count_list (list_at adj d) m = count_list (list_at (fst g) d) m + count_list (deps ns m) d"
    and "int_at indeg k = int_at (snd g) k + int (length (deps ns k))"
proof -
  have "count_list (list_at adj d) m = count_list (list_at (fst g) d) m + count_list (deps ns m) d \<and>
      int_at indeg k = int_at (snd g) k + int (length (deps ns k))"
    using assms
  proof (induction ns arbitrary: g)
    case Nil
    then show ?case by (simp add: deps_def)
  next
    case (Cons n ns)
    obtain i ds where n: "n = (i, ds)" by fastforce
    obtain adj1 indeg1 where g1: "foldl (add_edge i) g ds = (adj1, indeg1)" by fastforce
    have "i \<notin> fst ` set ns" using Cons.prems(2) n by simp
    then have "map_of ns i = None" by (simp add: map_of_eq_None_iff)
    with Cons.IH [of "(adj1, indeg1)"] Cons.prems g1 n add_edges [OF g1] show ?case
      by (auto simp: deps_def)
  qed
  then show "count_list (list_at adj d) m = count_list (list_at (fst g) d) m + count_list (deps ns m) d"
    "int_at indeg k = int_at (snd g) k + int (length (deps ns k))" by auto
qed

lemma add_edges_graph_keys:
  assumes "foldl (\<lambda>g n. foldl (add_edge (fst n)) g (snd n)) g ns = (adj, indeg)"
    "ids ns \<subseteq> fst ` set (snd g)" "umap_wf (snd g)"
  shows "fst ` set indeg = fst ` set (snd g) \<and> umap_wf indeg"
  using assms
proof (induction ns arbitrary: g)
  case (Cons n ns)
  obtain adj1 indeg1 where g1: "foldl (add_edge (fst n)) g (snd n) = (adj1, indeg1)" by fastforce
  with add_edges_keys [OF g1] Cons.IH [of "(adj1, indeg1)"] Cons.prems show ?case by (auto simp: ids_def)
qed simp

lemma build_graph_ok:
  assumes "build_graph ns = (adj, indeg)" "distinct (map fst ns)"
  shows "count_list (list_at adj d) m = count_list (deps ns m) d"
    and "int_at indeg m = int (length (deps ns m))"
    and "fst ` set indeg = ids ns" and "umap_wf indeg"
  using add_edges_graph [OF assms(1) [unfolded build_graph_def] assms(2)]
    add_edges_graph_keys [OF assms(1) [unfolded build_graph_def]] zero_indegrees_keys [of ns]
  by (simp_all add: zero_indegrees_at) (simp add: list_at_def)

subsection \<open>Releasing the dependents of a node\<close>

lemma release_work:
  assumes "release ms work q = (work', q')"
  shows "int_at work' m = int_at work m - int (count_list ms m)"
  using assms by (induction ms arbitrary: work q) (auto simp: Let_def)

text \<open>Exactly the nodes whose count of open dependencies drops to zero are appended, once each.\<close>

lemma release_queue:
  assumes "release ms work q = (work', q')" "\<forall>m. int (count_list ms m) \<le> int_at work m"
  shows "\<exists>new. q' = q @ new \<and> distinct new \<and> set new = {m \<in> set ms. int_at work m = int (count_list ms m)}"
  using assms
proof (induction ms arbitrary: work q)
  case (Cons m ms)
  let ?w = "int_at work m - 1" let ?work = "umap_put m ?w work" let ?q = "if ?w = 0 then q @ [m] else q"
  have "\<forall>k. int (count_list ms k) \<le> int_at ?work k"
  proof
    fix k show "int (count_list ms k) \<le> int_at ?work k"
      using spec [OF Cons.prems(2), of k] by (auto split: if_splits)
  qed
  moreover have "release ms ?work ?q = (work', q')" using Cons.prems(1) by (simp add: Let_def)
  ultimately obtain new where new: "q' = ?q @ new" "distinct new"
    "set new = {k \<in> set ms. int_at ?work k = int (count_list ms k)}"
    using Cons.IH [of ?work ?q] by blast
  show ?case
  proof (cases "?w = 0")
    case True
    then have "count_list ms m = 0" using spec [OF Cons.prems(2), of m] by simp
    then have m: "m \<notin> set ms" by (simp add: count_list_0_iff)
    have "k \<in> set (m # new) \<longleftrightarrow> k \<in> set (m # ms) \<and> int_at work k = int (count_list (m # ms) k)" for k
      using new(3) True \<open>count_list ms m = 0\<close> m by (cases "k = m") simp_all
    then have "set (m # new) = {k \<in> set (m # ms). int_at work k = int (count_list (m # ms) k)}" by blast
    with m new True show ?thesis by (intro exI [of _ "m # new"]) simp
  next
    case False
    have "m \<in> set ms" if "int_at work m = int (count_list (m # ms) m)"
      using that False by (rule_tac ccontr) (simp add: count_notin)
    then have "k \<in> set new \<longleftrightarrow> k \<in> set (m # ms) \<and> int_at work k = int (count_list (m # ms) k)" for k
      unfolding new(3) by (cases "k = m") (simp_all, linarith)
    then have "set new = {k \<in> set (m # ms). int_at work k = int (count_list (m # ms) k)}" by blast
    with new False show ?thesis by (intro exI [of _ new]) simp
  qed
qed simp

subsection \<open>Kahn's algorithm\<close>

definition ordered :: "nodes \<Rightarrow> string list \<Rightarrow> bool" where
  "ordered ns order \<longleftrightarrow> (\<forall>k < length order. set (deps ns (order ! k)) \<subseteq> set (take k order))"

definition open_deps :: "nodes \<Rightarrow> string list \<Rightarrow> string \<Rightarrow> nat" where
  "open_deps ns order m = length (filter (\<lambda>d. d \<notin> set order) (deps ns m))"

text \<open>
  The work map counts the dependencies still open, the nodes visited or queued are those without an
  open dependency, and each node visited comes after its dependencies.
\<close>

definition kahn_inv :: "nodes \<Rightarrow> string list \<Rightarrow> (string, int) umap \<Rightarrow> string list \<Rightarrow> bool" where
  "kahn_inv ns q work order \<longleftrightarrow>
     distinct (order @ q) \<and> set (order @ q) = {m \<in> ids ns. open_deps ns order m = 0} \<and>
     (\<forall>m. int_at work m = int (open_deps ns order m)) \<and> ordered ns order"

lemma ordered_snoc: "ordered ns order \<Longrightarrow> set (deps ns n) \<subseteq> set order \<Longrightarrow> ordered ns (order @ [n])"
  by (auto simp: ordered_def nth_append less_Suc_eq)

lemma open_deps_snoc:
  assumes "n \<notin> set order"
  shows "open_deps ns order m = open_deps ns (order @ [n]) m + count_list (deps ns m) n"
proof -
  have "length (filter (\<lambda>d. d \<notin> set order) ds) = length (filter (\<lambda>d. d \<notin> set (order @ [n])) ds) + count_list ds n"
    for ds using assms by (induction ds) auto
  then show ?thesis by (simp add: open_deps_def)
qed

lemma open_deps_0: "open_deps ns order m = 0 \<longleftrightarrow> set (deps ns m) \<subseteq> set order"
  by (auto simp: open_deps_def filter_empty_conv)

lemma deps_mem: "d \<in> set (deps ns m) \<Longrightarrow> (m, deps ns m) \<in> set ns"
  by (cases "map_of ns m") (auto simp: deps_def dest: map_of_SomeD)

lemma deps_ids: "d \<in> set (deps ns m) \<Longrightarrow> m \<in> ids ns"
  by (drule deps_mem) (force simp: ids_def)

lemma kahn_step:
  assumes adj: "\<And>d m. count_list (list_at adj d) m = count_list (deps ns m) d"
    and inv: "kahn_inv ns (n # q) work order"
    and rel: "release (list_at adj n) work q = (work', q')"
  shows "kahn_inv ns q' work' (order @ [n])"
proof -
  have n: "n \<notin> set order" "open_deps ns order n = 0" using inv by (auto simp: kahn_inv_def)
  have w: "int_at work m = int (open_deps ns (order @ [n]) m + count_list (deps ns m) n)" for m
    using inv open_deps_snoc [OF n(1)] by (simp add: kahn_inv_def)
  have work': "int_at work' m = int (open_deps ns (order @ [n]) m)" for m
    using release_work [OF rel] w adj by simp
  obtain new where new: "q' = q @ new" "distinct new"
    "set new = {m \<in> set (list_at adj n). int_at work m = int (count_list (list_at adj n) m)}"
    using release_queue [OF rel] w adj by auto
  have mem: "m \<in> set (list_at adj n) \<longleftrightarrow> n \<in> set (deps ns m)" for m
    using adj [of n m] by (metis count_list_0_iff)
  have new_iff: "m \<in> set new \<longleftrightarrow> n \<in> set (deps ns m) \<and> open_deps ns (order @ [n]) m = 0" for m
    using new(3) mem w adj by auto
  have old: "set (order @ n # q) = {m \<in> ids ns. open_deps ns order m = 0}" using inv by (simp add: kahn_inv_def)
  have "m \<in> set (order @ [n] @ q') \<longleftrightarrow> m \<in> ids ns \<and> open_deps ns (order @ [n]) m = 0" for m
  proof -
    have "m \<in> set (order @ [n] @ q') \<longleftrightarrow> m \<in> ids ns \<and> open_deps ns order m = 0 \<or> m \<in> set new"
      using old new(1) by auto
    also have "\<dots> \<longleftrightarrow> m \<in> ids ns \<and> open_deps ns (order @ [n]) m = 0"
      using new_iff deps_ids [of n ns m] by (auto simp: open_deps_0)
    finally show ?thesis .
  qed
  moreover have "set new \<inter> set (order @ n # q) = {}"
    using old new_iff n(1) by (auto simp: open_deps_0)
  then have "distinct ((order @ [n]) @ q')" using inv new(1,2) by (auto simp: kahn_inv_def)
  moreover have "ordered ns (order @ [n])"
    using inv n(2) by (intro ordered_snoc) (auto simp: kahn_inv_def open_deps_0)
  ultimately show ?thesis using work' by (auto simp: kahn_inv_def)
qed

lemma kahn_loop_inv:
  assumes "\<And>d m. count_list (list_at adj d) m = count_list (deps ns m) d" "kahn_inv ns q work order"
  shows "\<exists>work'. kahn_inv ns [] work' (kahn_loop adj q work order)"
  using assms
proof (induction adj q work order rule: kahn_loop.induct)
  case (2 adj n q work order)
  obtain work' q' where rel: "release (list_at adj n) work q = (work', q')" by fastforce
  from 2(1) [OF rel [symmetric] 2(2) kahn_step [OF 2(2,3) rel]] rel show ?case by simp
qed auto

lemma kahn_start:
  assumes "build_graph ns = (adj, indeg)" "distinct (map fst ns)"
  shows "kahn_inv ns (ready indeg) indeg []"
proof -
  note g = build_graph_ok [OF assms]
  have "set (ready indeg) = {m \<in> ids ns. open_deps ns [] m = 0}"
    using g(2,3) by (auto simp: ready_def open_deps_def)
  moreover have "distinct (ready indeg)" using g(4) by (simp add: ready_def umap_wf_def)
  ultimately show ?thesis using g(2) by (simp add: kahn_inv_def open_deps_def ordered_def)
qed

lemma kahn_order_inv:
  assumes "distinct (map fst ns)"
  shows "distinct (kahn_order ns)" "ordered ns (kahn_order ns)"
    "set (kahn_order ns) = {m \<in> ids ns. set (deps ns m) \<subseteq> set (kahn_order ns)}"
proof -
  obtain adj indeg where g: "build_graph ns = (adj, indeg)" by fastforce
  from kahn_loop_inv [OF build_graph_ok(1) [OF g assms] kahn_start [OF g assms]] g
  obtain work' where "kahn_inv ns [] work' (kahn_order ns)" by (auto simp: kahn_order_def)
  then show "distinct (kahn_order ns)" "ordered ns (kahn_order ns)"
    "set (kahn_order ns) = {m \<in> ids ns. set (deps ns m) \<subseteq> set (kahn_order ns)}"
    by (simp_all add: kahn_inv_def open_deps_0)
qed

lemma ordered_acyclic:
  assumes "ordered ns order" "distinct order" "\<And>d i. (d, i) \<in> depends ns \<Longrightarrow> i \<in> set order"
  shows "acyclic (depends ns)"
proof -
  define pos where "pos i = (LEAST k. k < length order \<and> order ! k = i)" for i
  have pos: "pos (order ! k) = k" if "k < length order" for k
    unfolding pos_def using that assms(2) by (intro Least_equality) (auto simp: nth_eq_iff_index_eq)
  have "pos d < pos i" if "(d, i) \<in> depends ns" for d i
  proof -
    from assms(3) [OF that] obtain k where k: "k < length order" "i = order ! k" by (auto simp: in_set_conv_nth)
    then have "d \<in> set (take k order)" using assms(1) that by (auto simp: ordered_def depends_def)
    then obtain j where "j < k" "d = order ! j" using k(1) by (auto simp: in_set_conv_nth)
    with k pos show ?thesis by simp
  qed
  then have "depends ns \<subseteq> measure pos" by auto
  then show ?thesis using wf_acyclic [OF wf_measure] acyclic_subset by blast
qed

lemma finite_depends: "finite (depends ns)"
proof (rule finite_subset)
  show "depends ns \<subseteq> (\<Union>n \<in> set ns. set (snd n) \<times> {fst n})"
    by (auto simp: depends_def dest: deps_mem intro: bexI [rotated])
qed auto

text \<open>The loop visits every node exactly when no instance depends on itself, directly or not.\<close>

lemma kahn_complete:
  assumes "nodes_ok ns"
  shows "set (kahn_order ns) = ids ns \<longleftrightarrow> acyclic (depends ns)"
proof
  have d: "distinct (map fst ns)" using assms by (simp add: nodes_ok_def)
  note inv = kahn_order_inv [OF d]
  {
    assume "set (kahn_order ns) = ids ns"
    with inv(1,2) deps_ids show "acyclic (depends ns)" by (intro ordered_acyclic) (auto simp: depends_def)
  next
    assume "acyclic (depends ns)"
    then have wf: "wf (depends ns)" using finite_depends finite_acyclic_wf by blast
    have "i \<in> ids ns \<longrightarrow> i \<in> set (kahn_order ns)" for i
      using wf
    proof (induction i rule: wf_induct_rule)
      case (less i)
      show ?case
      proof
        assume i: "i \<in> ids ns"
        have "set (deps ns i) \<subseteq> set (kahn_order ns)"
          using less assms by (auto simp: depends_def nodes_ok_def)
        with i inv(3) show "i \<in> set (kahn_order ns)" by blast
      qed
    qed
    with inv(3) show "set (kahn_order ns) = ids ns" by blast
  }
qed

lemma start_order_of_set:
  assumes "distinct (map fst ns)"
  shows "length (kahn_order ns) = length ns \<longleftrightarrow> set (kahn_order ns) = ids ns"
proof -
  note inv = kahn_order_inv [OF assms]
  have "set (kahn_order ns) \<subseteq> ids ns" using inv(3) by blast
  moreover have "length (kahn_order ns) = card (set (kahn_order ns))" "length ns = card (ids ns)"
    using inv(1) assms distinct_card by (force simp: ids_def)+
  moreover have "finite (ids ns)" by (simp add: ids_def)
  ultimately show ?thesis by (metis card_subset_eq)
qed

subsection \<open>Properties\<close>

text \<open>
  C13. Planning finds an order exactly when the dependency graph has no cycle, and the order it finds
  lists every instance once, after all the instances it depends on.
\<close>

theorem start_order_correct:
  assumes "nodes_ok ns"
  shows "case start_order_of ns of
      None \<Rightarrow> \<not> acyclic (depends ns)
    | Some order \<Rightarrow> acyclic (depends ns) \<and> distinct order \<and> set order = ids ns \<and>
        (\<forall>k < length order. set (deps ns (order ! k)) \<subseteq> set (take k order))"
proof -
  have d: "distinct (map fst ns)" using assms by (simp add: nodes_ok_def)
  show ?thesis using kahn_order_inv [OF d] kahn_complete [OF assms] start_order_of_set [OF d]
    by (auto simp: start_order_of_def ordered_def)
qed

theorem start_order_correct_witness:
  "start_order_of [(''api'', [''db'', ''cache'']), (''cache'', [''db'']), (''db'', [])] = Some [''db'', ''cache'', ''api''] \<and>
   acyclic (depends [(''api'', [''db'', ''cache'']), (''cache'', [''db'']), (''db'', [])]) \<and>
   start_order_of [(''a'', [''b'']), (''b'', [''a''])] = None \<and> \<not> acyclic (depends [(''a'', [''b'']), (''b'', [''a''])])"
proof -
  let ?ns = "[(''api'', [''db'', ''cache'']), (''cache'', [''db'']), (''db'', [])]"
  let ?cy = "[(''a'', [''b'']), (''b'', [''a''])]"
  have ok: "nodes_ok ?ns" "nodes_ok ?cy" by (auto simp: nodes_ok_def ids_def deps_def)
  have s: "start_order_of ?ns = Some [''db'', ''cache'', ''api'']" by code_simp
  have c: "start_order_of ?cy = None" by code_simp
  from start_order_correct [OF ok(1)] s start_order_correct [OF ok(2)] c show ?thesis by simp
qed

end
