(* ===== verification/Schema_Validator.thy ===== *)
theory Schema_Validator
  imports Json_Sample
begin

section \<open>Configuration schemas\<close>

text \<open>
  \<open>src/src/plugin/schema_validator.cpp\<close>: the checks of an instance configuration against the JSON
  schema subset of a manifest, the defaults it fills in and the secret paths it lists.

  The functions recurse into the values of the JSON library, whose type is abstract, so they take
  fuel; \<open>OutOfFuel\<close> is its end, \<open>Thrown\<close> an exception of the library.  \<open>json_depth\<close> says that a
  function bounds the nesting of values, and the properties show that fuel above that bound is
  enough.
\<close>

datatype schema_error = OutOfFuel | Thrown string

abbreviation call :: "string + 'a \<Rightarrow> schema_error + 'a" where
  "call r \<equiv> map_sum Thrown id r"

definition check_type :: "'j json_api \<Rightarrow> string \<Rightarrow> 'j \<Rightarrow> bool" where
  "check_type J want v =
     (if want = ''object'' then js_is_object J v
      else if want = ''array'' then js_is_array J v
      else if want = ''string'' then js_is_string J v
      else if want = ''integer'' then js_is_number_integer J v
      else if want = ''number'' then js_is_number J v
      else if want = ''boolean'' then js_is_boolean J v
      else True)"

definition join_path :: "string \<Rightarrow> string \<Rightarrow> string" where
  "join_path base key = (if base = [] then key else base @ ''.'' @ key)"

text \<open>
  A check returns the error text, empty when it passed.  \<open>then_check\<close> goes on after a passed check,
  \<open>first_error\<close> is a loop that returns at the first error.
\<close>

definition then_check :: "schema_error + string \<Rightarrow> schema_error + string \<Rightarrow> schema_error + string" where
  "then_check r next_check = attempt r (\<lambda>err. if err \<noteq> [] then Inr err else next_check)"

fun first_error :: "('a \<Rightarrow> schema_error + string) \<Rightarrow> 'a list \<Rightarrow> schema_error + string" where
  "first_error f [] = Inr []"
| "first_error f (x # xs) = then_check (f x) (first_error f xs)"

definition validate_type :: "'j json_api \<Rightarrow> 'j \<Rightarrow> 'j \<Rightarrow> string \<Rightarrow> schema_error + string" where
  "validate_type J schema v path =
     (if js_contains J schema ''type''
      then attempt (call (js_get_string J (js_at J schema ''type''))) (\<lambda>t.
        Inr (if check_type J t v then []
             else if path = [] then ''type mismatch: expected '' @ t
             else path @ '': type mismatch, expected '' @ t))
      else Inr [])"

definition validate_required :: "'j json_api \<Rightarrow> 'j \<Rightarrow> 'j \<Rightarrow> string \<Rightarrow> schema_error + string" where
  "validate_required J schema v path =
     (if js_contains J schema ''required'' \<and> js_is_array J (js_at J schema ''required'')
      then first_error (\<lambda>k. attempt (call (js_get_string J k)) (\<lambda>key.
             Inr (if js_contains J v key then [] else join_path path key @ '': required field missing'')))
           (js_elems J (js_at J schema ''required''))
      else Inr [])"

definition validate_range :: "'j json_api \<Rightarrow> 'j \<Rightarrow> 'j \<Rightarrow> string \<Rightarrow> schema_error + string" where
  "validate_range J schema v path =
     (if \<not> js_is_number J v then Inr []
      else then_check
        (if js_contains J schema ''minimum''
         then attempt (call (js_double_less J v (js_at J schema ''minimum''))) (\<lambda>below.
           Inr (if below then path @ '': below minimum'' else []))
         else Inr [])
        (if js_contains J schema ''maximum''
         then attempt (call (js_double_less J (js_at J schema ''maximum'') v)) (\<lambda>above.
           Inr (if above then path @ '': above maximum'' else []))
         else Inr []))"

definition validate_enum :: "'j json_api \<Rightarrow> 'j \<Rightarrow> 'j \<Rightarrow> string \<Rightarrow> schema_error + string" where
  "validate_enum J schema v path =
     Inr (if js_contains J schema ''enum'' \<and> js_is_array J (js_at J schema ''enum'') \<and>
             \<not> list_ex (\<lambda>e. js_equal J e v) (js_elems J (js_at J schema ''enum''))
          then path @ '': value not in enum'' else [])"

fun validate_config :: "'j json_api \<Rightarrow> nat \<Rightarrow> 'j \<Rightarrow> 'j \<Rightarrow> string \<Rightarrow> schema_error + string" where
  "validate_config J 0 schema v path = Inl OutOfFuel"
| "validate_config J (Suc n) schema v path =
     then_check (validate_type J schema v path)
    (then_check (if js_is_object J v then validate_required J schema v path else Inr [])
    (then_check
       (if js_is_object J v \<and> js_contains J schema ''properties'' \<and> js_is_object J (js_at J schema ''properties'')
        then first_error (\<lambda>(key, x).
               if js_contains J (js_at J schema ''properties'') key
               then validate_config J n (js_at J (js_at J schema ''properties'') key) x (join_path path key)
               else Inr []) (js_items J v)
        else Inr [])
    (then_check (validate_range J schema v path)
    (then_check (validate_enum J schema v path)
       (if js_is_array J v \<and> js_contains J schema ''items''
        then first_error (\<lambda>(i, x).
               validate_config J n (js_at J schema ''items'') x (path @ ''['' @ to_string_nat i @ '']''))
             (enumerate 0 (js_elems J v))
        else Inr [])))))"

text \<open>
  \<open>apply_defaults\<close> walks the properties of the schema; \<open>default_step\<close> is the body of its loop.
\<close>

definition default_step :: "'j json_api \<Rightarrow> ('j \<Rightarrow> 'j \<Rightarrow> 'j option) \<Rightarrow> 'j \<Rightarrow> string \<Rightarrow> 'j \<Rightarrow> 'j option" where
  "default_step J apply_sub v key sub =
     (if \<not> js_contains J v key \<and> js_contains J sub ''default''
      then Some (js_set J v key (js_at J sub ''default''))
      else if js_contains J v key \<and> js_is_object J (js_at J v key)
      then map_option (js_set J v key) (apply_sub sub (js_at J v key))
      else Some v)"

fun default_loop :: "('j \<Rightarrow> string \<Rightarrow> 'j \<Rightarrow> 'j option) \<Rightarrow> 'j \<Rightarrow> (string \<times> 'j) list \<Rightarrow> 'j option" where
  "default_loop f v [] = Some v"
| "default_loop f v ((key, sub) # ps) = (case f v key sub of None \<Rightarrow> None | Some w \<Rightarrow> default_loop f w ps)"

fun apply_defaults :: "'j json_api \<Rightarrow> nat \<Rightarrow> 'j \<Rightarrow> 'j \<Rightarrow> 'j option" where
  "apply_defaults J 0 schema v = None"
| "apply_defaults J (Suc n) schema v =
     (if \<not> js_is_object J v \<or> \<not> js_contains J schema ''properties'' \<or> \<not> js_is_object J (js_at J schema ''properties'')
      then Some v
      else default_loop (default_step J (\<lambda>sub x. apply_defaults J n sub x)) v
             (js_items J (js_at J schema ''properties'')))"

fun collect_secret_paths :: "'j json_api \<Rightarrow> nat \<Rightarrow> 'j \<Rightarrow> string \<Rightarrow> schema_error + string list" where
  "collect_secret_paths J 0 schema path = Inl OutOfFuel"
| "collect_secret_paths J (Suc n) schema path =
     (if \<not> js_is_object J schema then Inr []
      else attempt (call (js_value_bool J schema ''secret'' False)) (\<lambda>secret.
        map_sum id (\<lambda>paths. (if secret then [path] else []) @ paths)
          (if js_contains J schema ''properties'' \<and> js_is_object J (js_at J schema ''properties'')
           then foldl (\<lambda>acc (key, sub). attempt acc (\<lambda>paths.
                  map_sum id (\<lambda>more. paths @ more) (collect_secret_paths J n sub (join_path path key))))
                (Inr []) (js_items J (js_at J schema ''properties''))
           else Inr [])))"

subsection \<open>What a schema demands\<close>

definition type_ok :: "'j json_api \<Rightarrow> 'j \<Rightarrow> 'j \<Rightarrow> bool" where
  "type_ok J schema v \<longleftrightarrow>
     (js_contains J schema ''type'' \<longrightarrow> (\<exists>t. js_get_string J (js_at J schema ''type'') = Inr t \<and> check_type J t v))"

definition required_ok :: "'j json_api \<Rightarrow> 'j \<Rightarrow> 'j \<Rightarrow> bool" where
  "required_ok J schema v \<longleftrightarrow>
     (js_is_object J v \<and> js_contains J schema ''required'' \<and> js_is_array J (js_at J schema ''required'') \<longrightarrow>
       (\<forall>k \<in> set (js_elems J (js_at J schema ''required'')). \<exists>key. js_get_string J k = Inr key \<and> js_contains J v key))"

definition range_ok :: "'j json_api \<Rightarrow> 'j \<Rightarrow> 'j \<Rightarrow> bool" where
  "range_ok J schema v \<longleftrightarrow>
     (js_is_number J v \<longrightarrow>
       (js_contains J schema ''minimum'' \<longrightarrow> js_double_less J v (js_at J schema ''minimum'') = Inr False) \<and>
       (js_contains J schema ''maximum'' \<longrightarrow> js_double_less J (js_at J schema ''maximum'') v = Inr False))"

definition enum_ok :: "'j json_api \<Rightarrow> 'j \<Rightarrow> 'j \<Rightarrow> bool" where
  "enum_ok J schema v \<longleftrightarrow>
     (js_contains J schema ''enum'' \<and> js_is_array J (js_at J schema ''enum'') \<longrightarrow>
       (\<exists>e \<in> set (js_elems J (js_at J schema ''enum'')). js_equal J e v))"

inductive conforms :: "'j json_api \<Rightarrow> 'j \<Rightarrow> 'j \<Rightarrow> bool" for J where
  "type_ok J schema v \<Longrightarrow> required_ok J schema v \<Longrightarrow> range_ok J schema v \<Longrightarrow> enum_ok J schema v \<Longrightarrow>
   (\<And>key x. js_is_object J v \<Longrightarrow> js_contains J schema ''properties'' \<Longrightarrow>
      js_is_object J (js_at J schema ''properties'') \<Longrightarrow> (key, x) \<in> set (js_items J v) \<Longrightarrow>
      js_contains J (js_at J schema ''properties'') key \<Longrightarrow>
      conforms J (js_at J (js_at J schema ''properties'') key) x) \<Longrightarrow>
   (\<And>x. js_is_array J v \<Longrightarrow> js_contains J schema ''items'' \<Longrightarrow> x \<in> set (js_elems J v) \<Longrightarrow>
      conforms J (js_at J schema ''items'') x) \<Longrightarrow>
   conforms J schema v"

inductive_simps conforms_iff: "conforms J schema v"

definition json_depth :: "'j json_api \<Rightarrow> ('j \<Rightarrow> nat) \<Rightarrow> bool" where
  "json_depth J d \<longleftrightarrow>
     (\<forall>v key x. js_is_object J v \<longrightarrow> (key, x) \<in> set (js_items J v) \<longrightarrow> d x < d v) \<and>
     (\<forall>v x. js_is_array J v \<longrightarrow> x \<in> set (js_elems J v) \<longrightarrow> d x < d v)"

lemma then_check_passed: "then_check r s = Inr [] \<longleftrightarrow> r = Inr [] \<and> s = Inr []"
  by (auto simp: then_check_def attempt_eq_Inr split: if_splits)

lemma then_check_fuel: "then_check r s = Inl OutOfFuel \<longleftrightarrow> r = Inl OutOfFuel \<or> r = Inr [] \<and> s = Inl OutOfFuel"
  by (auto simp: then_check_def attempt_eq_Inl split: if_splits)

lemma first_error_passed: "first_error f xs = Inr [] \<longleftrightarrow> (\<forall>x \<in> set xs. f x = Inr [])"
  by (induction xs) (auto simp: then_check_passed)

lemma first_error_fuel: "first_error f xs = Inl OutOfFuel \<Longrightarrow> \<exists>x \<in> set xs. f x = Inl OutOfFuel"
  by (induction xs) (auto simp: then_check_fuel)

lemma first_error_enumerate:
  assumes "\<And>i x. x \<in> set xs \<Longrightarrow> f i x = Inr [] \<longleftrightarrow> Q x"
  shows "first_error (\<lambda>(i, x). f i x) (enumerate k xs) = Inr [] \<longleftrightarrow> (\<forall>x \<in> set xs. Q x)"
  using assms by (induction xs arbitrary: k) (auto simp: then_check_passed)

lemma call_simps [simp]: "call r = Inr x \<longleftrightarrow> r = Inr x" "call r \<noteq> Inl OutOfFuel"
  by (cases r; auto)+

lemma validate_parts_passed:
  "validate_type J schema v path = Inr [] \<longleftrightarrow> type_ok J schema v"
  "(if js_is_object J v then validate_required J schema v path else Inr []) = Inr [] \<longleftrightarrow> required_ok J schema v"
  "validate_range J schema v path = Inr [] \<longleftrightarrow> range_ok J schema v"
  "validate_enum J schema v path = Inr [] \<longleftrightarrow> enum_ok J schema v"
  by (auto simp: validate_type_def type_ok_def validate_required_def required_ok_def validate_range_def range_ok_def
      validate_enum_def enum_ok_def attempt_eq_Inr first_error_passed then_check_passed list_ex_iff)

lemma validate_parts_fuel:
  "validate_type J schema v path \<noteq> Inl OutOfFuel"
  "(if js_is_object J v then validate_required J schema v path else Inr []) \<noteq> Inl OutOfFuel"
  "validate_range J schema v path \<noteq> Inl OutOfFuel"
  "validate_enum J schema v path \<noteq> Inl OutOfFuel"
  by (auto simp: validate_type_def validate_required_def validate_range_def validate_enum_def attempt_eq_Inl
      then_check_fuel dest!: first_error_fuel)

lemma validate_config_passed:
  assumes "json_depth J d" "d v < n"
  shows "validate_config J n schema v path = Inr [] \<longleftrightarrow> conforms J schema v"
  using assms(2)
proof (induction n arbitrary: schema v path)
  case (Suc n)
  have obj: "validate_config J n s x p = Inr [] \<longleftrightarrow> conforms J s x"
    if "js_is_object J v" "(key, x) \<in> set (js_items J v)" for s x p key
    using Suc.prems assms(1) that by (intro Suc.IH) (fastforce simp: json_depth_def)
  have arr: "validate_config J n s x p = Inr [] \<longleftrightarrow> conforms J s x"
    if "js_is_array J v" "x \<in> set (js_elems J v)" for s x p
    using Suc.prems assms(1) that by (intro Suc.IH) (fastforce simp: json_depth_def)
  have props: "(if js_is_object J v \<and> js_contains J schema ''properties'' \<and> js_is_object J (js_at J schema ''properties'')
      then first_error (\<lambda>(key, x).
             if js_contains J (js_at J schema ''properties'') key
             then validate_config J n (js_at J (js_at J schema ''properties'') key) x (join_path path key)
             else Inr []) (js_items J v)
      else Inr []) = Inr [] \<longleftrightarrow>
      (\<forall>key x. js_is_object J v \<longrightarrow> js_contains J schema ''properties'' \<longrightarrow>
        js_is_object J (js_at J schema ''properties'') \<longrightarrow> (key, x) \<in> set (js_items J v) \<longrightarrow>
        js_contains J (js_at J schema ''properties'') key \<longrightarrow> conforms J (js_at J (js_at J schema ''properties'') key) x)"
    using obj by (auto simp: first_error_passed split: if_splits)
  have elems: "(if js_is_array J v \<and> js_contains J schema ''items''
      then first_error (\<lambda>(i, x).
             validate_config J n (js_at J schema ''items'') x (path @ ''['' @ to_string_nat i @ '']''))
           (enumerate 0 (js_elems J v))
      else Inr []) = Inr [] \<longleftrightarrow>
      (\<forall>x. js_is_array J v \<longrightarrow> js_contains J schema ''items'' \<longrightarrow> x \<in> set (js_elems J v) \<longrightarrow>
        conforms J (js_at J schema ''items'') x)"
    using first_error_enumerate [of "js_elems J v"
        "\<lambda>i x. validate_config J n (js_at J schema ''items'') x (path @ ''['' @ to_string_nat i @ '']'')"
        "conforms J (js_at J schema ''items'')" 0] arr by auto
  show ?case
    unfolding conforms_iff [of J schema v] validate_config.simps then_check_passed validate_parts_passed props elems
    by blast
qed simp

lemma validate_config_sound: "validate_config J n schema v path = Inr [] \<Longrightarrow> conforms J schema v"
proof (induction n arbitrary: schema v path)
  case (Suc n)
  have elems: "conforms J (js_at J schema ''items'') x"
    if "js_is_array J v" "js_contains J schema ''items''" "x \<in> set (js_elems J v)" for x
  proof -
    from that(3) obtain i where i: "i < length (js_elems J v)" "x = js_elems J v ! i" by (auto simp: in_set_conv_nth)
    then have "(i, x) \<in> set (enumerate 0 (js_elems J v))" by (simp add: in_set_enumerate_eq)
    with Suc.prems that(1,2) show ?thesis by (intro Suc.IH) (fastforce simp: then_check_passed first_error_passed)
  qed
  show ?case
  proof (rule conforms.intros)
    show "conforms J (js_at J (js_at J schema ''properties'') key) x"
      if "js_is_object J v" "js_contains J schema ''properties''" "js_is_object J (js_at J schema ''properties'')"
        "(key, x) \<in> set (js_items J v)" "js_contains J (js_at J schema ''properties'') key" for key x
      using Suc.prems that by (intro Suc.IH) (fastforce simp: then_check_passed first_error_passed)
  qed (use Suc.prems elems in \<open>simp_all add: then_check_passed validate_parts_passed\<close>)
qed simp

lemma validate_config_returns:
  assumes "json_depth J d" "d v < n"
  shows "validate_config J n schema v path \<noteq> Inl OutOfFuel"
  using assms(2)
proof (induction n arbitrary: schema v path)
  case (Suc n)
  have obj: "validate_config J n s x p \<noteq> Inl OutOfFuel"
    if "js_is_object J v" "(key, x) \<in> set (js_items J v)" for s x p key
    using Suc.prems assms(1) that by (intro Suc.IH) (fastforce simp: json_depth_def)
  have arr: "validate_config J n s x p \<noteq> Inl OutOfFuel"
    if "js_is_array J v" "x \<in> set (js_elems J v)" for s x p
    using Suc.prems assms(1) that by (intro Suc.IH) (fastforce simp: json_depth_def)
  have "(if js_is_object J v \<and> js_contains J schema ''properties'' \<and> js_is_object J (js_at J schema ''properties'')
      then first_error (\<lambda>(key, x).
             if js_contains J (js_at J schema ''properties'') key
             then validate_config J n (js_at J (js_at J schema ''properties'') key) x (join_path path key)
             else Inr []) (js_items J v)
      else Inr []) \<noteq> Inl OutOfFuel"
    using obj by (auto dest!: first_error_fuel split: if_splits)
  moreover have "(if js_is_array J v \<and> js_contains J schema ''items''
      then first_error (\<lambda>(i, x).
             validate_config J n (js_at J schema ''items'') x (path @ ''['' @ to_string_nat i @ '']''))
           (enumerate 0 (js_elems J v))
      else Inr []) \<noteq> Inl OutOfFuel"
    using arr by (auto simp: in_set_enumerate_eq dest!: first_error_fuel)
  ultimately show ?case
    using validate_parts_fuel(1,3,4) [of J schema v path] validate_parts_fuel(2) [of J v schema path]
    unfolding validate_config.simps then_check_fuel by blast
qed simp

subsection \<open>Defaults\<close>

text \<open>The members of an object are reached by key and by iteration alike.\<close>

definition json_members :: "'j json_api \<Rightarrow> bool" where
  "json_members J \<longleftrightarrow>
     (\<forall>v k. js_contains J v k \<longrightarrow> js_is_object J v \<and> (k, js_at J v k) \<in> set (js_items J v))"

lemma default_loop_total:
  assumes "\<And>v key sub. (key, sub) \<in> set ps \<Longrightarrow> f v key sub \<noteq> None"
  shows "default_loop f v ps \<noteq> None"
  using assms by (induction f v ps rule: default_loop.induct) (auto split: option.split)

lemma default_loop_rel:
  assumes "default_loop f v ps = Some v'"
    and "\<And>v. P v v" "\<And>u v w. P u v \<Longrightarrow> P v w \<Longrightarrow> P u w"
    and "\<And>v key sub w. f v key sub = Some w \<Longrightarrow> P v w"
  shows "P v v'"
  using assms(1)
proof (induction ps arbitrary: v)
  case Nil
  then show ?case using assms(2) by simp
next
  case (Cons p ps)
  obtain key sub where p: "p = (key, sub)" by fastforce
  obtain w where w: "f v key sub = Some w" "default_loop f w ps = Some v'"
    using Cons.prems p by (cases "f v key sub") auto
  from assms(3) [OF assms(4) [OF w(1)] Cons.IH [OF w(2)]] show ?case .
qed

lemma apply_defaults_returns:
  assumes "json_depth J d" "json_members J" "d schema < n"
  shows "apply_defaults J n schema v \<noteq> None"
  using assms(3)
proof (induction n arbitrary: schema v)
  case (Suc n)
  show ?case
  proof (cases "js_is_object J v \<and> js_contains J schema ''properties'' \<and> js_is_object J (js_at J schema ''properties'')")
    case True
    have "apply_defaults J n sub x \<noteq> None" if "(key, sub) \<in> set (js_items J (js_at J schema ''properties''))" for key sub x
    proof -
      have "d (js_at J schema ''properties'') < d schema" "d sub < d (js_at J schema ''properties'')"
        using True that assms(1,2) unfolding json_depth_def json_members_def by metis+
      with Suc.prems show ?thesis by (intro Suc.IH) simp
    qed
    then have "default_loop (default_step J (\<lambda>sub x. apply_defaults J n sub x)) v
        (js_items J (js_at J schema ''properties'')) \<noteq> None"
      by (intro default_loop_total) (auto simp: default_step_def)
    with True show ?thesis by simp
  qed auto
qed simp

text \<open>Filling in defaults never removes a field and never touches a field that is not an object.\<close>

definition extends :: "'j json_api \<Rightarrow> 'j \<Rightarrow> 'j \<Rightarrow> bool" where
  "extends J v w \<longleftrightarrow>
     (js_is_object J v \<longrightarrow> js_is_object J w \<and>
       (\<forall>k. js_contains J v k \<longrightarrow> js_contains J w k \<and> (js_is_object J (js_at J v k) \<or> js_at J w k = js_at J v k)))"

lemma apply_defaults_extends:
  assumes "json_laws J" "apply_defaults J n schema v = Some w"
  shows "extends J v w \<and> (js_is_object J v \<longrightarrow> js_is_object J w)"
proof (cases n)
  case (Suc m)
  have refl: "extends J u u" for u by (simp add: extends_def)
  have trans: "extends J u w" if "extends J u v" "extends J v w" for u v w
    using that unfolding extends_def by metis
  have set: "extends J v (js_set J v key x)" if "\<not> js_contains J v key \<or> js_is_object J (js_at J v key)" for v key x
    using that json_lawsD(4,5,6) [OF assms(1)] by (auto simp: extends_def)
  show ?thesis
  proof (cases "\<not> js_is_object J v \<or> \<not> js_contains J schema ''properties'' \<or> \<not> js_is_object J (js_at J schema ''properties'')")
    case True
    then show ?thesis using assms(2) Suc by (simp add: extends_def split: if_splits)
  next
    case False
    with assms(2) Suc have loop: "default_loop (default_step J (\<lambda>sub x. apply_defaults J m sub x)) v
        (js_items J (js_at J schema ''properties'')) = Some w" by simp
    have "extends J u x" if "default_step J f u key sub = Some x" for f u key sub x
      using that refl set by (auto simp: default_step_def split: if_splits)
    from default_loop_rel [OF loop, of "extends J", OF refl trans this] have "extends J v w" .
    then show ?thesis by (simp add: extends_def)
  qed
qed (use assms in simp)

subsection \<open>Properties\<close>

text \<open>
  C18. The validator is a decision procedure for the schema subset: given fuel above the depth of the
  value it returns, and it reports no error exactly when the value conforms to the schema, in which
  every type, required key, range, enumeration, property and item is satisfied.
\<close>

theorem validate_config_correct:
  assumes "json_depth J d" "d v < n"
  shows "validate_config J n schema v path \<noteq> Inl OutOfFuel \<and>
    (validate_config J n schema v path = Inr [] \<longleftrightarrow> conforms J schema v)"
  using validate_config_returns [OF assms] validate_config_passed [OF assms] by blast

lemma sample_depth: "json_depth (sample_api texts) size"
proof -
  have "size x < size v" if "s_is_object v" "(key, x) \<in> set (s_items v)" for v x key
    using that size_list_estimation' [of "(key, x)" "s_items v" "size x" "size_prod (\<lambda>_. 0) size"] by (cases v) auto
  moreover have "size x < size v" if "x \<in> set (s_elems v)" for v x
    using that size_list_estimation' [of x "s_elems v" "size x" size] by (cases v) auto
  ultimately show ?thesis by (auto simp: json_depth_def sample_api_def)
qed

theorem validate_config_correct_witness:
  "conforms (sample_api [])
     (SObj [(''type'', SStr ''object''), (''required'', SArr [SStr ''port'']),
            (''properties'', SObj [(''port'', SObj [(''maximum'', SNum 9)])])]) (SObj [(''port'', SNum 7)]) \<and>
   \<not> conforms (sample_api [])
     (SObj [(''type'', SStr ''object''), (''required'', SArr [SStr ''port'']),
            (''properties'', SObj [(''port'', SObj [(''maximum'', SNum 9)])])]) (SObj [(''port'', SNum 10)])"
proof -
  let ?schema = "SObj [(''type'', SStr ''object''), (''required'', SArr [SStr ''port'']),
      (''properties'', SObj [(''port'', SObj [(''maximum'', SNum 9)])])]"
  let ?good = "SObj [(''port'', SNum 7)]" and ?bad = "SObj [(''port'', SNum 10)]"
  have "validate_config (sample_api []) 99 ?schema ?good [] = Inr []"
    "validate_config (sample_api []) 99 ?schema ?bad [] \<noteq> Inr []"
    by code_simp+
  with validate_config_correct [OF sample_depth, of ?good 99 "[]" ?schema "[]"]
    validate_config_correct [OF sample_depth, of ?bad 99 "[]" ?schema "[]"]
  show ?thesis by simp
qed

end
