(* ===== verification/Plugin_Manifest.thy ===== *)
theory Plugin_Manifest
  imports Json_Sample
begin

section \<open>Plugin manifests and the plugin section of the configuration\<close>

text \<open>
  The declarative model of \<open>src/include/shield/plugin/plugin_host.hpp\<close> with
  \<open>src/src/plugin/manifest.cpp\<close> and \<open>src/src/plugin/plugin_config.cpp\<close>.  A function that throws
  returns \<open>Inl\<close> with the text of the exception.  The YAML library, with the conversion of its nodes
  to JSON, and the file system are arguments; library paths are those of a POSIX platform other than
  macOS.
\<close>

record Library =
  lib_windows :: string
  lib_linux :: string
  lib_macos :: string

record Provide =
  pv_interface :: string
  pv_capabilities :: "string list"

record Require =
  rq_name :: string
  rq_interface :: string
  rq_optional :: bool

record LuaMeta =
  lm_namespace :: string
  lm_search_paths :: "string list"
  lm_enabled :: bool

record DocumentationMeta =
  dm_url :: string
  dm_description :: string
  dm_enabled :: bool

record 'j Manifest =
  mf_schema_version :: int
  mf_id :: string
  mf_name :: string
  mf_version :: string
  mf_kind :: string
  mf_description :: string
  mf_entry :: string
  mf_library :: Library
  mf_provides :: "Provide list"
  mf_requires :: "Require list"
  mf_lua :: LuaMeta
  mf_documentation :: DocumentationMeta
  mf_config_schema :: 'j

record 'j InstanceDecl =
  id_id :: string
  id_package :: string
  id_required :: bool
  id_dependencies :: "(string, string) umap"
  id_config :: 'j

record BindingDecl =
  bd_logical :: string
  bd_instance_id :: string

record 'j PluginConfig =
  pc_directory :: string
  pc_instances :: "'j InstanceDecl list"
  pc_bindings :: "BindingDecl list"

subsection \<open>Manifests\<close>

definition quoted :: "string \<Rightarrow> string" where
  "quoted s = CHR 0x27 # s @ [CHR 0x27]"

definition require_field :: "'j json_api \<Rightarrow> 'j \<Rightarrow> string \<Rightarrow> string + unit" where
  "require_field J j key =
     (if \<not> js_contains J j key \<or> js_is_null J (js_at J j key)
      then Inl (''plugin.manifest.invalid: missing '' @ quoted key)
      else Inr ())"

definition required_string :: "'j json_api \<Rightarrow> 'j \<Rightarrow> string \<Rightarrow> string + string" where
  "required_string J j key = attempt (require_field J j key) (\<lambda>_. js_get_string J (js_at J j key))"

fun parse_all :: "('a \<Rightarrow> 'e + 'b) \<Rightarrow> 'a list \<Rightarrow> 'e + 'b list" where
  "parse_all f [] = Inr []"
| "parse_all f (x # xs) = attempt (f x) (\<lambda>y. attempt (parse_all f xs) (\<lambda>ys. Inr (y # ys)))"

definition parse_provide :: "'j json_api \<Rightarrow> 'j \<Rightarrow> string + Provide" where
  "parse_provide J p =
     attempt (required_string J p ''interface'') (\<lambda>iface.
     attempt (if js_contains J p ''capabilities'' \<and> js_is_array J (js_at J p ''capabilities'')
              then js_get_strings J (js_at J p ''capabilities'') else Inr []) (\<lambda>caps.
     Inr \<lparr> pv_interface = iface, pv_capabilities = caps \<rparr>))"

definition parse_require :: "'j json_api \<Rightarrow> 'j \<Rightarrow> string + Require" where
  "parse_require J r =
     attempt (required_string J r ''name'') (\<lambda>name.
     attempt (required_string J r ''interface'') (\<lambda>iface.
     attempt (js_value_bool J r ''optional'' False) (\<lambda>optional.
     Inr \<lparr> rq_name = name, rq_interface = iface, rq_optional = optional \<rparr>)))"

definition parse_lua :: "'j json_api \<Rightarrow> 'j \<Rightarrow> string + LuaMeta" where
  "parse_lua J j =
     (if js_contains J j ''lua'' \<and> js_is_object J (js_at J j ''lua'')
      then let l = js_at J j ''lua'' in
        attempt (if js_contains J l ''namespace'' \<and> \<not> js_is_null J (js_at J l ''namespace'')
                 then js_get_string J (js_at J l ''namespace'') else Inr []) (\<lambda>ns.
        attempt (if js_contains J l ''search_paths'' \<and> js_is_array J (js_at J l ''search_paths'')
                 then parse_all (js_get_string J) (filter (js_is_string J) (js_elems J (js_at J l ''search_paths'')))
                 else Inr []) (\<lambda>paths.
        Inr \<lparr> lm_namespace = ns, lm_search_paths = paths, lm_enabled = (ns \<noteq> [] \<or> paths \<noteq> []) \<rparr>))
      else Inr \<lparr> lm_namespace = [], lm_search_paths = [], lm_enabled = False \<rparr>)"

definition parse_documentation :: "'j json_api \<Rightarrow> 'j \<Rightarrow> string + DocumentationMeta" where
  "parse_documentation J j =
     (if js_contains J j ''documentation'' \<and> js_is_object J (js_at J j ''documentation'')
      then let d = js_at J j ''documentation'' in
        attempt (if js_contains J d ''url'' \<and> js_is_string J (js_at J d ''url'')
                 then js_get_string J (js_at J d ''url'') else Inr []) (\<lambda>url.
        attempt (if js_contains J d ''description'' \<and> js_is_string J (js_at J d ''description'')
                 then js_get_string J (js_at J d ''description'') else Inr []) (\<lambda>description.
        Inr \<lparr> dm_url = url, dm_description = description, dm_enabled = (url \<noteq> []) \<rparr>))
      else Inr \<lparr> dm_url = [], dm_description = [], dm_enabled = False \<rparr>)"

definition parse_library :: "'j json_api \<Rightarrow> 'j \<Rightarrow> string + Library" where
  "parse_library J j =
     attempt (require_field J j ''library'') (\<lambda>_.
     let lib = js_at J j ''library'' in
     attempt (js_value_string J lib ''linux'' []) (\<lambda>lin.
     attempt (js_value_string J lib ''macos'' []) (\<lambda>mac.
     attempt (js_value_string J lib ''windows'' []) (\<lambda>win.
     Inr \<lparr> lib_windows = win, lib_linux = lin, lib_macos = mac \<rparr>))))"

definition parse_manifest :: "'j json_api \<Rightarrow> 'j \<Rightarrow> string + 'j Manifest" where
  "parse_manifest J j =
     attempt (require_field J j ''schema_version'') (\<lambda>_.
     attempt (js_get_int J (js_at J j ''schema_version'')) (\<lambda>schema_version.
     if schema_version \<noteq> 1 then Inl ''plugin.manifest.invalid: schema_version must be 1''
     else
     attempt (required_string J j ''id'') (\<lambda>mid.
     attempt (required_string J j ''entry'') (\<lambda>entry.
     attempt (js_value_string J j ''name'' mid) (\<lambda>name.
     attempt (js_value_string J j ''version'' ''0.0.0'') (\<lambda>version.
     attempt (js_value_string J j ''kind'' []) (\<lambda>kind.
     attempt (js_value_string J j ''description'' []) (\<lambda>description.
     attempt (parse_library J j) (\<lambda>library.
     attempt (require_field J j ''provides'') (\<lambda>_.
     attempt (parse_all (parse_provide J) (js_elems J (js_at J j ''provides''))) (\<lambda>provides.
     attempt (if js_contains J j ''requires'' \<and> js_is_array J (js_at J j ''requires'')
              then parse_all (parse_require J) (js_elems J (js_at J j ''requires'')) else Inr []) (\<lambda>requires.
     attempt (parse_lua J j) (\<lambda>lua.
     attempt (parse_documentation J j) (\<lambda>documentation.
     attempt (js_value_json J j ''config_schema'' (js_object J)) (\<lambda>config_schema.
     Inr \<lparr> mf_schema_version = schema_version, mf_id = mid, mf_name = name, mf_version = version, mf_kind = kind,
          mf_description = description, mf_entry = entry, mf_library = library, mf_provides = provides,
          mf_requires = requires, mf_lua = lua, mf_documentation = documentation,
          mf_config_schema = config_schema \<rparr>)))))))))))))))"

definition platform_library_path :: "'j Manifest \<Rightarrow> string" where
  "platform_library_path m = lib_linux (mf_library m)"

text \<open>The ways \<open>YAML::Load\<close> and the conversion of its nodes end other than with a value.\<close>

datatype yaml_error = ParserException string | BadConversion string | OtherException string

definition load_manifest_file ::
  "'j json_api \<Rightarrow> (string \<Rightarrow> string option) \<Rightarrow> (string \<Rightarrow> yaml_error + 'j) \<Rightarrow> string \<Rightarrow> string \<Rightarrow> string + 'j Manifest" where
  "load_manifest_file J read_file load_yaml filename path =
     (if filename \<noteq> ''manifest.yaml''
      then Inl ''plugin.manifest.invalid: manifest file must be named manifest.yaml''
      else case read_file path of
        None \<Rightarrow> Inl (''plugin.manifest.invalid: cannot open '' @ path)
      | Some contents \<Rightarrow>
          (case load_yaml contents of
             Inl (ParserException e) \<Rightarrow>
               Inl (''plugin.manifest.invalid: YAML parse error in '' @ path @ '': '' @ e)
           | Inl (BadConversion e) \<Rightarrow>
               Inl (''plugin.manifest.invalid: YAML conversion error in '' @ path @ '': '' @ e)
           | Inl (OtherException e) \<Rightarrow> Inl e
           | Inr j \<Rightarrow> parse_manifest J j))"

subsection \<open>Instances and bindings\<close>

definition parse_instance :: "'j json_api \<Rightarrow> 'j \<Rightarrow> string + 'j InstanceDecl" where
  "parse_instance J x =
     attempt (js_value_string J x ''id'' []) (\<lambda>iid.
     attempt (js_value_string J x ''package'' []) (\<lambda>package.
     attempt (js_value_bool J x ''required'' True) (\<lambda>required.
     attempt (if js_contains J x ''dependencies'' \<and> js_is_object J (js_at J x ''dependencies'')
              then parse_all (\<lambda>(k, v). map_sum id (Pair k) (js_get_string J v)) (js_items J (js_at J x ''dependencies''))
              else Inr []) (\<lambda>deps.
     attempt (js_value_json J x ''config'' (js_object J)) (\<lambda>config.
     Inr \<lparr> id_id = iid, id_package = package, id_required = required,
          id_dependencies = foldl (\<lambda>m (k, v). umap_put k v m) [] deps, id_config = config \<rparr>)))))"

text \<open>
  \<open>directory\<close> is what \<open>get_string\<close> of the configuration answers for \<open>plugins.directory\<close>, \<open>config_json\<close>
  what \<open>to_json\<close> gives.
\<close>

definition parse_plugin_config :: "'j json_api \<Rightarrow> string \<Rightarrow> bytes \<Rightarrow> string + 'j PluginConfig" where
  "parse_plugin_config J directory config_json =
     (case js_parse J config_json of
        Inl _ \<Rightarrow> Inr \<lparr> pc_directory = directory, pc_instances = [], pc_bindings = [] \<rparr>
      | Inr root \<Rightarrow>
          if \<not> js_contains J root ''plugins'' then Inr \<lparr> pc_directory = directory, pc_instances = [], pc_bindings = [] \<rparr>
          else let plugins = js_at J root ''plugins'' in
            attempt (if js_contains J plugins ''instances'' \<and> js_is_array J (js_at J plugins ''instances'')
                     then parse_all (parse_instance J) (js_elems J (js_at J plugins ''instances'')) else Inr []) (\<lambda>instances.
            attempt (if js_contains J plugins ''bindings'' \<and> js_is_object J (js_at J plugins ''bindings'')
                     then parse_all (\<lambda>(k, v). map_sum id (\<lambda>t. \<lparr> bd_logical = k, bd_instance_id = t \<rparr>) (js_get_string J v))
                            (js_items J (js_at J plugins ''bindings'')) else Inr []) (\<lambda>bindings.
            Inr \<lparr> pc_directory = directory, pc_instances = instances, pc_bindings = bindings \<rparr>)))"

lemma parse_all_Inr: "parse_all f xs = Inr ys \<longleftrightarrow> list_all2 (\<lambda>x y. f x = Inr y) xs ys"
  by (induction xs arbitrary: ys) (auto simp: attempt_eq_Inr list_all2_Cons1 split: sum.splits)

end
