(* ===== verification/Plugin_Host.thy ===== *)
theory Plugin_Host
  imports Topo_Order Schema_Validator Plugin_Manifest
begin

section \<open>The plugin host\<close>

text \<open>
  \<open>PluginHost\<close> of \<open>src/include/shield/plugin/plugin_host.hpp\<close> and \<open>src/src/plugin/plugin_host.cpp\<close>:
  the pipeline scan, catalog, plan and resolve, load, create, start, and the shutdown.

  A plugin is native code behind the tables of \<open>src/include/shield/plugin/abi.h\<close>.  \<open>plugin_abi\<close> and
  \<open>plugin_handle\<close> hold what its functions answer (\<open>None\<close> for a null pointer); \<open>host_env\<close> holds the
  file system, the YAML and JSON libraries and the loader of shared libraries.  \<open>h_calls\<close> records the
  calls into plugins.  A stage returns \<open>None\<close>, or the error it ends with: \<open>ErrorText\<close> is the result
  false with its error text, \<open>Exception\<close> an exception that leaves the function, \<open>NoFuel\<close> the end of
  the fuel given to the recursion of the schema functions.
\<close>

datatype State = planned | loaded | started | unavailable | failed | stopped

datatype host_call = CallCreate string | CallStart string | CallShutdown string | CallRegisterLua string

datatype host_error = ErrorText string | Exception string | NoFuel

record plugin_handle =
  hn_struct_size :: nat
  hn_get_interface :: "(string \<Rightarrow> bool) option"
  hn_start :: "(int \<times> string option) option"
  hn_shutdown :: bool
  hn_register_lua :: "(int \<times> string option \<times> string option) option"

record plugin_abi =
  ab_abi_version :: nat
  ab_struct_size :: nat
  ab_package_id :: "string option"
  ab_create :: "(string \<Rightarrow> bytes \<Rightarrow> int \<times> plugin_handle option \<times> string option \<times> string option) option"

record 'j Package =
  pkg_manifest :: "'j Manifest"
  pkg_root :: string

record 'j Instance =
  in_id :: string
  in_package :: "'j Package option"
  in_decl :: "'j InstanceDecl"
  in_state :: State
  in_abi :: "plugin_abi option"
  in_handle :: "plugin_handle option"
  in_lib :: bool
  in_dep_ids :: "string list"
  in_last_error :: string

record 'j PluginHost =
  h_packages :: "'j Package list"
  h_instances :: "'j Instance list"
  h_bindings :: "BindingDecl list"
  h_contexts :: "string list"
  h_start_order :: "string list"
  h_calls :: "host_call list"

record 'j host_env =
  he_json :: "'j json_api"
  he_fuel :: nat
  he_list_dir :: "string \<Rightarrow> (string \<times> bool) list option"
  he_exists :: "string \<Rightarrow> bool"
  he_read_file :: "string \<Rightarrow> string option"
  he_load_yaml :: "string \<Rightarrow> yaml_error + 'j"
  he_open :: "string \<Rightarrow> string + (string \<Rightarrow> plugin_abi option option)"

definition new_Instance :: "'j InstanceDecl \<Rightarrow> 'j Package option \<Rightarrow> 'j Instance" where
  "new_Instance d pkg =
     \<lparr> in_id = id_id d, in_package = pkg, in_decl = d, in_state = planned, in_abi = None, in_handle = None,
       in_lib = False, in_dep_ids = [], in_last_error = [] \<rparr>"

definition new_PluginHost :: "'j PluginHost" where
  "new_PluginHost =
     \<lparr> h_packages = [], h_instances = [], h_bindings = [], h_contexts = [], h_start_order = [], h_calls = [] \<rparr>"

definition state_name :: "State \<Rightarrow> string" where
  "state_name s =
     (case s of planned \<Rightarrow> ''planned'' | loaded \<Rightarrow> ''loaded'' | started \<Rightarrow> ''started''
      | unavailable \<Rightarrow> ''unavailable'' | failed \<Rightarrow> ''failed'' | stopped \<Rightarrow> ''stopped'')"

subsection \<open>Helpers\<close>

definition provides_interface :: "'j Package option \<Rightarrow> string \<Rightarrow> bool" where
  "provides_interface pkg interface =
     (case pkg of None \<Rightarrow> False
      | Some p \<Rightarrow> list_ex (\<lambda>pv. pv_interface pv = interface) (mf_provides (pkg_manifest p)))"

definition find_require :: "'j Manifest \<Rightarrow> string \<Rightarrow> Require option" where
  "find_require manifest name = List.find (\<lambda>req. rq_name req = name) (mf_requires manifest)"

text \<open>The parts of a path between its slashes; an absolute path begins with one.\<close>

fun path_parts :: "string \<Rightarrow> string list" where
  "path_parts [] = [[]]"
| "path_parts (c # cs) = (if c = CHR ''/'' then [] # path_parts cs else (c # hd (path_parts cs)) # tl (path_parts cs))"

definition is_absolute :: "string \<Rightarrow> bool" where
  "is_absolute path = (path \<noteq> [] \<and> hd path = CHR ''/'')"

definition path_join :: "string \<Rightarrow> string \<Rightarrow> string" where
  "path_join a b =
     (if is_absolute b then b
      else if a = [] \<or> last a = CHR ''/'' then a @ b else a @ ''/'' @ b)"

definition has_parent_reference :: "string \<Rightarrow> bool" where
  "has_parent_reference path = list_ex (\<lambda>part. part = ''..'') (path_parts path)"

definition validate_library_path :: "'j Package \<Rightarrow> string" where
  "validate_library_path package =
     (let lib = platform_library_path (pkg_manifest package) in
      if lib = []
      then ''plugin.manifest.invalid: package '' @ quoted (mf_id (pkg_manifest package)) @
           '' missing library path for current platform''
      else if is_absolute lib \<or> has_parent_reference lib
      then ''plugin.manifest.invalid: package '' @ quoted (mf_id (pkg_manifest package)) @
           '' library path must stay under package root''
      else [])"

fun validate_provides :: "string \<Rightarrow> string list \<Rightarrow> Provide list \<Rightarrow> string" where
  "validate_provides mid seen [] = []"
| "validate_provides mid seen (p # ps) =
     (if pv_interface p = []
      then ''plugin.manifest.invalid: package '' @ quoted mid @ '' declares an empty provided interface''
      else if List.member seen (pv_interface p)
      then ''plugin.manifest.invalid: package '' @ quoted mid @ '' declares duplicate interface '' @ quoted (pv_interface p)
      else validate_provides mid (pv_interface p # seen) ps)"

fun validate_requires :: "string \<Rightarrow> string list \<Rightarrow> Require list \<Rightarrow> string" where
  "validate_requires mid seen [] = []"
| "validate_requires mid seen (r # rs) =
     (if rq_name r = [] \<or> rq_interface r = []
      then ''plugin.manifest.invalid: package '' @ quoted mid @ '' declares an invalid dependency''
      else if List.member seen (rq_name r)
      then ''plugin.manifest.invalid: package '' @ quoted mid @ '' declares duplicate dependency '' @ quoted (rq_name r)
      else validate_requires mid (rq_name r # seen) rs)"

definition validate_interface_declarations :: "'j Manifest \<Rightarrow> string" where
  "validate_interface_declarations m =
     (if mf_provides m = []
      then ''plugin.manifest.invalid: package '' @ quoted (mf_id m) @ '' must declare at least one provided interface''
      else let e = validate_provides (mf_id m) [] (mf_provides m) in
           if e \<noteq> [] then e else validate_requires (mf_id m) [] (mf_requires m))"

text \<open>The instance with its new state, and the error text when the instance is required.\<close>

definition fail_or_unavailable :: "'j Instance \<Rightarrow> string \<Rightarrow> 'j Instance \<times> host_error option" where
  "fail_or_unavailable inst message =
     (if id_required (in_decl inst)
      then (inst\<lparr> in_last_error := message, in_state := failed \<rparr>, Some (ErrorText message))
      else (inst\<lparr> in_last_error := message, in_state := unavailable \<rparr>, None))"

definition shutdown_call :: "'j Instance \<Rightarrow> host_call list" where
  "shutdown_call inst =
     (case in_handle inst of None \<Rightarrow> [] | Some h \<Rightarrow> if hn_shutdown h then [CallShutdown (in_id inst)] else [])"

definition release_unstarted_handle :: "'j Instance \<Rightarrow> 'j Instance" where
  "release_unstarted_handle inst = inst\<lparr> in_handle := None \<rparr>"

definition find_package :: "'j Package list \<Rightarrow> string \<Rightarrow> 'j Package option" where
  "find_package packages pid = List.find (\<lambda>p. mf_id (pkg_manifest p) = pid) packages"

definition find_instance :: "'j Instance list \<Rightarrow> string \<Rightarrow> 'j Instance option" where
  "find_instance insts iid = List.find (\<lambda>i. in_id i = iid) insts"

text \<open>Writing through the pointer \<open>find_instance_mut\<close> returned: the first instance of that id.\<close>

fun put_instance :: "'j Instance \<Rightarrow> 'j Instance list \<Rightarrow> 'j Instance list" where
  "put_instance inst [] = []"
| "put_instance inst (i # is) = (if in_id i = in_id inst then inst # is else i # put_instance inst is)"

text \<open>
  A loop over the instances that updates each and may return early; \<open>'s\<close> is what it changes besides.
\<close>

fun for_each :: "('s \<Rightarrow> 'i \<Rightarrow> 's \<times> 'i \<times> 'e option) \<Rightarrow> 's \<Rightarrow> 'i list \<Rightarrow> 's \<times> 'i list \<times> 'e option" where
  "for_each f s [] = (s, [], None)"
| "for_each f s (x # xs) =
     (case f s x of
        (s', y, Some e) \<Rightarrow> (s', y # xs, Some e)
      | (s', y, None) \<Rightarrow> (case for_each f s' xs of (s'', ys, e) \<Rightarrow> (s'', y # ys, e)))"

abbreviation stateless :: "('i \<Rightarrow> 'i \<times> 'e option) \<Rightarrow> unit \<Rightarrow> 'i \<Rightarrow> unit \<times> 'i \<times> 'e option" where
  "stateless f s x \<equiv> (s, f x)"

subsection \<open>Scan and catalog\<close>

definition scan_entry :: "'j host_env \<Rightarrow> string \<times> bool \<Rightarrow> 'j Package list" where
  "scan_entry env entry =
     (let yaml_path = path_join (fst entry) ''manifest.yaml'' in
      if \<not> snd entry \<or> \<not> he_exists env yaml_path then []
      else case load_manifest_file (he_json env) (he_read_file env) (he_load_yaml env) ''manifest.yaml'' yaml_path of
        Inl _ \<Rightarrow> []
      | Inr m \<Rightarrow> [\<lparr> pkg_manifest = m, pkg_root = fst entry \<rparr>])"

definition scan :: "'j host_env \<Rightarrow> string \<Rightarrow> 'j PluginHost \<Rightarrow> 'j PluginHost" where
  "scan env directory host =
     (case he_list_dir env directory of
        None \<Rightarrow> host
      | Some entries \<Rightarrow> host\<lparr> h_packages := h_packages host @ concat (map (scan_entry env) entries) \<rparr>)"

fun catalog_loop :: "string list \<Rightarrow> 'j Package list \<Rightarrow> string" where
  "catalog_loop seen [] = []"
| "catalog_loop seen (p # ps) =
     (let mid = mf_id (pkg_manifest p) in
      if List.member seen mid then ''plugin.manifest.invalid: duplicate package id '' @ quoted mid
      else let e = validate_interface_declarations (pkg_manifest p) in
        if e \<noteq> [] then e
        else let e = validate_library_path p in
          if e \<noteq> [] then e else catalog_loop (mid # seen) ps)"

definition catalog :: "'j PluginHost \<Rightarrow> string" where
  "catalog host = catalog_loop [] (h_packages host)"

subsection \<open>Plan and resolve\<close>

definition package_not_found :: "'j InstanceDecl \<Rightarrow> string" where
  "package_not_found d =
     ''plugin.package.not_found: package '' @ quoted (id_package d) @ '' for instance '' @ quoted (id_id d)"

fun plan_loop ::
  "'j Package list \<Rightarrow> string list \<Rightarrow> 'j InstanceDecl list \<Rightarrow> 'j Instance list \<times> host_error option" where
  "plan_loop packages seen [] = ([], None)"
| "plan_loop packages seen (d # ds) =
     (if id_id d = [] then ([], Some (ErrorText ''plugin.config.invalid: instance id is required''))
      else if List.member seen (id_id d)
      then ([], Some (ErrorText (''plugin.config.invalid: duplicate instance id '' @ quoted (id_id d))))
      else
        let go_on = (\<lambda>inst. case plan_loop packages (id_id d # seen) ds of (insts, e) \<Rightarrow> (inst # insts, e)) in
        case find_package packages (id_package d) of
          None \<Rightarrow>
            if id_required d then ([], Some (ErrorText (package_not_found d)))
            else go_on ((new_Instance d None)\<lparr> in_state := unavailable, in_last_error := package_not_found d \<rparr>)
        | Some pkg \<Rightarrow> go_on (new_Instance d (Some pkg)))"

text \<open>
  Defaults and validation.  \<open>apply_defaults\<close> reads members it has checked only and throws nothing, so
  the handler around it has nothing to catch; an exception of the validation leaves \<open>plan_and_resolve\<close>.
\<close>

definition configure_instance :: "'j host_env \<Rightarrow> 'j Instance \<Rightarrow> 'j Instance \<times> host_error option" where
  "configure_instance env inst =
     (case in_package inst of
        None \<Rightarrow> (inst, None)
      | Some pkg \<Rightarrow>
          if in_state inst = unavailable then (inst, None)
          else
            let J = he_json env; schema = mf_config_schema (pkg_manifest pkg); given = id_config (in_decl inst) in
            case apply_defaults J (he_fuel env) schema (if js_is_null J given then js_object J else given) of
              None \<Rightarrow> (inst, Some NoFuel)
            | Some cfg_json \<Rightarrow>
                (case validate_config J (he_fuel env) schema cfg_json [] of
                   Inl OutOfFuel \<Rightarrow> (inst, Some NoFuel)
                 | Inl (Thrown e) \<Rightarrow> (inst, Some (Exception e))
                 | Inr cfg_err \<Rightarrow>
                     if cfg_err \<noteq> []
                     then fail_or_unavailable inst
                       (''plugin.config.invalid: instance '' @ quoted (in_id inst) @ '': '' @ cfg_err)
                     else (inst\<lparr> in_decl := (in_decl inst)\<lparr> id_config := cfg_json \<rparr> \<rparr>, None)))"

definition resolve_fail :: "'j Instance \<Rightarrow> string \<Rightarrow> 'j Instance \<times> host_error option" where
  "resolve_fail inst message =
     (case fail_or_unavailable inst message of
        (inst', Some e) \<Rightarrow> (inst', Some e)
      | (inst', None) \<Rightarrow> (inst'\<lparr> in_dep_ids := [] \<rparr>, None))"

text \<open>
  \<open>resolve_requires\<close> looks instances up while the loop updates them; it reads their ids and packages
  only, which no resolution changes.
\<close>

fun resolve_requires ::
  "'j Instance list \<Rightarrow> Require list \<Rightarrow> 'j Instance \<Rightarrow> 'j Instance \<times> host_error option" where
  "resolve_requires insts [] inst = (inst, None)"
| "resolve_requires insts (req # reqs) inst =
     (case umap_find (rq_name req) (id_dependencies (in_decl inst)) of
        None \<Rightarrow>
          if rq_optional req then resolve_requires insts reqs inst
          else resolve_fail inst (''plugin.dependency.missing: instance '' @ quoted (in_id inst) @
                 '' missing required dependency '' @ quoted (rq_name req))
      | Some target \<Rightarrow>
          (case find_instance insts target of
             None \<Rightarrow>
               if rq_optional req then resolve_requires insts reqs inst
               else resolve_fail inst (''plugin.dependency.missing: instance '' @ quoted (in_id inst) @
                      '' dependency '' @ quoted (rq_name req) @ '' -> '' @ quoted target @ '' not found'')
           | Some dep \<Rightarrow>
               if \<not> provides_interface (in_package dep) (rq_interface req)
               then if rq_optional req then resolve_requires insts reqs inst
                    else resolve_fail inst (''plugin.dependency.missing: instance '' @ quoted (in_id dep) @
                           '' does not provide '' @ quoted (rq_interface req))
               else resolve_requires insts reqs (inst\<lparr> in_dep_ids := in_dep_ids inst @ [in_id dep] \<rparr>)))"

definition resolve_instance :: "'j Instance list \<Rightarrow> 'j Instance \<Rightarrow> 'j Instance \<times> host_error option" where
  "resolve_instance insts inst =
     (case in_package inst of
        None \<Rightarrow> (inst, None)
      | Some pkg \<Rightarrow>
          if in_state inst = unavailable then (inst, None)
          else case List.find (\<lambda>name. find_require (pkg_manifest pkg) name = None)
                      (sort (map fst (id_dependencies (in_decl inst)))) of
              Some dep_name \<Rightarrow>
                resolve_fail inst (''plugin.dependency.undeclared: instance '' @ quoted (in_id inst) @
                  '' configured undeclared dependency '' @ quoted dep_name)
            | None \<Rightarrow> resolve_requires insts (mf_requires (pkg_manifest pkg)) inst)"

fun check_bindings :: "'j Instance list \<Rightarrow> string list \<Rightarrow> BindingDecl list \<Rightarrow> host_error option" where
  "check_bindings insts seen [] = None"
| "check_bindings insts seen (b # bs) =
     (if bd_logical b = [] then Some (ErrorText ''plugin.binding.invalid: binding name is required'')
      else if List.member seen (bd_logical b)
      then Some (ErrorText (''plugin.binding.invalid: duplicate binding '' @ quoted (bd_logical b)))
      else if find_instance insts (bd_instance_id b) = None
      then Some (ErrorText (''plugin.binding.invalid: binding '' @ quoted (bd_logical b) @
             '' targets missing instance '' @ quoted (bd_instance_id b)))
      else check_bindings insts (bd_logical b # seen) bs)"

definition instance_nodes :: "'j Instance list \<Rightarrow> nodes" where
  "instance_nodes insts = map (\<lambda>i. (in_id i, in_dep_ids i)) insts"

definition plan_and_resolve ::
  "'j host_env \<Rightarrow> 'j PluginConfig \<Rightarrow> 'j PluginHost \<Rightarrow> 'j PluginHost \<times> host_error option" where
  "plan_and_resolve env cfg host0 =
     (let host = host0\<lparr> h_bindings := pc_bindings cfg \<rparr> in
      case plan_loop (h_packages host) [] (pc_instances cfg) of
        (insts, Some e) \<Rightarrow> (host\<lparr> h_instances := insts \<rparr>, Some e)
      | (insts, None) \<Rightarrow>
      (case for_each (stateless (configure_instance env)) () insts of
        (_, insts, Some e) \<Rightarrow> (host\<lparr> h_instances := insts \<rparr>, Some e)
      | (_, insts, None) \<Rightarrow>
      (case for_each (stateless (resolve_instance insts)) () insts of
        (_, insts, Some e) \<Rightarrow> (host\<lparr> h_instances := insts \<rparr>, Some e)
      | (_, insts, None) \<Rightarrow>
      (case check_bindings insts [] (pc_bindings cfg) of
        Some e \<Rightarrow> (host\<lparr> h_instances := insts \<rparr>, Some e)
      | None \<Rightarrow>
      (case start_order_of (instance_nodes insts) of
        None \<Rightarrow> (host\<lparr> h_instances := insts \<rparr>,
          Some (ErrorText ''plugin.dependency.cycle: circular dependency among instances''))
      | Some order \<Rightarrow> (host\<lparr> h_instances := insts, h_start_order := order \<rparr>, None))))))"

subsection \<open>Load\<close>

definition SHIELD_PLUGIN_ABI_VERSION :: nat where
  "SHIELD_PLUGIN_ABI_VERSION = 1"

text \<open>Two 32-bit fields and three pointers; one padded 32-bit field and five pointers.\<close>

definition sizeof_plugin_abi :: nat where
  "sizeof_plugin_abi = 32"

definition sizeof_plugin_instance :: nat where
  "sizeof_plugin_instance = 48"

definition load_instance :: "'j host_env \<Rightarrow> 'j Instance \<Rightarrow> 'j Instance \<times> host_error option" where
  "load_instance env inst =
     (case in_package inst of
        None \<Rightarrow> (inst, None)
      | Some pkg \<Rightarrow>
          if in_state inst \<noteq> planned then (inst, None)
          else
            let m = pkg_manifest pkg; libpath = path_join (pkg_root pkg) (platform_library_path m) in
            case he_open env libpath of
              Inl err \<Rightarrow> fail_or_unavailable inst (''plugin.entry.missing: '' @ libpath @ '': '' @ err)
            | Inr resolve \<Rightarrow>
                let inst = inst\<lparr> in_lib := True \<rparr> in
                (case resolve (mf_entry m) of
                   None \<Rightarrow> fail_or_unavailable inst (''plugin.entry.missing: symbol '' @ quoted (mf_entry m) @
                             '' not found in '' @ libpath)
                 | Some got \<Rightarrow>
                     let inst = inst\<lparr> in_abi := got \<rparr> in
                     (case got of
                        None \<Rightarrow> fail_or_unavailable inst (''plugin.abi.mismatch: '' @ in_id inst @ '' (abi_version)'')
                      | Some abi \<Rightarrow>
                          if ab_abi_version abi \<noteq> SHIELD_PLUGIN_ABI_VERSION
                          then fail_or_unavailable inst (''plugin.abi.mismatch: '' @ in_id inst @ '' (abi_version)'')
                          else if ab_struct_size abi < sizeof_plugin_abi
                          then fail_or_unavailable inst (''plugin.abi.mismatch: '' @ in_id inst @ '' (struct_size)'')
                          else if ab_package_id abi \<noteq> Some (mf_id m)
                          then fail_or_unavailable inst (''plugin.abi.mismatch: '' @ in_id inst @ '' (package_id '' @
                                 quoted (case ab_package_id abi of Some p \<Rightarrow> p | None \<Rightarrow> []) @
                                 '' != manifest '' @ quoted (mf_id m) @ '')'')
                          else (inst\<lparr> in_state := loaded \<rparr>, None))))"

definition load_all :: "'j host_env \<Rightarrow> 'j PluginHost \<Rightarrow> 'j PluginHost \<times> host_error option" where
  "load_all env host =
     (case for_each (stateless (load_instance env)) () (h_instances host) of
        (_, insts, e) \<Rightarrow> (host\<lparr> h_instances := insts \<rparr>, e))"

subsection \<open>Create\<close>

definition error_suffix :: "string option \<Rightarrow> string option \<Rightarrow> string" where
  "error_suffix code message =
     (case code of Some c \<Rightarrow> '' ['' @ c @ '']'' | None \<Rightarrow> []) @ (case message of Some m \<Rightarrow> '' '' @ m | None \<Rightarrow> [])"

text \<open>Besides the instance: the contexts kept and the calls made.\<close>

type_synonym create_state = "string list \<times> host_call list"

definition create_fail ::
  "create_state \<Rightarrow> 'j Instance \<Rightarrow> string \<Rightarrow> create_state \<times> 'j Instance \<times> host_error option" where
  "create_fail s inst message =
     ((fst s, snd s @ shutdown_call inst), fail_or_unavailable (release_unstarted_handle inst) message)"

text \<open>What is wrong with a created handle, if anything.\<close>

definition handle_fault :: "'j Package \<Rightarrow> string \<Rightarrow> plugin_handle \<Rightarrow> string option" where
  "handle_fault pkg iid h =
     (if hn_struct_size h < sizeof_plugin_instance
      then Some (''plugin.abi.mismatch: '' @ iid @ '' (instance struct_size)'')
      else case hn_get_interface h of
        None \<Rightarrow> Some (''plugin.create.failed: '' @ iid @ '' missing get_interface'')
      | Some get_interface \<Rightarrow>
          map_option (\<lambda>pv. ''plugin.create.failed: '' @ iid @ '' does not provide declared interface '' @
                        quoted (pv_interface pv))
            (List.find (\<lambda>pv. \<not> get_interface (pv_interface pv)) (mf_provides (pkg_manifest pkg))))"

definition created ::
  "'j Package \<Rightarrow> create_state \<Rightarrow> 'j Instance \<Rightarrow> int \<times> plugin_handle option \<times> string option \<times> string option \<Rightarrow>
     create_state \<times> 'j Instance \<times> host_error option" where
  "created pkg s inst result =
     (case result of
        (rc, handle, code, message) \<Rightarrow>
          let inst = inst\<lparr> in_handle := handle \<rparr>;
              create_failed = ''plugin.create.failed: '' @ in_id inst @ error_suffix code message in
          if rc \<noteq> 0 then create_fail s inst create_failed
          else case handle of
            None \<Rightarrow> create_fail s inst create_failed
          | Some h \<Rightarrow>
              (case handle_fault pkg (in_id inst) h of
                 Some fault \<Rightarrow> create_fail s inst fault
               | None \<Rightarrow> ((fst s @ [in_id inst], snd s), inst, None)))"

definition create_instance ::
  "'j host_env \<Rightarrow> create_state \<Rightarrow> 'j Instance \<Rightarrow> create_state \<times> 'j Instance \<times> host_error option" where
  "create_instance env s inst =
     (case (in_package inst, in_abi inst) of
        (Some pkg, Some abi) \<Rightarrow>
          if in_state inst \<noteq> loaded then (s, inst, None)
          else (case js_dump (he_json env) (id_config (in_decl inst)) of
             Inl e \<Rightarrow> (s, inst, Some (Exception e))
           | Inr cfg_str \<Rightarrow>
               (case ab_create abi of
                  None \<Rightarrow> create_fail s inst (''plugin.create.failed: '' @ in_id inst)
                | Some create \<Rightarrow>
                    created pkg (fst s, snd s @ [CallCreate (in_id inst)]) inst (create (in_id inst) cfg_str)))
      | _ \<Rightarrow> (s, inst, None))"

definition create_all :: "'j host_env \<Rightarrow> 'j PluginHost \<Rightarrow> 'j PluginHost \<times> host_error option" where
  "create_all env host =
     (case for_each (create_instance env) (h_contexts host, h_calls host) (h_instances host) of
        ((contexts, calls), insts, e) \<Rightarrow>
          (host\<lparr> h_instances := insts, h_contexts := contexts, h_calls := calls \<rparr>, e))"

subsection \<open>Start\<close>

text \<open>The first dependency that keeps the instance from starting.\<close>

definition blocking_require :: "'j Instance list \<Rightarrow> 'j Instance \<Rightarrow> Require option" where
  "blocking_require insts inst =
     (case in_package inst of
        None \<Rightarrow> None
      | Some pkg \<Rightarrow>
          List.find (\<lambda>req.
            \<not> rq_optional req \<and>
            (case umap_find (rq_name req) (id_dependencies (in_decl inst)) of
               None \<Rightarrow> False
             | Some target \<Rightarrow>
                 (case find_instance insts target of None \<Rightarrow> True | Some dep \<Rightarrow> in_state dep \<noteq> started)))
            (mf_requires (pkg_manifest pkg)))"

definition start_instance ::
  "'j PluginHost \<Rightarrow> string \<Rightarrow> 'j PluginHost \<times> host_error option" where
  "start_instance host iid =
     (case find_instance (h_instances host) iid of
        None \<Rightarrow> (host, None)
      | Some inst \<Rightarrow>
          if in_state inst = unavailable then (host, None)
          else case in_handle inst of
            None \<Rightarrow> (host, None)
          | Some h \<Rightarrow>
              let fail_with = (\<lambda>calls message.
                    case fail_or_unavailable (release_unstarted_handle inst) message of
                      (inst', e) \<Rightarrow> (host\<lparr> h_instances := put_instance inst' (h_instances host),
                                         h_calls := h_calls host @ calls @ shutdown_call inst \<rparr>, e)) in
              case blocking_require (h_instances host) inst of
                Some req \<Rightarrow> fail_with [] (''plugin.dependency.unavailable: instance '' @ quoted (in_id inst) @
                  '' dependency '' @ quoted (rq_name req) @ '' is not started'')
              | None \<Rightarrow>
                  (case hn_start h of
                     Some (rc, message) \<Rightarrow>
                       if rc \<noteq> 0
                       then fail_with [CallStart (in_id inst)] (''plugin.init.failed: '' @ in_id inst @ error_suffix None message)
                       else (host\<lparr> h_instances := put_instance (inst\<lparr> in_state := started \<rparr>) (h_instances host),
                                   h_calls := h_calls host @ [CallStart (in_id inst)] \<rparr>, None)
                   | None \<Rightarrow>
                       (host\<lparr> h_instances := put_instance (inst\<lparr> in_state := started \<rparr>) (h_instances host) \<rparr>, None)))"

fun start_loop :: "string list \<Rightarrow> 'j PluginHost \<Rightarrow> 'j PluginHost \<times> host_error option" where
  "start_loop [] host = (host, None)"
| "start_loop (iid # iids) host =
     (case start_instance host iid of
        (host', Some e) \<Rightarrow> (host', Some e)
      | (host', None) \<Rightarrow> start_loop iids host')"

definition start_all :: "'j PluginHost \<Rightarrow> 'j PluginHost \<times> host_error option" where
  "start_all host = start_loop (h_start_order host) host"

subsection \<open>Shutdown and startup\<close>

definition stop_instance :: "'j PluginHost \<Rightarrow> string \<Rightarrow> 'j PluginHost" where
  "stop_instance host iid =
     (case find_instance (h_instances host) iid of
        None \<Rightarrow> host
      | Some inst \<Rightarrow>
          if in_handle inst \<noteq> None \<and> in_state inst = started
          then host\<lparr> h_instances := put_instance (inst\<lparr> in_handle := None, in_state := stopped \<rparr>) (h_instances host),
                     h_calls := h_calls host @ shutdown_call inst \<rparr>
          else host)"

definition shutdown :: "'j PluginHost \<Rightarrow> 'j PluginHost" where
  "shutdown host = (foldl stop_instance host (rev (h_start_order host)))\<lparr> h_contexts := [] \<rparr>"

definition not_started :: "'j Instance list \<Rightarrow> 'j Instance option" where
  "not_started insts = List.find (\<lambda>i. id_required (in_decl i) \<and> in_state i \<noteq> started) insts"

text \<open>
  A stage that returns false is followed by a shutdown; an exception is not caught.
\<close>

definition stage :: "'j PluginHost \<times> host_error option \<Rightarrow> ('j PluginHost \<Rightarrow> 'j PluginHost \<times> host_error option) \<Rightarrow>
    'j PluginHost \<times> host_error option" where
  "stage r next_stage =
     (case r of
        (host, None) \<Rightarrow> next_stage host
      | (host, Some (ErrorText e)) \<Rightarrow> (shutdown host, Some (ErrorText e))
      | (host, Some e) \<Rightarrow> (host, Some e))"

definition startup ::
  "'j host_env \<Rightarrow> 'j PluginConfig \<Rightarrow> 'j PluginHost \<Rightarrow> 'j PluginHost \<times> host_error option" where
  "startup env cfg host0 =
     (let host = scan env (pc_directory cfg)
                   ((shutdown host0)\<lparr> h_packages := [], h_instances := [], h_bindings := [], h_contexts := [],
                                      h_start_order := [] \<rparr>) in
      stage (host, if catalog host \<noteq> [] then Some (ErrorText (catalog host)) else None) (\<lambda>host.
      stage (plan_and_resolve env cfg host) (\<lambda>host.
      stage (load_all env host) (\<lambda>host.
      stage (create_all env host) (\<lambda>host.
      stage (start_all host) (\<lambda>host.
      stage (host, case not_started (h_instances host) of
               None \<Rightarrow> None
             | Some i \<Rightarrow> Some (ErrorText (''plugin.init.failed: required instance '' @ quoted (in_id i) @
                 '' not started ('' @ state_name (in_state i) @ '')''))) (\<lambda>host. (host, None))))))))"

subsection \<open>Queries\<close>

definition binding_instance_id :: "'j PluginHost \<Rightarrow> string \<Rightarrow> string" where
  "binding_instance_id host name =
     (case List.find (\<lambda>b. bd_logical b = name) (h_bindings host) of None \<Rightarrow> [] | Some b \<Rightarrow> bd_instance_id b)"

definition started_interface :: "'j Instance option \<Rightarrow> string \<Rightarrow> bool" where
  "started_interface inst interface =
     (case inst of
        None \<Rightarrow> False
      | Some i \<Rightarrow>
          (case in_handle i of
             None \<Rightarrow> False
           | Some h \<Rightarrow>
               in_state i = started \<and>
               (case hn_get_interface h of None \<Rightarrow> False | Some get_interface \<Rightarrow> get_interface interface)))"

definition get_binding_vtable :: "'j PluginHost \<Rightarrow> string \<Rightarrow> string \<Rightarrow> bool" where
  "get_binding_vtable host binding interface =
     (case List.find (\<lambda>b. bd_logical b = binding) (h_bindings host) of
        None \<Rightarrow> False
      | Some b \<Rightarrow> started_interface (find_instance (h_instances host) (bd_instance_id b)) interface)"

definition host_dependency :: "'j PluginHost \<Rightarrow> 'j Instance \<Rightarrow> string \<Rightarrow> string \<Rightarrow> bool" where
  "host_dependency host inst name interface =
     (case (umap_find name (id_dependencies (in_decl inst)), in_package inst) of
        (Some target, Some pkg) \<Rightarrow>
          (case find_require (pkg_manifest pkg) name of
             None \<Rightarrow> False
           | Some req \<Rightarrow> rq_interface req = interface \<and> started_interface (find_instance (h_instances host) target) interface)
      | _ \<Rightarrow> False)"

definition package_ids :: "'j PluginHost \<Rightarrow> string list" where
  "package_ids host = map (\<lambda>p. mf_id (pkg_manifest p)) (h_packages host)"

definition list_instances :: "'j PluginHost \<Rightarrow> (string \<times> string \<times> string \<times> bool) list" where
  "list_instances host =
     map (\<lambda>i. (in_id i, id_package (in_decl i), state_name (in_state i), id_required (in_decl i))) (h_instances host)"

definition list_packages :: "'j PluginHost \<Rightarrow> (string \<times> string \<times> string \<times> string list \<times> string \<times> string) list" where
  "list_packages host =
     map (\<lambda>p. let m = pkg_manifest p in
              (mf_id m, mf_version m, mf_kind m, map pv_interface (mf_provides m),
               dm_url (mf_documentation m), dm_description (mf_documentation m))) (h_packages host)"

text \<open>Logical name, instance and the first interface its package provides.\<close>

definition get_binding :: "'j PluginHost \<Rightarrow> string \<Rightarrow> (string \<times> string \<times> string) option" where
  "get_binding host name =
     map_option (\<lambda>b.
       (bd_logical b, bd_instance_id b,
        case find_instance (h_instances host) (bd_instance_id b) of
          None \<Rightarrow> []
        | Some i \<Rightarrow>
            (case in_package i of
               None \<Rightarrow> []
             | Some pkg \<Rightarrow> (case mf_provides (pkg_manifest pkg) of [] \<Rightarrow> [] | pv # _ \<Rightarrow> pv_interface pv))))
       (List.find (\<lambda>b. bd_logical b = name) (h_bindings host))"

text \<open>The dotted path of \<open>config_get\<close>; \<open>None\<close> is the null pointer for a missing key.\<close>

function config_walk :: "'j json_api \<Rightarrow> 'j \<Rightarrow> string \<Rightarrow> 'j option" where
  "config_walk J cur p =
     (if p = [] \<or> \<not> js_is_object J cur then Some cur
      else
        let seg = takeWhile (\<lambda>c. c \<noteq> CHR ''.'') p; rest = dropWhile (\<lambda>c. c \<noteq> CHR ''.'') p in
        if \<not> js_contains J cur seg then None
        else if rest = [] then Some (js_at J cur seg)
        else config_walk J (js_at J cur seg) (tl rest))"
  by pat_completeness auto

termination
  by (relation "measure (\<lambda>(J, cur, p). length p)")
    (auto intro!: le_less_trans [OF diff_le_mono [OF length_dropWhile_le]] simp: neq_Nil_conv)

declare config_walk.simps [simp del]

definition config_get :: "'j json_api \<Rightarrow> 'j Instance \<Rightarrow> string \<Rightarrow> string + bytes option" where
  "config_get J inst path =
     (case config_walk J (id_config (in_decl inst)) path of
        None \<Rightarrow> Inr None
      | Some v \<Rightarrow>
          if js_is_string J v then map_sum id (\<lambda>t. Some (map of_char t)) (js_get_string J v)
          else map_sum id Some (js_dump J v))"

text \<open>The instances whose Lua registration failed get their error; a required one ends the loop.\<close>

fun register_lua_loop :: "string list \<Rightarrow> 'j PluginHost \<Rightarrow> 'j PluginHost \<times> host_error option" where
  "register_lua_loop [] host = (host, None)"
| "register_lua_loop (iid # iids) host =
     (case find_instance (h_instances host) iid of
        None \<Rightarrow> register_lua_loop iids host
      | Some inst \<Rightarrow>
          (case in_handle inst of
             None \<Rightarrow> register_lua_loop iids host
           | Some h \<Rightarrow>
               if in_state inst \<noteq> started then register_lua_loop iids host
               else case hn_register_lua h of
                 None \<Rightarrow> register_lua_loop iids host
               | Some (rc, code, message) \<Rightarrow>
                   let host = host\<lparr> h_calls := h_calls host @ [CallRegisterLua (in_id inst)] \<rparr>;
                       msg = ''plugin.lua_register.failed: '' @ in_id inst @ error_suffix code message;
                       marked = host\<lparr> h_instances := put_instance (inst\<lparr> in_last_error := msg \<rparr>) (h_instances host) \<rparr> in
                   if rc = 0 then register_lua_loop iids host
                   else if id_required (in_decl inst) then (marked, Some (ErrorText msg))
                   else register_lua_loop iids marked))"

definition register_lua_all :: "'j PluginHost \<Rightarrow> 'j PluginHost \<times> host_error option" where
  "register_lua_all host = register_lua_loop (h_start_order host) host"

text \<open>
  \<open>package.path\<close> after the search paths of the started instances are appended.  \<open>None\<close> is a global
  \<open>package\<close> that is no table, \<open>Some None\<close> a \<open>path\<close> field that is no string.
\<close>

definition append_path :: "string option \<Rightarrow> string \<Rightarrow> string option" where
  "append_path path s =
     (let cur = (case path of Some p \<Rightarrow> p | None \<Rightarrow> []) in
      Some ((if cur \<noteq> [] \<and> last cur \<noteq> CHR '';'' then cur @ '';'' else cur) @ s))"

definition inject_lua_paths :: "'j PluginHost \<Rightarrow> string option option \<Rightarrow> string option option" where
  "inject_lua_paths host package_table =
     map_option (\<lambda>path. foldl (\<lambda>cur iid.
       case find_instance (h_instances host) iid of
         None \<Rightarrow> cur
       | Some inst \<Rightarrow>
           (case in_package inst of
              None \<Rightarrow> cur
            | Some pkg \<Rightarrow>
                if in_state inst \<noteq> started \<or> \<not> lm_enabled (mf_lua (pkg_manifest pkg)) then cur
                else foldl (\<lambda>cur rel. if rel = [] then cur else append_path cur (path_join (pkg_root pkg) rel)) cur
                       (lm_search_paths (mf_lua (pkg_manifest pkg))))) path (h_start_order host)) package_table"

end
