(* ===== verification/Plugin_Lifecycle.thy ===== *)
theory Plugin_Lifecycle
  imports Plugin_Host
begin

section \<open>Properties of the plugin host\<close>

text \<open>
  What the stages of \<open>Plugin_Host\<close> keep, what planning establishes, and what holds after a startup and
  after a shutdown.
\<close>

subsection \<open>What the stages keep\<close>

definition live :: "'j Instance \<Rightarrow> bool" where
  "live i \<longleftrightarrow> in_state i = planned \<or> in_state i = loaded \<or> in_state i = started"

definition static :: "'j Instance \<Rightarrow> string \<times> 'j Package option \<times> 'j InstanceDecl" where
  "static i = (in_id i, in_package i, in_decl i)"

text \<open>A stage changes no identity, revives no instance and starts none.\<close>

definition stage_step :: "'j Instance \<Rightarrow> 'j Instance \<Rightarrow> bool" where
  "stage_step i i' \<longleftrightarrow>
     static i' = static i \<and> (live i' \<longrightarrow> live i) \<and> (in_state i' = started \<longrightarrow> in_state i = started)"

lemma stage_step_refl [simp]: "stage_step i i"
  by (simp add: stage_step_def)

lemma stage_step_trans: "stage_step i j \<Longrightarrow> stage_step j k \<Longrightarrow> stage_step i k"
  by (simp add: stage_step_def)

lemma for_each_all2:
  assumes "for_each f s xs = (s', ys, e)" "\<And>x. R x x" "\<And>s x s' y e. f s x = (s', y, e) \<Longrightarrow> R x y"
  shows "list_all2 R xs ys"
  using assms(1)
proof (induction xs arbitrary: s ys)
  case (Cons x xs)
  obtain s1 y e1 where f: "f s x = (s1, y, e1)" by (metis prod_cases3)
  note R = assms(3) [OF f]
  show ?case
  proof (cases e1)
    case None
    obtain s2 zs e2 where l: "for_each f s1 xs = (s2, zs, e2)" by (metis prod_cases3)
    with Cons.prems f None have "ys = y # zs" by simp
    with Cons.IH [OF] Cons.prems f None l R show ?thesis by auto
  next
    case (Some e')
    with Cons.prems f have "ys = y # xs" by simp
    with R assms(2) show ?thesis by (simp add: list.rel_refl)
  qed
qed simp

lemma for_each_done:
  assumes "for_each f s xs = (s', ys, None)"
  shows "list_all2 (\<lambda>x y. \<exists>s s'. f s x = (s', y, None)) xs ys"
  using assms
proof (induction xs arbitrary: s ys)
  case (Cons x xs)
  obtain s1 y e1 where f: "f s x = (s1, y, e1)" by (metis prod_cases3)
  with Cons.prems have e1: "e1 = None" by (cases e1) auto
  obtain s2 zs e2 where l: "for_each f s1 xs = (s2, zs, e2)" by (metis prod_cases3)
  with Cons.prems f e1 have "ys = y # zs" "e2 = None" by auto
  with Cons.IH [of s1 zs] Cons.prems f e1 l show ?case by auto
qed simp

lemma fail_step: "live i \<Longrightarrow> fail_or_unavailable i m = (i', e) \<Longrightarrow> stage_step i i'"
  by (auto simp: fail_or_unavailable_def stage_step_def live_def static_def split: if_splits)

lemma fail_static: "fail_or_unavailable i m = (i', e) \<Longrightarrow> static i' = static i \<and> \<not> live i' \<and> in_handle i' = in_handle i"
  by (auto simp: fail_or_unavailable_def live_def static_def split: if_splits)

lemma not_live_step: "static i' = static i \<Longrightarrow> \<not> live i' \<Longrightarrow> stage_step i i'"
  by (auto simp: stage_step_def live_def)

text \<open>A configured instance that is still live has a configuration its schema accepts.\<close>

definition configured :: "'j json_api \<Rightarrow> 'j Instance \<Rightarrow> bool" where
  "configured J i \<longleftrightarrow>
     (live i \<longrightarrow> (\<forall>pkg. in_package i = Some pkg \<longrightarrow>
        conforms J (mf_config_schema (pkg_manifest pkg)) (id_config (in_decl i))))"

lemma configure_step:
  assumes "configure_instance env i = (i', e)"
  shows "in_id i' = in_id i" "in_package i' = in_package i" "in_handle i' = in_handle i" "in_dep_ids i' = in_dep_ids i"
    "live i' \<Longrightarrow> live i" "in_state i' = started \<Longrightarrow> in_state i = started" "e = None \<Longrightarrow> configured (he_json env) i'"
  using assms
  by (auto simp: configure_instance_def Let_def fail_or_unavailable_def live_def configured_def validate_config_sound
      split: option.splits if_splits sum.splits schema_error.splits)

lemma resolve_fail_step:
  assumes "resolve_fail i m = (i', e)"
  shows "static i' = static i \<and> \<not> live i' \<and> in_handle i' = in_handle i \<and> (e = None \<longrightarrow> in_dep_ids i' = [])"
  using assms by (auto simp: resolve_fail_def fail_or_unavailable_def live_def static_def split: if_splits)

definition sig :: "'j Instance list \<Rightarrow> (string \<times> 'j Package option) list" where
  "sig insts = map (\<lambda>i. (in_id i, in_package i)) insts"

text \<open>Every dependency the package requires is configured with an instance that provides it.\<close>

definition requires_ok :: "(string \<times> 'j Package option) list \<Rightarrow> Require list \<Rightarrow> 'j Instance \<Rightarrow> bool" where
  "requires_ok S reqs i \<longleftrightarrow>
     (\<forall>req \<in> set reqs. \<not> rq_optional req \<longrightarrow>
       (\<exists>target p. umap_find (rq_name req) (id_dependencies (in_decl i)) = Some target \<and> (target, p) \<in> set S \<and>
          provides_interface p (rq_interface req)))"

definition resolved :: "'j json_api \<Rightarrow> (string \<times> 'j Package option) list \<Rightarrow> 'j Instance \<Rightarrow> bool" where
  "resolved J S i \<longleftrightarrow>
     (live i \<longrightarrow> (\<forall>pkg. in_package i = Some pkg \<longrightarrow>
        requires_ok S (mf_requires (pkg_manifest pkg)) i \<and> conforms J (mf_config_schema (pkg_manifest pkg)) (id_config (in_decl i))))"

lemma find_instance_sig: "find_instance insts t = Some dep \<Longrightarrow> in_id dep = t \<and> dep \<in> set insts \<and> (t, in_package dep) \<in> set (sig insts)"
  by (auto simp: find_instance_def sig_def find_Some_iff)

definition resolve_post ::
  "'j Instance list \<Rightarrow> Require list \<Rightarrow> 'j Instance \<Rightarrow> 'j Instance \<Rightarrow> host_error option \<Rightarrow> bool" where
  "resolve_post insts reqs i i' e \<longleftrightarrow>
     static i' = static i \<and> in_handle i' = in_handle i \<and> (in_state i' = in_state i \<or> \<not> live i') \<and>
     (e = None \<longrightarrow> set (in_dep_ids i') \<subseteq> set (in_dep_ids i) \<union> in_id ` set insts) \<and>
     (e = None \<and> live i' \<longrightarrow> requires_ok (sig insts) reqs i)"

lemma resolve_post_done: "resolve_post insts [] i i None"
  by (simp add: resolve_post_def requires_ok_def)

lemma resolve_post_skip: "rq_optional req \<Longrightarrow> resolve_post insts reqs i i' e \<Longrightarrow> resolve_post insts (req # reqs) i i' e"
  by (simp add: resolve_post_def requires_ok_def)

lemma resolve_post_fail: "resolve_fail i m = (i', e) \<Longrightarrow> resolve_post insts reqs i i' e"
  by (drule resolve_fail_step) (auto simp: resolve_post_def)

lemma resolve_post_dep:
  assumes "umap_find (rq_name req) (id_dependencies (in_decl i)) = Some target" "find_instance insts target = Some dep"
    and "provides_interface (in_package dep) (rq_interface req)"
    and post: "resolve_post insts reqs (i\<lparr> in_dep_ids := in_dep_ids i @ [in_id dep] \<rparr>) i' e"
  shows "resolve_post insts (req # reqs) i i' e"
proof -
  have sig: "in_id dep \<in> in_id ` set insts" "(target, in_package dep) \<in> set (sig insts)"
    using find_instance_sig [OF assms(2)] by auto
  have "requires_ok (sig insts) reqs (i\<lparr> in_dep_ids := ds \<rparr>) = requires_ok (sig insts) reqs i" for ds
    by (simp add: requires_ok_def)
  moreover have "requires_ok (sig insts) reqs i \<Longrightarrow> requires_ok (sig insts) (req # reqs) i"
    using assms(1,3) sig(2) by (auto simp: requires_ok_def)
  moreover have "static (i\<lparr> in_dep_ids := ds \<rparr>) = static i" for ds by (simp add: static_def)
  ultimately show ?thesis using post sig(1) by (auto simp: resolve_post_def)
qed

lemma resolve_requires_step: "resolve_requires insts reqs i = (i', e) \<Longrightarrow> resolve_post insts reqs i i' e"
proof (induction insts reqs i rule: resolve_requires.induct)
  case (1 insts i)
  then show ?case by (simp add: resolve_post_done)
next
  case (2 insts req reqs i)
  show ?case
  proof (cases "umap_find (rq_name req) (id_dependencies (in_decl i))")
    case None
    with 2(1,5) show ?thesis by (cases "rq_optional req") (simp_all add: resolve_post_skip resolve_post_fail)
  next
    case t: (Some target)
    show ?thesis
    proof (cases "find_instance insts target")
      case None
      with 2(2,5) t show ?thesis by (cases "rq_optional req") (simp_all add: resolve_post_skip resolve_post_fail)
    next
      case dep: (Some dep)
      show ?thesis
      proof (cases "provides_interface (in_package dep) (rq_interface req)")
        case False
        with 2(3,5) t dep show ?thesis by (cases "rq_optional req") (simp_all add: resolve_post_skip resolve_post_fail)
      next
        case True
        with 2(4,5) t dep show ?thesis by (intro resolve_post_dep [OF t dep]) simp_all
      qed
    qed
  qed
qed

lemma resolve_instance_step:
  assumes "resolve_instance insts i = (i', e)" "in_package i = None \<longrightarrow> \<not> live i" "configured J i"
  shows "static i' = static i \<and> in_handle i' = in_handle i \<and> (in_state i' = in_state i \<or> \<not> live i') \<and>
    (e = None \<longrightarrow> set (in_dep_ids i') \<subseteq> set (in_dep_ids i) \<union> in_id ` set insts) \<and>
    (e = None \<longrightarrow> resolved J (sig insts) i')"
proof (cases "in_package i")
  case None
  with assms show ?thesis by (auto simp: resolve_instance_def resolved_def)
next
  case (Some pkg)
  consider (un) "in_state i = unavailable" "i' = i"
    | (fail) m where "resolve_fail i m = (i', e)"
    | (req) "resolve_requires insts (mf_requires (pkg_manifest pkg)) i = (i', e)"
    using assms(1) Some by (auto simp: resolve_instance_def split: if_splits option.splits)
  then show ?thesis
  proof cases
    case un
    then show ?thesis by (auto simp: live_def resolved_def)
  next
    case fail
    from resolve_fail_step [OF this] show ?thesis by (auto simp: resolved_def)
  next
    case req
    from resolve_requires_step [OF this] Some assms(3) show ?thesis
      by (auto simp: resolve_post_def resolved_def requires_ok_def static_def configured_def live_def)
  qed
qed

lemma load_step:
  assumes "load_instance env i = (i', e)"
  shows "stage_step i i'" "in_handle i' = in_handle i"
proof -
  have fail: "stage_step i i' \<and> in_handle i' = in_handle i"
    if "fail_or_unavailable j m = (i', e)" "static j = static i" "in_handle j = in_handle i" for j m
    using fail_static [OF that(1)] that(2,3) by (auto intro: not_live_step)
  have "stage_step i i' \<and> in_handle i' = in_handle i"
  proof (cases "in_package i = None \<or> in_state i \<noteq> planned")
    case True
    with assms show ?thesis by (auto simp: load_instance_def split: option.splits)
  next
    case False
    then obtain pkg where pkg: "in_package i = Some pkg" "in_state i = planned" by auto
    consider (f) j m where "fail_or_unavailable j m = (i', e)" "static j = static i" "in_handle j = in_handle i"
      | (l) abi where "i' = i\<lparr> in_lib := True, in_abi := Some abi, in_state := loaded \<rparr>"
      using assms pkg unfolding load_instance_def Let_def
      by (fastforce simp: static_def split: option.splits if_splits sum.splits)
    then show ?thesis
    proof cases
      case f
      then show ?thesis by (rule fail)
    next
      case l
      with pkg show ?thesis by (simp add: stage_step_def live_def static_def)
    qed
  qed
  then show "stage_step i i'" "in_handle i' = in_handle i" by auto
qed

lemma create_step:
  assumes "create_instance env s i = (s', i', e)"
  shows "stage_step i i'"
proof -
  have fail: "stage_step i i'" if "create_fail u j m = (s', i', e)" "static j = static i" for u j m
  proof -
    from that(1) have "fail_or_unavailable (release_unstarted_handle j) m = (i', e)" by (simp add: create_fail_def)
    from fail_static [OF this] that(2) show ?thesis
      by (intro not_live_step) (auto simp: release_unstarted_handle_def static_def)
  qed
  have made: "stage_step i i'" if c: "created pkg u i result = (s', i', e)" for pkg u result
  proof -
    obtain rc handle code message where r: "result = (rc, handle, code, message)" by (metis prod_cases4)
    have st: "static (i\<lparr> in_handle := handle \<rparr>) = static i" by (simp add: static_def)
    consider (f) m where "create_fail u (i\<lparr> in_handle := handle \<rparr>) m = (s', i', e)" | (ok) "i' = i\<lparr> in_handle := handle \<rparr>"
    proof (cases "rc \<noteq> 0 \<or> handle = None")
      case True
      with c r show thesis by (auto simp: created_def Let_def intro: f split: if_splits)
    next
      case False
      then obtain h where h: "handle = Some h" "rc = 0" by auto
      show thesis
      proof (cases "handle_fault pkg (in_id i) h")
        case None
        with c r h show thesis by (intro ok) (simp add: created_def Let_def)
      next
        case (Some fault)
        with c r h show thesis by (intro f [of fault]) (simp add: created_def Let_def)
      qed
    qed
    then show ?thesis
    proof cases
      case f
      then show ?thesis using st by (rule fail)
    next
      case ok
      then show ?thesis by (simp add: stage_step_def live_def static_def)
    qed
  qed
  consider (same) "i' = i" | (f) m where "create_fail s i m = (s', i', e)"
    | (new) pkg u result where "created pkg u i result = (s', i', e)"
    using assms by (auto simp: create_instance_def split: if_splits option.splits sum.splits)
  then show ?thesis
  proof cases
    case f
    then show ?thesis using refl by (rule fail)
  next
    case new
    then show ?thesis by (rule made)
  qed simp
qed

subsection \<open>After planning\<close>

definition planned_ok :: "'j Instance \<Rightarrow> bool" where
  "planned_ok i \<longleftrightarrow>
     in_state i \<noteq> started \<and> in_handle i = None \<and> in_dep_ids i = [] \<and> (in_package i = None \<longrightarrow> \<not> live i)"

lemma plan_loop_ok:
  assumes "plan_loop packages seen ds = (insts, None)"
  shows "map in_id insts = map id_id ds \<and> distinct (map id_id ds) \<and> set (map id_id ds) \<inter> set seen = {} \<and>
    (\<forall>i \<in> set insts. planned_ok i)"
  using assms
proof (induction ds arbitrary: seen insts)
  case (Cons d ds)
  obtain rest e where l: "plan_loop packages (id_id d # seen) ds = (rest, e)" by fastforce
  have e: "e = None" "id_id d \<notin> set seen" and
    insts: "\<exists>inst. insts = inst # rest \<and> in_id inst = id_id d \<and> planned_ok inst"
    using Cons.prems l
    by (auto simp: planned_ok_def new_Instance_def live_def Let_def split: if_splits option.splits)
  with Cons.IH [of "id_id d # seen" rest] l show ?case by auto
qed simp

text \<open>The instances planning leaves behind: what the later stages rely on.\<close>

definition ready_to_load :: "'j json_api \<Rightarrow> 'j Instance list \<Rightarrow> bool" where
  "ready_to_load J insts \<longleftrightarrow>
     distinct (map in_id insts) \<and>
     (\<forall>i \<in> set insts. in_state i \<noteq> started \<and> in_handle i = None \<and> set (in_dep_ids i) \<subseteq> in_id ` set insts \<and>
        resolved J (sig insts) i)"

lemma all2_map_eq: "list_all2 (\<lambda>x y. f y = f x) xs ys \<Longrightarrow> map f ys = map f xs"
  by (induction rule: list_all2_induct) auto

lemma all2_right:
  assumes "list_all2 R xs ys" "\<And>x y. x \<in> set xs \<Longrightarrow> R x y \<Longrightarrow> P y"
  shows "\<forall>y \<in> set ys. P y"
proof
  fix y assume "y \<in> set ys"
  then obtain i where i: "i < length ys" "y = ys ! i" by (auto simp: in_set_conv_nth)
  with assms(1) have "xs ! i \<in> set xs" "R (xs ! i) y" by (auto simp: list_all2_conv_all_nth)
  then show "P y" by (rule assms(2))
qed

lemma static_sig:
  assumes "map static ys = map static xs"
  shows "sig ys = sig xs" "map in_id ys = map in_id xs" "in_id ` set ys = in_id ` set xs"
proof -
  have "sig zs = map (\<lambda>(a, b, c). (a, b)) (map static zs)" "map in_id zs = map fst (map static zs)" for zs :: "'a Instance list"
    by (simp_all add: sig_def static_def)
  with assms show "sig ys = sig xs" "map in_id ys = map in_id xs" by metis+
  then show "in_id ` set ys = in_id ` set xs" by (metis list.set_map)
qed

lemma all2_static: "list_all2 stage_step xs ys \<Longrightarrow> map static ys = map static xs"
  by (intro all2_map_eq) (auto elim: list_all2_mono simp: stage_step_def)

lemma configured_ok:
  assumes "for_each (stateless (configure_instance env)) () xs = (s, ys, None)" "\<forall>i \<in> set xs. planned_ok i"
  shows "map in_id ys = map in_id xs" "\<forall>i \<in> set ys. planned_ok i \<and> configured (he_json env) i"
proof -
  have l: "list_all2 (\<lambda>x y. configure_instance env x = (y, None)) xs ys"
    using for_each_done [OF assms(1)] by (auto elim: list_all2_mono)
  then show "map in_id ys = map in_id xs"
    by (intro all2_map_eq) (auto elim!: list_all2_mono dest: configure_step(1))
  have "planned_ok y \<and> configured (he_json env) y" if "planned_ok x" "configure_instance env x = (y, None)" for x y
    using configure_step [OF that(2)] that(1) by (auto simp: planned_ok_def)
  with assms(2) show "\<forall>i \<in> set ys. planned_ok i \<and> configured (he_json env) i" by (intro all2_right [OF l]) blast
qed

lemma resolved_ready:
  assumes "for_each (stateless (resolve_instance xs)) () xs = (s, ys, None)" "\<forall>i \<in> set xs. planned_ok i \<and> configured J i"
    and "distinct (map in_id xs)"
  shows "map static ys = map static xs" "ready_to_load J ys"
proof -
  have l: "list_all2 (\<lambda>x y. resolve_instance xs x = (y, None)) xs ys"
    using for_each_done [OF assms(1)] by (auto elim: list_all2_mono)
  have step: "static y = static x \<and> in_handle y = None \<and> in_state y \<noteq> started \<and>
      set (in_dep_ids y) \<subseteq> in_id ` set xs \<and> resolved J (sig xs) y"
    if "planned_ok x \<and> configured J x" "resolve_instance xs x = (y, None)" for x y
    using resolve_instance_step [OF that(2), of J] that(1) by (auto simp: planned_ok_def live_def)
  have "list_all2 (\<lambda>x y. static y = static x \<and> in_handle y = None \<and> in_state y \<noteq> started \<and>
      set (in_dep_ids y) \<subseteq> in_id ` set xs \<and> resolved J (sig xs) y) xs ys"
    using l by (rule list.rel_mono_strong) (use step assms(2) in blast)
  note all = this
  show st: "map static ys = map static xs" using all by (intro all2_map_eq) (auto elim: list_all2_mono)
  have "\<forall>y \<in> set ys. in_state y \<noteq> started \<and> in_handle y = None \<and> set (in_dep_ids y) \<subseteq> in_id ` set xs \<and> resolved J (sig xs) y"
    using all by (rule all2_right) blast
  then show "ready_to_load J ys" using static_sig [OF st] assms(3) by (auto simp: ready_to_load_def)
qed

lemma instance_nodes_ok: "ready_to_load J insts \<Longrightarrow> nodes_ok (instance_nodes insts)"
proof -
  assume r: "ready_to_load J insts"
  then have d: "distinct (map fst (instance_nodes insts))" by (simp add: ready_to_load_def instance_nodes_def comp_def)
  have "set (deps (instance_nodes insts) k) \<subseteq> ids (instance_nodes insts)" for k
  proof
    fix d assume dm: "d \<in> set (deps (instance_nodes insts) k)"
    from deps_mem [OF dm] obtain i where "i \<in> set insts" "deps (instance_nodes insts) k = in_dep_ids i"
      by (auto simp: instance_nodes_def)
    with dm r show "d \<in> ids (instance_nodes insts)" by (force simp: ready_to_load_def ids_def instance_nodes_def)
  qed
  with d show ?thesis by (simp add: nodes_ok_def)
qed

lemma plan_ready:
  assumes "plan_and_resolve env cfg host0 = (host, None)"
  shows "ready_to_load (he_json env) (h_instances host)"
    and "start_order_of (instance_nodes (h_instances host)) = Some (h_start_order host)"
    and "map in_id (h_instances host) = map id_id (pc_instances cfg)"
    and "h_calls host = h_calls host0" "h_contexts host = h_contexts host0"
proof -
  let ?host = "host0\<lparr> h_bindings := pc_bindings cfg \<rparr>"
  obtain xs e1 where 1: "plan_loop (h_packages host0) [] (pc_instances cfg) = (xs, e1)" by fastforce
  obtain ys e2 where 2: "for_each (stateless (configure_instance env)) () xs = ((), ys, e2)" by (cases "for_each (stateless (configure_instance env)) () xs") auto
  obtain zs e3 where 3: "for_each (stateless (resolve_instance ys)) () ys = ((), zs, e3)" by (cases "for_each (stateless (resolve_instance ys)) () ys") auto
  have e1: "e1 = None" using assms 1 by (cases e1) (simp_all add: plan_and_resolve_def)
  have e2: "e2 = None" using assms 1 2 e1 by (cases e2) (simp_all add: plan_and_resolve_def)
  have e3: "e3 = None" using assms 1 2 3 e1 e2 by (cases e3) (simp_all add: plan_and_resolve_def)
  have e4: "check_bindings zs [] (pc_bindings cfg) = None"
    using assms 1 2 3 e1 e2 e3 by (cases "check_bindings zs [] (pc_bindings cfg)") (simp_all add: plan_and_resolve_def)
  obtain order where 5: "start_order_of (instance_nodes zs) = Some order"
    using assms 1 2 3 e1 e2 e3 e4 by (cases "start_order_of (instance_nodes zs)") (simp_all add: plan_and_resolve_def)
  have 6: "host = ?host\<lparr> h_instances := zs, h_start_order := order \<rparr>"
    using assms 1 2 3 e1 e2 e3 e4 5 by (simp add: plan_and_resolve_def)
  note p = 1 [unfolded e1] 2 [unfolded e2] 3 [unfolded e3] 5 6
  note a = plan_loop_ok [OF p(1)]
  from a have pl: "\<forall>i \<in> set xs. planned_ok i" by blast
  note b = configured_ok [OF p(2) pl]
  have "distinct (map in_id ys)" using a b(1) by simp
  note c = resolved_ready [OF p(3) b(2) this]
  have "map in_id zs = map id_id (pc_instances cfg)" using b(1) static_sig(2) [OF c(1)] a by simp
  with c(2) p(4,5) show "ready_to_load (he_json env) (h_instances host)"
    "start_order_of (instance_nodes (h_instances host)) = Some (h_start_order host)"
    "map in_id (h_instances host) = map id_id (pc_instances cfg)"
    "h_calls host = h_calls host0" "h_contexts host = h_contexts host0" by simp_all
qed

subsection \<open>Instances by id\<close>

lemma find_put:
  assumes "find_instance insts (in_id i') = Some i"
  shows "find_instance (put_instance i' insts) t = (if t = in_id i' then Some i' else find_instance insts t)"
  using assms by (induction insts) (auto simp: find_instance_def split: if_splits)

lemma put_ids [simp]: "map in_id (put_instance i' insts) = map in_id insts"
  by (induction insts) auto

lemma put_static:
  assumes "find_instance insts (in_id i') = Some i" "static i' = static i"
  shows "map static (put_instance i' insts) = map static insts"
  using assms by (induction insts) (auto simp: find_instance_def split: if_splits)

lemma find_mem: "find_instance insts t = Some i \<Longrightarrow> i \<in> set insts \<and> in_id i = t"
  by (auto simp: find_instance_def find_Some_iff)

lemma mem_find: "distinct (map in_id insts) \<Longrightarrow> i \<in> set insts \<Longrightarrow> find_instance insts (in_id i) = Some i"
  by (induction insts) (auto simp: find_instance_def)

lemma find_iff: "distinct (map in_id insts) \<Longrightarrow> find_instance insts t = Some i \<longleftrightarrow> i \<in> set insts \<and> in_id i = t"
  using find_mem mem_find by metis

lemma put_mem:
  assumes "distinct (map in_id insts)" "find_instance insts (in_id i') = Some i" "j \<in> set (put_instance i' insts)"
  shows "j = i' \<or> j \<in> set insts \<and> in_id j \<noteq> in_id i'"
proof -
  have "find_instance (put_instance i' insts) (in_id j) = Some j" using assms(1,3) by (intro mem_find) simp_all
  with find_put [OF assms(2), of "in_id j"] show ?thesis
    by (auto split: if_splits dest: find_mem [OF sym])
qed

lemma sig_package:
  assumes "distinct (map in_id insts)" "(t, p) \<in> set (sig insts)" "find_instance insts t = Some dep"
  shows "p = in_package dep"
proof -
  from assms(2) obtain i where "i \<in> set insts" "t = in_id i" "p = in_package i" by (auto simp: sig_def)
  with mem_find [OF assms(1)] assms(3) show ?thesis by simp
qed

subsection \<open>Starting\<close>

text \<open>A started instance has its handle, and everything its package requires is started.\<close>

definition started_ok :: "'j Instance list \<Rightarrow> 'j Instance \<Rightarrow> bool" where
  "started_ok insts i \<longleftrightarrow>
     in_handle i \<noteq> None \<and>
     (\<forall>pkg req. in_package i = Some pkg \<longrightarrow> req \<in> set (mf_requires (pkg_manifest pkg)) \<longrightarrow> \<not> rq_optional req \<longrightarrow>
       (\<exists>target dep. umap_find (rq_name req) (id_dependencies (in_decl i)) = Some target \<and>
          find_instance insts target = Some dep \<and> in_state dep = started \<and>
          provides_interface (in_package dep) (rq_interface req)))"

definition host_inv :: "'j json_api \<Rightarrow> 'j Instance list \<Rightarrow> bool" where
  "host_inv J insts \<longleftrightarrow>
     distinct (map in_id insts) \<and>
     (\<forall>i \<in> set insts. resolved J (sig insts) i \<and> (in_handle i \<noteq> None \<longrightarrow> live i) \<and>
        (in_state i = started \<longrightarrow> started_ok insts i))"

lemma resolved_static: "resolved J S i \<Longrightarrow> static j = static i \<Longrightarrow> (live j \<longrightarrow> live i) \<Longrightarrow> resolved J S j"
  by (auto simp: resolved_def requires_ok_def static_def)

lemma started_ok_put:
  assumes "started_ok insts j" "find_instance insts (in_id i') = Some i" "in_state i \<noteq> started"
  shows "started_ok (put_instance i' insts) j"
  using assms(1) unfolding started_ok_def
proof (elim conjE, intro conjI allI impI)
  fix pkg req
  assume "in_handle j \<noteq> None" and all: "\<forall>pkg req. in_package j = Some pkg \<longrightarrow>
      req \<in> set (mf_requires (pkg_manifest pkg)) \<longrightarrow> \<not> rq_optional req \<longrightarrow>
      (\<exists>target dep. umap_find (rq_name req) (id_dependencies (in_decl j)) = Some target \<and>
        find_instance insts target = Some dep \<and> in_state dep = started \<and>
        provides_interface (in_package dep) (rq_interface req))"
    and req: "in_package j = Some pkg" "req \<in> set (mf_requires (pkg_manifest pkg))" "\<not> rq_optional req"
  from all req obtain target dep where d: "umap_find (rq_name req) (id_dependencies (in_decl j)) = Some target"
    "find_instance insts target = Some dep" "in_state dep = started" "provides_interface (in_package dep) (rq_interface req)"
    by blast
  with assms(2,3) have "target \<noteq> in_id i'" by auto
  with d find_put [OF assms(2)] show "\<exists>target dep. umap_find (rq_name req) (id_dependencies (in_decl j)) = Some target \<and>
      find_instance (put_instance i' insts) target = Some dep \<and> in_state dep = started \<and>
      provides_interface (in_package dep) (rq_interface req)" by auto
qed

lemma host_inv_put:
  assumes inv: "host_inv J insts" and i: "find_instance insts (in_id i') = Some i" "in_state i \<noteq> started"
    and i': "static i' = static i" "live i' \<longrightarrow> live i" "in_handle i' \<noteq> None \<longrightarrow> live i'"
    and ok: "in_state i' = started \<longrightarrow> started_ok insts i'"
  shows "host_inv J (put_instance i' insts)"
proof -
  have d: "distinct (map in_id insts)" using inv by (simp add: host_inv_def)
  have s: "sig (put_instance i' insts) = sig insts" using static_sig(1) [OF put_static [OF i(1) i'(1)]] .
  have "i \<in> set insts" using find_mem [OF i(1)] by simp
  then have r: "resolved J (sig insts) i'" using inv i'(1,2) resolved_static [of J "sig insts" i i'] by (simp add: host_inv_def)
  show ?thesis unfolding host_inv_def s put_ids
  proof (intro conjI ballI d)
    fix j assume "j \<in> set (put_instance i' insts)"
    with put_mem [OF d i(1)] consider "j = i'" | "j \<in> set insts" by blast
    then show "resolved J (sig insts) j" "in_handle j \<noteq> None \<longrightarrow> live j"
      "in_state j = started \<longrightarrow> started_ok (put_instance i' insts) j"
      using inv r i'(3) ok started_ok_put [OF _ i] by (auto simp: host_inv_def)
  qed
qed

lemma unblocked_started_ok:
  assumes inv: "host_inv J insts" and i: "i \<in> set insts" "in_handle i = Some h" "blocking_require insts i = None"
  shows "started_ok insts (i\<lparr> in_state := started \<rparr>)"
proof -
  have d: "distinct (map in_id insts)" and r: "resolved J (sig insts) i" and l: "live i"
    using inv i by (auto simp: host_inv_def)
  have "\<exists>target dep. umap_find (rq_name req) (id_dependencies (in_decl i)) = Some target \<and>
      find_instance insts target = Some dep \<and> in_state dep = started \<and>
      provides_interface (in_package dep) (rq_interface req)"
    if req: "in_package i = Some pkg" "req \<in> set (mf_requires (pkg_manifest pkg))" "\<not> rq_optional req" for pkg req
  proof -
    from r l req obtain target p where t: "umap_find (rq_name req) (id_dependencies (in_decl i)) = Some target"
      "(target, p) \<in> set (sig insts)" "provides_interface p (rq_interface req)"
      by (auto simp: resolved_def requires_ok_def)
    obtain dep where dep: "find_instance insts target = Some dep" "in_state dep = started"
      using i(3) req t(1)
      by (auto simp: blocking_require_def find_None_iff split: option.splits)
    with t sig_package [OF d t(2) dep(1)] show ?thesis by auto
  qed
  then show ?thesis using i(2) by (simp add: started_ok_def)
qed

lemma start_instance_cases:
  assumes "start_instance host iid = (host', e)"
  obtains (same) "h_instances host' = h_instances host" "e = None"
      "\<And>i. find_instance (h_instances host) iid = Some i \<Longrightarrow> in_state i = unavailable \<or> in_handle i = None"
  | (gone) i i' where "find_instance (h_instances host) iid = Some i" "static i' = static i" "\<not> live i'"
      "in_handle i' = None" "h_instances host' = put_instance i' (h_instances host)"
  | (started) i h where "find_instance (h_instances host) iid = Some i" "in_handle i = Some h"
      "blocking_require (h_instances host) i = None" "e = None"
      "h_instances host' = put_instance (i\<lparr> in_state := started \<rparr>) (h_instances host)"
proof (cases "find_instance (h_instances host) iid")
  case None
  with assms same show thesis by (simp add: start_instance_def)
next
  case i: (Some i)
  show thesis
  proof (cases "in_state i = unavailable \<or> in_handle i = None")
    case True
    with assms i show thesis by (intro same) (auto simp: start_instance_def split: if_splits)
  next
    case False
    then obtain h where h: "in_handle i = Some h" "in_state i \<noteq> unavailable" by auto
    have fail: thesis if "h_instances host' = put_instance (fst (fail_or_unavailable (release_unstarted_handle i) m)) (h_instances host)" for m
    proof -
      obtain i' e' where f: "fail_or_unavailable (release_unstarted_handle i) m = (i', e')" by fastforce
      from fail_static [OF f] have "static i' = static i" "\<not> live i'" "in_handle i' = None"
        by (simp_all add: release_unstarted_handle_def static_def)
      with that f i show thesis by (intro gone [of i i']) simp_all
    qed
    show thesis
    proof (cases "blocking_require (h_instances host) i")
      case (Some req)
      with assms i h show thesis
        by (intro fail) (auto simp: start_instance_def Let_def split_beta)
    next
      case None
      show thesis
      proof (cases "hn_start h")
        case no: None
        with assms i h None show thesis by (intro started [of i h]) (auto simp: start_instance_def)
      next
        case (Some r)
        obtain rc message where r: "r = (rc, message)" by fastforce
        show thesis
        proof (cases "rc = 0")
          case True
          with assms i h None Some r show thesis by (intro started [of i h]) (auto simp: start_instance_def)
        next
          case False
          with assms i h None Some r show thesis
            by (intro fail) (auto simp: start_instance_def Let_def split_beta)
        qed
      qed
    qed
  qed
qed

definition not_yet :: "'j Instance list \<Rightarrow> string list \<Rightarrow> bool" where
  "not_yet insts iids \<longleftrightarrow> (\<forall>iid i. iid \<in> set iids \<longrightarrow> find_instance insts iid = Some i \<longrightarrow> in_state i \<noteq> started)"

lemma start_instance_inv:
  assumes s: "start_instance host iid = (host', None)" and inv: "host_inv J (h_instances host)"
    and ny: "not_yet (h_instances host) (iid # iids)" "iid \<notin> set iids"
  shows "host_inv J (h_instances host') \<and> not_yet (h_instances host') iids \<and>
    map static (h_instances host') = map static (h_instances host)"
proof -
  let ?is = "h_instances host"
  have put: ?thesis if i: "find_instance ?is iid = Some i" and i': "static i' = static i" "live i' \<longrightarrow> live i"
    "in_handle i' \<noteq> None \<longrightarrow> live i'" "in_state i' = started \<longrightarrow> started_ok ?is i'" "h_instances host' = put_instance i' ?is" for i i'
  proof -
    have id: "in_id i' = iid" using i'(1) find_mem [OF i] by (simp add: static_def)
    have ns: "in_state i \<noteq> started" using ny(1) i by (simp add: not_yet_def)
    have fi: "find_instance ?is (in_id i') = Some i" using i id by simp
    have "not_yet (put_instance i' ?is) iids"
      using ny id find_put [OF fi] by (auto simp: not_yet_def)
    with host_inv_put [OF inv fi ns i'(1-4)] put_static [OF fi i'(1)] i'(5) show ?thesis by simp
  qed
  from s show ?thesis
  proof (cases rule: start_instance_cases)
    case same
    then show ?thesis using inv ny by (auto simp: not_yet_def)
  next
    case (gone i i')
    then show ?thesis by (intro put [of i i']) (auto simp: live_def)
  next
    case (started i h)
    have mem: "i \<in> set ?is" using find_mem [OF started(1)] by simp
    have "live i" using inv mem started(2) by (auto simp: host_inv_def)
    with started unblocked_started_ok [OF inv mem started(2,3)] show ?thesis
      by (intro put [of i "i\<lparr> in_state := started \<rparr>"]) (auto simp: live_def static_def)
  qed
qed

lemma start_loop_inv:
  assumes "start_loop iids host = (host', None)" "host_inv J (h_instances host)" "not_yet (h_instances host) iids" "distinct iids"
  shows "host_inv J (h_instances host') \<and> map static (h_instances host') = map static (h_instances host)"
  using assms
proof (induction iids arbitrary: host)
  case (Cons iid iids)
  obtain h1 e where s: "start_instance host iid = (h1, e)" by fastforce
  with Cons.prems(1) have e: "e = None" "start_loop iids h1 = (host', None)" by (auto split: option.splits)
  from start_instance_inv [OF s [unfolded e(1)] Cons.prems(2,3)] Cons.prems(4)
  have "host_inv J (h_instances h1)" "not_yet (h_instances h1) iids" "map static (h_instances h1) = map static (h_instances host)"
    by auto
  with Cons.IH [OF e(2)] Cons.prems(4) show ?case by simp
qed simp

text \<open>
  While the loop runs: the started instances are among those visited, each after the instances it
  requires, and an instance visited that still has its handle is started.
\<close>

definition before :: "string list \<Rightarrow> string \<Rightarrow> string \<Rightarrow> bool" where
  "before order a b \<longleftrightarrow> (\<exists>us vs. order = us @ b # vs \<and> a \<in> set us)"

definition requires_of :: "'j Instance \<Rightarrow> string \<Rightarrow> bool" where
  "requires_of i target \<longleftrightarrow>
     (\<exists>pkg req. in_package i = Some pkg \<and> req \<in> set (mf_requires (pkg_manifest pkg)) \<and> \<not> rq_optional req \<and>
        umap_find (rq_name req) (id_dependencies (in_decl i)) = Some target)"

definition visited_ok :: "string list \<Rightarrow> 'j Instance list \<Rightarrow> bool" where
  "visited_ok visited insts \<longleftrightarrow>
     (\<forall>i \<in> set insts.
        (in_state i = started \<longrightarrow> in_id i \<in> set visited \<and> (\<forall>t. requires_of i t \<longrightarrow> before visited t (in_id i))) \<and>
        (in_id i \<in> set visited \<longrightarrow> in_handle i \<noteq> None \<longrightarrow> in_state i = started))"

lemma before_append: "before order a b \<Longrightarrow> before (order @ later) a b"
  by (force simp: before_def)

lemma before_last: "a \<in> set order \<Longrightarrow> before (order @ [b]) a b"
  by (auto simp: before_def)

lemma started_requires: "started_ok insts i \<Longrightarrow> requires_of i t \<Longrightarrow> \<exists>dep. find_instance insts t = Some dep \<and> in_state dep = started"
  by (fastforce simp: started_ok_def requires_of_def)

lemma visited_ok_put:
  assumes v: "visited_ok visited insts" and d: "distinct (map in_id insts)" and f: "find_instance insts iid = Some i"
    and i': "in_id i' = iid" "in_state i' = started \<longrightarrow> started_ok insts i'" "in_handle i' \<noteq> None \<longrightarrow> in_state i' = started"
  shows "visited_ok (visited @ [iid]) (put_instance i' insts)"
  unfolding visited_ok_def
proof
  fix j assume "j \<in> set (put_instance i' insts)"
  then consider "j = i'" | "j \<in> set insts" "in_id j \<noteq> iid" using put_mem [OF d, of i'] f i'(1) by auto
  then show "(in_state j = started \<longrightarrow> in_id j \<in> set (visited @ [iid]) \<and>
      (\<forall>t. requires_of j t \<longrightarrow> before (visited @ [iid]) t (in_id j))) \<and>
    (in_id j \<in> set (visited @ [iid]) \<longrightarrow> in_handle j \<noteq> None \<longrightarrow> in_state j = started)"
  proof cases
    case 1
    have "before (visited @ [iid]) t iid" if "in_state i' = started" "requires_of i' t" for t
    proof -
      from i'(2) that obtain dep where "find_instance insts t = Some dep" "in_state dep = started"
        using started_requires by blast
      with v have "t \<in> set visited" using find_mem by (fastforce simp: visited_ok_def)
      then show ?thesis by (rule before_last)
    qed
    with 1 i' show ?thesis by simp
  next
    case 2
    with v show ?thesis by (auto simp: visited_ok_def intro: before_append)
  qed
qed

lemma start_instance_visited:
  assumes s: "start_instance host iid = (host', e)" and inv: "host_inv J (h_instances host)"
    and v: "visited_ok visited (h_instances host)"
  shows "visited_ok (visited @ [iid]) (h_instances host')"
proof -
  have d: "distinct (map in_id (h_instances host))" using inv by (simp add: host_inv_def)
  from s show ?thesis
  proof (cases rule: start_instance_cases)
    case same
    have "in_handle i = None" if "i \<in> set (h_instances host)" "in_id i = iid" for i
      using same(3) [of i] that mem_find [OF d that(1)] inv by (auto simp: host_inv_def live_def)
    with v same(1) show ?thesis by (auto simp: visited_ok_def intro: before_append)
  next
    case (gone i i')
    then show ?thesis using find_mem [OF gone(1)] visited_ok_put [OF v d gone(1)]
      by (simp add: live_def static_def)
  next
    case (started i h)
    note mem = find_mem [OF started(1)]
    with started unblocked_started_ok [OF inv _ started(2,3)] visited_ok_put [OF v d started(1)] show ?thesis by simp
  qed
qed

lemma start_loop_visited:
  assumes "start_loop iids host = (host', None)" "host_inv J (h_instances host)" "not_yet (h_instances host) iids" "distinct iids"
    and "visited_ok visited (h_instances host)"
  shows "visited_ok (visited @ iids) (h_instances host')"
  using assms
proof (induction iids arbitrary: host visited)
  case (Cons iid iids)
  obtain h1 e where s: "start_instance host iid = (h1, e)" by fastforce
  with Cons.prems(1) have e: "e = None" "start_loop iids h1 = (host', None)" by (auto split: option.splits)
  from start_instance_inv [OF s [unfolded e(1)] Cons.prems(2,3)] Cons.prems(4)
    start_instance_visited [OF s Cons.prems(2,5)] Cons.IH [OF e(2), of "visited @ [iid]"]
  show ?case by simp
qed simp

subsection \<open>The stages before the start\<close>

definition unstarted :: "'j json_api \<Rightarrow> 'j Instance list \<Rightarrow> bool" where
  "unstarted J insts \<longleftrightarrow> host_inv J insts \<and> (\<forall>i \<in> set insts. in_state i \<noteq> started)"

lemma ready_unstarted: "ready_to_load J insts \<Longrightarrow> unstarted J insts"
  by (auto simp: ready_to_load_def unstarted_def host_inv_def)

lemma unstarted_steps:
  assumes "list_all2 (\<lambda>x y. stage_step x y \<and> (in_handle y \<noteq> None \<longrightarrow> live y)) xs ys" "unstarted J xs"
  shows "unstarted J ys \<and> map static ys = map static xs"
proof -
  have st: "map static ys = map static xs" using assms(1) by (intro all2_static) (auto elim: list_all2_mono)
  note sg = static_sig [OF st]
  have "\<forall>y \<in> set ys. resolved J (sig xs) y \<and> (in_handle y \<noteq> None \<longrightarrow> live y) \<and> in_state y \<noteq> started"
    using assms(1)
  proof (rule all2_right)
    fix x y assume "x \<in> set xs" "stage_step x y \<and> (in_handle y \<noteq> None \<longrightarrow> live y)"
    with assms(2) show "resolved J (sig xs) y \<and> (in_handle y \<noteq> None \<longrightarrow> live y) \<and> in_state y \<noteq> started"
      using resolved_static [of J "sig xs" x y] by (auto simp: unstarted_def host_inv_def stage_step_def)
  qed
  then show ?thesis using assms(2) st sg(1,2) by (auto simp: unstarted_def host_inv_def)
qed

lemma load_all_unstarted:
  assumes "load_all env host = (host', e)" "ready_to_load J (h_instances host)"
  shows "unstarted J (h_instances host') \<and> map static (h_instances host') = map static (h_instances host) \<and>
    h_start_order host' = h_start_order host \<and> h_calls host' = h_calls host \<and>
    (\<forall>i \<in> set (h_instances host'). in_handle i = None)"
proof -
  obtain s insts where f: "for_each (stateless (load_instance env)) () (h_instances host) = (s, insts, e)"
    "host' = host\<lparr> h_instances := insts \<rparr>"
    using assms(1) by (auto simp: load_all_def split: prod.splits)
  have "list_all2 (\<lambda>x y. stage_step x y \<and> in_handle y = in_handle x) (h_instances host) insts"
    using f(1) by (rule for_each_all2) (auto dest: load_step)
  note l = this
  have none: "\<forall>i \<in> set insts. in_handle i = None"
    using l by (rule all2_right) (use assms(2) in \<open>auto simp: ready_to_load_def\<close>)
  then have "list_all2 (\<lambda>x y. stage_step x y \<and> (in_handle y \<noteq> None \<longrightarrow> live y)) (h_instances host) insts"
    using l by (auto intro: list.rel_mono_strong)
  from unstarted_steps [OF this ready_unstarted [OF assms(2)]] f(2) none show ?thesis by simp
qed

lemma create_handle:
  assumes "create_instance env s i = (s', i', e)" "in_handle i = None"
  shows "in_handle i' \<noteq> None \<longrightarrow> live i'"
proof -
  have fail: "in_handle i' = None" if "create_fail u j m = (s', i', e)" for u j m
  proof -
    from that have "fail_or_unavailable (release_unstarted_handle j) m = (i', e)" by (simp add: create_fail_def)
    from fail_static [OF this] show ?thesis by (simp add: release_unstarted_handle_def)
  qed
  show ?thesis
  proof (cases "in_state i = loaded")
    case True
    then have "live j" if "in_state j = in_state i" for j :: "'a Instance" using that by (simp add: live_def)
    with assms True fail show ?thesis
      by (auto simp: create_instance_def created_def Let_def split: option.splits sum.splits prod.splits if_splits)
  next
    case False
    with assms show ?thesis by (auto simp: create_instance_def split: option.splits)
  qed
qed

lemma create_all_unstarted:
  assumes "create_all env host = (host', e)" "unstarted J (h_instances host)" "\<forall>i \<in> set (h_instances host). in_handle i = None"
  shows "unstarted J (h_instances host') \<and> map static (h_instances host') = map static (h_instances host) \<and>
    h_start_order host' = h_start_order host"
proof -
  obtain c k insts where f: "for_each (create_instance env) (h_contexts host, h_calls host) (h_instances host) = ((c, k), insts, e)"
    "host' = host\<lparr> h_instances := insts, h_contexts := c, h_calls := k \<rparr>"
    using assms(1) by (auto simp: create_all_def split: prod.splits)
  have "list_all2 (\<lambda>x y. stage_step x y \<and> (in_handle x = None \<longrightarrow> in_handle y \<noteq> None \<longrightarrow> live y)) (h_instances host) insts"
    using f(1) by (rule for_each_all2) (auto dest: create_step create_handle)
  then have "list_all2 (\<lambda>x y. stage_step x y \<and> (in_handle y \<noteq> None \<longrightarrow> live y)) (h_instances host) insts"
    using assms(3) by (auto intro: list.rel_mono_strong)
  from unstarted_steps [OF this assms(2)] f(2) show ?thesis by simp
qed

lemma stage_done:
  assumes "stage r k = (host', None)"
  obtains host where "r = (host, None)" "k host = (host', None)"
  using assms by (cases r) (auto simp: stage_def split: option.splits host_error.splits)

lemma startup_done:
  assumes "startup env cfg host0 = (host, None)"
  obtains scanned planned_host loaded_host created_host where
    "catalog scanned = []" "plan_and_resolve env cfg scanned = (planned_host, None)"
    "load_all env planned_host = (loaded_host, None)" "create_all env loaded_host = (created_host, None)"
    "start_all created_host = (host, None)" "not_started (h_instances host) = None"
  using assms unfolding startup_def Let_def
  by (elim stage_done) (auto split: if_splits option.splits)

lemma start_order_distinct:
  assumes "ready_to_load J insts" "start_order_of (instance_nodes insts) = Some order"
  shows "distinct order"
  using assms kahn_order_inv(1) [of "instance_nodes insts"] instance_nodes_ok [OF assms(1)]
  by (auto simp: start_order_of_def nodes_ok_def split: if_splits)

lemma startup_host_inv:
  assumes "startup env cfg host0 = (host, None)"
  shows "host_inv (he_json env) (h_instances host)" "map in_id (h_instances host) = map id_id (pc_instances cfg)"
    "\<forall>i \<in> set (h_instances host). id_required (in_decl i) \<longrightarrow> in_state i = started"
    "distinct (h_start_order host)" "set (h_start_order host) = in_id ` set (h_instances host)"
    "visited_ok (h_start_order host) (h_instances host)"
proof -
  from assms obtain sc pl ld cr where st: "plan_and_resolve env cfg sc = (pl, None)" "load_all env pl = (ld, None)"
    "create_all env ld = (cr, None)" "start_all cr = (host, None)" "not_started (h_instances host) = None"
    by (rule startup_done)
  note p = plan_ready [OF st(1)]
  note l = load_all_unstarted [OF st(2) p(1)]
  have c: "unstarted (he_json env) (h_instances cr) \<and> map static (h_instances cr) = map static (h_instances ld) \<and>
      h_start_order cr = h_start_order ld"
    using create_all_unstarted [OF st(3)] l by blast
  have order: "distinct (h_start_order cr)" using start_order_distinct [OF p(1,2)] l c by simp
  have ny: "not_yet (h_instances cr) (h_start_order cr)" using c by (auto simp: not_yet_def unstarted_def dest: find_mem)
  have inv: "host_inv (he_json env) (h_instances cr)" using c by (simp add: unstarted_def)
  note s = start_loop_inv [OF st(4) [unfolded start_all_def] inv ny order]
  have same: "map static (h_instances host) = map static (h_instances pl)" using s c l by simp
  show "host_inv (he_json env) (h_instances host)" using s by simp
  show "map in_id (h_instances host) = map id_id (pc_instances cfg)" using static_sig(2) [OF same] p(3) by simp
  show "\<forall>i \<in> set (h_instances host). id_required (in_decl i) \<longrightarrow> in_state i = started"
    using st(5) by (auto simp: not_started_def find_None_iff)
  have ho: "h_start_order h' = h_start_order h" if "start_loop iids h = (h', e)" for iids h h' and e
    using that
  proof (induction iids arbitrary: h)
    case (Cons iid iids)
    obtain h1 e1 where s1: "start_instance h iid = (h1, e1)" by fastforce
    then have "h_start_order h1 = h_start_order h"
      by (auto simp: start_instance_def Let_def split: option.splits if_splits prod.splits)
    with Cons s1 show ?case by (auto split: option.splits)
  qed simp
  have so: "h_start_order host = h_start_order pl" using ho [OF st(4) [unfolded start_all_def]] c l by simp
  have "visited_ok [] (h_instances cr)" using c by (simp add: visited_ok_def unstarted_def)
  from start_loop_visited [OF st(4) [unfolded start_all_def] inv ny order this] so c l
  show "visited_ok (h_start_order host) (h_instances host)" by simp
  from so have "h_start_order host = h_start_order pl" .
  moreover have "set (h_start_order pl) = in_id ` set (h_instances pl)"
  proof -
    have "distinct (map fst (instance_nodes (h_instances pl)))"
      using instance_nodes_ok [OF p(1)] by (simp add: nodes_ok_def)
    from start_order_of_set [OF this] p(2) show ?thesis
      by (auto simp: start_order_of_def ids_def instance_nodes_def split: if_splits)
  qed
  ultimately show "distinct (h_start_order host)" "set (h_start_order host) = in_id ` set (h_instances host)"
    using start_order_distinct [OF p(1,2)] static_sig(3) [OF same] by simp_all
qed

subsection \<open>Shutdown\<close>

definition stop_calls :: "'j Instance list \<Rightarrow> string \<Rightarrow> host_call list" where
  "stop_calls insts iid =
     (case find_instance insts iid of
        None \<Rightarrow> []
      | Some i \<Rightarrow> if in_handle i \<noteq> None \<and> in_state i = started then shutdown_call i else [])"

definition stop_result :: "'j Instance \<Rightarrow> 'j Instance" where
  "stop_result i = (if in_handle i \<noteq> None \<and> in_state i = started then i\<lparr> in_handle := None, in_state := stopped \<rparr> else i)"

lemma stop_instance_effect:
  "h_calls (stop_instance host iid) = h_calls host @ stop_calls (h_instances host) iid \<and>
   h_start_order (stop_instance host iid) = h_start_order host \<and>
   find_instance (h_instances (stop_instance host iid)) t =
     (if t = iid then map_option stop_result (find_instance (h_instances host) t) else find_instance (h_instances host) t)"
proof (cases "find_instance (h_instances host) iid")
  case None
  then show ?thesis by (simp add: stop_instance_def stop_calls_def)
next
  case (Some i)
  then have "in_id i = iid" using find_mem by auto
  with Some find_put [of "h_instances host" "i\<lparr> in_handle := None, in_state := stopped \<rparr>" i t] show ?thesis
    by (auto simp: stop_instance_def stop_calls_def stop_result_def)
qed

lemma stop_loop_effect:
  assumes "distinct iids"
  shows "h_calls (foldl stop_instance host iids) = h_calls host @ concat (map (stop_calls (h_instances host)) iids) \<and>
   h_start_order (foldl stop_instance host iids) = h_start_order host \<and>
   (\<forall>t. find_instance (h_instances (foldl stop_instance host iids)) t =
     (if t \<in> set iids then map_option stop_result (find_instance (h_instances host) t) else find_instance (h_instances host) t))"
  using assms
proof (induction iids arbitrary: host)
  case (Cons iid iids)
  note e = stop_instance_effect [of host iid]
  have "stop_calls (h_instances (stop_instance host iid)) t = stop_calls (h_instances host) t" if "t \<noteq> iid" for t
    using e [of t] that by (simp add: stop_calls_def)
  moreover have "iid \<notin> set iids" using Cons.prems by simp
  ultimately have "map (stop_calls (h_instances (stop_instance host iid))) iids = map (stop_calls (h_instances host)) iids"
    by (metis map_cong)
  with Cons.IH [of "stop_instance host iid"] Cons.prems e show ?case by auto
qed simp

subsection \<open>A small installation\<close>

text \<open>
  A store package, an application package that requires it, and instances of both; the store instance
  named \<open>a\<close> fails to start.
\<close>

definition sample_manifest :: "string \<Rightarrow> sample list \<Rightarrow> sample" where
  "sample_manifest mid reqs = SObj
     [(''schema_version'', SNum 1), (''id'', SStr mid), (''entry'', SStr ''get''),
      (''library'', SObj [(''linux'', SStr ''p.so'')]),
      (''provides'', SArr [SObj [(''interface'', SStr (mid @ ''.v1''))]]), (''requires'', SArr reqs)]"

definition sample_handle :: "int \<Rightarrow> plugin_handle" where
  "sample_handle rc =
     \<lparr> hn_struct_size = 48, hn_get_interface = Some (\<lambda>_. True), hn_start = Some (rc, None), hn_shutdown = True,
       hn_register_lua = None \<rparr>"

definition sample_abi :: "string \<Rightarrow> plugin_abi" where
  "sample_abi path =
     \<lparr> ab_abi_version = 1, ab_struct_size = 32, ab_package_id = Some (if path = ''plugins/kv/p.so'' then ''kv'' else ''app''),
       ab_create = Some (\<lambda>iid _. (0, Some (sample_handle (if iid = ''a'' then 1 else 0)), None, None)) \<rparr>"

definition sample_env :: "sample host_env" where
  "sample_env =
     \<lparr> he_json = sample_api [(SObj [], [123, 125])], he_fuel = 3,
       he_list_dir = (\<lambda>_. Some [(''plugins/app'', True), (''plugins/kv'', True)]), he_exists = (\<lambda>_. True),
       he_read_file = (\<lambda>path. Some (if path = ''plugins/kv/manifest.yaml'' then ''kv'' else ''app'')),
       he_load_yaml = (\<lambda>text. Inr (if text = ''kv'' then sample_manifest ''kv'' []
         else sample_manifest ''app'' [SObj [(''name'', SStr ''store''), (''interface'', SStr ''kv.v1'')]])),
       he_open = (\<lambda>path. Inr (\<lambda>_. Some (Some (sample_abi path)))) \<rparr>"

definition sample_decl :: "string \<Rightarrow> sample InstanceDecl" where
  "sample_decl iid =
     \<lparr> id_id = iid, id_package = (if iid = ''web'' then ''app'' else ''kv''), id_required = True,
       id_dependencies = (if iid = ''web'' then [(''store'', ''b'')] else []), id_config = SObj [] \<rparr>"

definition sample_config :: "string list \<Rightarrow> sample PluginConfig" where
  "sample_config iids = \<lparr> pc_directory = ''plugins'', pc_instances = map sample_decl iids, pc_bindings = [] \<rparr>"

definition sample_host :: "string list \<Rightarrow> sample PluginHost" where
  "sample_host iids = fst (startup sample_env (sample_config iids) new_PluginHost)"

lemma sample_startup: "startup sample_env (sample_config [''web'', ''b'']) new_PluginHost = (sample_host [''web'', ''b''], None)"
proof -
  have "snd (startup sample_env (sample_config [''web'', ''b'']) new_PluginHost) = None" by code_simp
  then show ?thesis by (simp add: sample_host_def prod_eq_iff)
qed

subsection \<open>Properties\<close>

text \<open>
  C5. When startup returns without an error, the instances are those of the configuration, every
  required one is started, and a started instance has its handle and a configuration that its schema
  accepts, and each dependency its package requires is bound to a started instance that provides the interface and comes earlier in the
  start order.
\<close>

theorem plugin_startup_sound:
  assumes "startup env cfg host0 = (host, None)"
  shows "map in_id (h_instances host) = map id_id (pc_instances cfg) \<and>
    (\<forall>i \<in> set (h_instances host).
       (id_required (in_decl i) \<longrightarrow> in_state i = started) \<and>
       (in_state i = started \<longrightarrow> in_handle i \<noteq> None \<and>
          (\<forall>pkg. in_package i = Some pkg \<longrightarrow>
             conforms (he_json env) (mf_config_schema (pkg_manifest pkg)) (id_config (in_decl i))) \<and>
          (\<forall>pkg req. in_package i = Some pkg \<and> req \<in> set (mf_requires (pkg_manifest pkg)) \<and> \<not> rq_optional req \<longrightarrow>
             (\<exists>target dep. umap_find (rq_name req) (id_dependencies (in_decl i)) = Some target \<and>
                find_instance (h_instances host) target = Some dep \<and> in_state dep = started \<and>
                provides_interface (in_package dep) (rq_interface req) \<and>
                before (h_start_order host) target (in_id i)))))"
proof -
  note inv = startup_host_inv [OF assms]
  have "in_handle i \<noteq> None \<and>
      (\<forall>pkg. in_package i = Some pkg \<longrightarrow>
         conforms (he_json env) (mf_config_schema (pkg_manifest pkg)) (id_config (in_decl i))) \<and>
      (\<forall>pkg req. in_package i = Some pkg \<and> req \<in> set (mf_requires (pkg_manifest pkg)) \<and> \<not> rq_optional req \<longrightarrow>
         (\<exists>target dep. umap_find (rq_name req) (id_dependencies (in_decl i)) = Some target \<and>
            find_instance (h_instances host) target = Some dep \<and> in_state dep = started \<and>
            provides_interface (in_package dep) (rq_interface req) \<and> before (h_start_order host) target (in_id i)))"
    if i: "i \<in> set (h_instances host)" "in_state i = started" for i
  proof -
    have ok: "started_ok (h_instances host) i" using inv(1) i by (simp add: host_inv_def)
    have "resolved (he_json env) (sig (h_instances host)) i" using inv(1) i by (simp add: host_inv_def)
    then have "\<forall>pkg. in_package i = Some pkg \<longrightarrow>
        conforms (he_json env) (mf_config_schema (pkg_manifest pkg)) (id_config (in_decl i))"
      using i(2) by (simp add: resolved_def live_def)
    moreover
    have "before (h_start_order host) t (in_id i)" if "requires_of i t" for t
      using inv(6) i that by (simp add: visited_ok_def)
    with ok have "in_handle i \<noteq> None \<and>
      (\<forall>pkg req. in_package i = Some pkg \<and> req \<in> set (mf_requires (pkg_manifest pkg)) \<and> \<not> rq_optional req \<longrightarrow>
         (\<exists>target dep. umap_find (rq_name req) (id_dependencies (in_decl i)) = Some target \<and>
            find_instance (h_instances host) target = Some dep \<and> in_state dep = started \<and>
            provides_interface (in_package dep) (rq_interface req) \<and> before (h_start_order host) target (in_id i)))"
      unfolding started_ok_def requires_of_def by meson
    ultimately show ?thesis by blast
  qed
  with inv(2,3) show ?thesis by blast
qed

theorem plugin_startup_sound_witness:
  "startup sample_env (sample_config [''web'', ''b'']) new_PluginHost = (sample_host [''web'', ''b''], None) \<and>
   map in_id (h_instances (sample_host [''web'', ''b''])) = [''web'', ''b''] \<and>
   h_start_order (sample_host [''web'', ''b'']) = [''b'', ''web''] \<and>
   h_calls (sample_host [''web'', ''b'']) = [CallCreate ''web'', CallCreate ''b'', CallStart ''b'', CallStart ''web'']"
proof -
  have "map id_id (pc_instances (sample_config [''web'', ''b''])) = [''web'', ''b'']" by code_simp
  moreover have "h_start_order (sample_host [''web'', ''b'']) = [''b'', ''web'']" by code_simp
  moreover have "h_calls (sample_host [''web'', ''b'']) = [CallCreate ''web'', CallCreate ''b'', CallStart ''b'', CallStart ''web'']"
    by code_simp
  ultimately show ?thesis using plugin_startup_sound [OF sample_startup] sample_startup by simp
qed

text \<open>
  C6. A shutdown after a startup that returned without an error asks exactly the started instances that
  have a shutdown function to shut down, once each and in the reverse of the start order, and leaves
  no handle, no started instance and no context behind.
\<close>

theorem plugin_shutdown_complete:
  assumes "startup env cfg host0 = (host, None)"
  shows "h_calls (shutdown host) = h_calls host @ map CallShutdown (filter (\<lambda>iid.
      case find_instance (h_instances host) iid of
        Some i \<Rightarrow> in_state i = started \<and> (case in_handle i of Some h \<Rightarrow> hn_shutdown h | None \<Rightarrow> False)
      | None \<Rightarrow> False) (rev (h_start_order host))) \<and>
    distinct (h_start_order host) \<and> h_contexts (shutdown host) = [] \<and>
    (\<forall>t i. find_instance (h_instances (shutdown host)) t = Some i \<longrightarrow> in_handle i = None \<and> in_state i \<noteq> started)"
proof -
  note inv = startup_host_inv [OF assms]
  have "distinct (rev (h_start_order host))" using inv(4) by simp
  note e = stop_loop_effect [OF this, of host]
  have calls: "stop_calls (h_instances host) iid = map CallShutdown (filter (\<lambda>iid.
      case find_instance (h_instances host) iid of
        Some i \<Rightarrow> in_state i = started \<and> (case in_handle i of Some h \<Rightarrow> hn_shutdown h | None \<Rightarrow> False)
      | None \<Rightarrow> False) [iid])" for iid
    by (auto simp: stop_calls_def shutdown_call_def dest: find_mem split: option.splits)
  have concat: "concat (map (stop_calls (h_instances host)) iids) = map CallShutdown (filter (\<lambda>iid.
      case find_instance (h_instances host) iid of
        Some i \<Rightarrow> in_state i = started \<and> (case in_handle i of Some h \<Rightarrow> hn_shutdown h | None \<Rightarrow> False)
      | None \<Rightarrow> False) iids)" for iids
    by (induction iids) (simp_all add: calls)
  have "in_handle i = None \<and> in_state i \<noteq> started" if f: "find_instance (h_instances (shutdown host)) t = Some i" for t i
  proof -
    from f e obtain j where j: "find_instance (h_instances host) t = Some j"
      "i = (if t \<in> set (h_start_order host) then stop_result j else j)"
      by (auto simp: shutdown_def split: if_splits)
    then have mem: "j \<in> set (h_instances host)" "in_id j = t" using find_mem by auto
    then have t: "t \<in> set (h_start_order host)" using inv(5) by auto
    have "in_handle j \<noteq> None \<longleftrightarrow> in_state j = started"
      using inv(1,6) mem t by (auto simp: visited_ok_def host_inv_def started_ok_def)
    with j(2) t show ?thesis by (auto simp: stop_result_def)
  qed
  with e concat inv(4) show ?thesis by (simp add: shutdown_def)
qed

theorem plugin_shutdown_complete_witness:
  "startup sample_env (sample_config [''web'', ''b'']) new_PluginHost = (sample_host [''web'', ''b''], None) \<and>
   h_contexts (shutdown (sample_host [''web'', ''b''])) = [] \<and>
   h_calls (shutdown (sample_host [''web'', ''b''])) =
     [CallCreate ''web'', CallCreate ''b'', CallStart ''b'', CallStart ''web'', CallShutdown ''web'', CallShutdown ''b'']"
proof -
  have "h_calls (shutdown (sample_host [''web'', ''b''])) =
     [CallCreate ''web'', CallCreate ''b'', CallStart ''b'', CallStart ''web'', CallShutdown ''web'', CallShutdown ''b'']"
    by code_simp
  with plugin_shutdown_complete [OF sample_startup] sample_startup show ?thesis by simp
qed

subsection \<open>A startup that fails\<close>

text \<open>Before it is created an instance has no handle; before it is started it has one only when it is loaded.\<close>

definition fresh :: "'j Instance \<Rightarrow> bool" where
  "fresh i \<longleftrightarrow> in_handle i = None \<and> in_state i \<noteq> started"

definition quiet :: "'j Instance \<Rightarrow> bool" where
  "quiet i \<longleftrightarrow> in_state i \<noteq> started \<and> (in_handle i \<noteq> None \<longrightarrow> in_state i = loaded)"

text \<open>While the instances are started, the started ones are in the start order and have their handles.\<close>

definition on_the_way :: "string list \<Rightarrow> 'j Instance \<Rightarrow> bool" where
  "on_the_way order i \<longleftrightarrow>
     (in_handle i \<noteq> None \<longrightarrow> in_state i = loaded \<or> in_state i = started) \<and>
     (in_state i = started \<longrightarrow> in_id i \<in> set order \<and> in_handle i \<noteq> None)"

definition starting :: "string list \<Rightarrow> 'j Instance list \<Rightarrow> bool" where
  "starting order insts \<longleftrightarrow> distinct order \<and> (\<forall>i \<in> set insts. on_the_way order i)"

lemma fresh_quiet: "fresh i \<Longrightarrow> quiet i"
  by (simp add: fresh_def quiet_def)

lemma quiet_starting: "\<forall>i \<in> set insts. quiet i \<Longrightarrow> distinct order \<Longrightarrow> starting order insts"
  by (auto simp: starting_def on_the_way_def quiet_def)

lemma for_each_keeps:
  assumes "for_each f s xs = (s', ys, e)" "\<forall>x \<in> set xs. P x" "\<And>x. P x \<Longrightarrow> Q x"
    and "\<And>s x s' y e. f s x = (s', y, e) \<Longrightarrow> P x \<Longrightarrow> Q y"
  shows "\<forall>y \<in> set ys. Q y"
proof -
  have "list_all2 (\<lambda>x y. P x \<longrightarrow> Q y) xs ys"
    using assms(1) by (rule for_each_all2) (use assms(3,4) in blast)+
  then show ?thesis by (rule all2_right) (use assms(2) in blast)
qed

lemma plan_loop_fresh: "plan_loop packages seen ds = (insts, e) \<Longrightarrow> \<forall>i \<in> set insts. fresh i"
proof (induction ds arbitrary: seen insts e)
  case (Cons d ds)
  obtain rest e' where l: "plan_loop packages (id_id d # seen) ds = (rest, e')" by fastforce
  have "\<forall>i \<in> set rest. fresh i" using Cons.IH [OF l] .
  moreover have "fresh (new_Instance d p)" "fresh ((new_Instance d p)\<lparr> in_state := unavailable, in_last_error := m \<rparr>)" for p m
    by (simp_all add: fresh_def new_Instance_def)
  ultimately show ?case using Cons.prems l by (auto split: if_splits option.splits)
qed simp

lemma resolve_requires_fresh:
  assumes "resolve_requires insts reqs i = (i', e)" "fresh i"
  shows "fresh i'"
  using resolve_requires_step [OF assms(1)] assms(2) by (auto simp: resolve_post_def fresh_def live_def)

lemma resolve_instance_fresh: "resolve_instance insts i = (i', e) \<Longrightarrow> fresh i \<Longrightarrow> fresh i'"
proof -
  assume r: "resolve_instance insts i = (i', e)" and i: "fresh i"
  have "fresh i'" if "resolve_fail i m = (i', e)" for m
    using resolve_fail_step [OF that] i by (auto simp: fresh_def live_def)
  with r i resolve_requires_fresh show ?thesis by (auto simp: resolve_instance_def split: option.splits if_splits)
qed

lemma plan_fresh:
  assumes "plan_and_resolve env cfg host = (host', e)" "h_start_order host = []"
  shows "\<forall>i \<in> set (h_instances host'). fresh i" "e \<noteq> None \<Longrightarrow> h_start_order host' = []"
proof -
  obtain is1 e1 where p: "plan_loop (h_packages host) [] (pc_instances cfg) = (is1, e1)" by fastforce
  obtain u2 is2 e2 where c: "for_each (stateless (configure_instance env)) () is1 = (u2, is2, e2)" by (metis prod_cases3)
  obtain u3 is3 e3 where r: "for_each (stateless (resolve_instance is2)) () is2 = (u3, is3, e3)" by (metis prod_cases3)
  have f1: "\<forall>i \<in> set is1. fresh i" using plan_loop_fresh [OF p] .
  have f2: "\<forall>i \<in> set is2. fresh i"
    using c f1 by (rule for_each_keeps) (auto simp: fresh_def dest: configure_step(3,6))
  have f3: "\<forall>i \<in> set is3. fresh i"
    using r f2 by (rule for_each_keeps) (auto dest: resolve_instance_fresh)
  show "\<forall>i \<in> set (h_instances host'). fresh i" "e \<noteq> None \<Longrightarrow> h_start_order host' = []"
    using assms p c r f1 f2 f3 by (auto simp: plan_and_resolve_def Let_def split: option.splits)
qed

lemma load_fresh:
  assumes "load_all env host = (host', e)" "\<forall>i \<in> set (h_instances host). fresh i"
  shows "\<forall>i \<in> set (h_instances host'). fresh i" "h_start_order host' = h_start_order host"
proof -
  obtain u insts where f: "for_each (stateless (load_instance env)) () (h_instances host) = (u, insts, e)"
    "host' = host\<lparr> h_instances := insts \<rparr>"
    using assms(1) by (auto simp: load_all_def split: prod.splits)
  have "\<forall>i \<in> set insts. fresh i"
    using f(1) assms(2) by (rule for_each_keeps) (auto simp: fresh_def stage_step_def dest: load_step)
  then show "\<forall>i \<in> set (h_instances host'). fresh i" "h_start_order host' = h_start_order host" using f(2) by simp_all
qed

lemma create_quiet_step:
  assumes "create_instance env s i = (s', i', e)" "fresh i"
  shows "quiet i'"
proof -
  have fail: "quiet i'" if "create_fail u j m = (s', i', e)" for u j m
  proof -
    from that have "fail_or_unavailable (release_unstarted_handle j) m = (i', e)" by (simp add: create_fail_def)
    from fail_static [OF this] show ?thesis by (auto simp: release_unstarted_handle_def quiet_def live_def)
  qed
  have "quiet i" using assms(2) by (rule fresh_quiet)
  with assms fail show ?thesis
    by (auto simp: create_instance_def created_def Let_def quiet_def split: option.splits sum.splits prod.splits if_splits)
qed

lemma create_quiet:
  assumes "create_all env host = (host', e)" "\<forall>i \<in> set (h_instances host). fresh i"
  shows "\<forall>i \<in> set (h_instances host'). quiet i" "h_start_order host' = h_start_order host"
proof -
  obtain c k insts where f: "for_each (create_instance env) (h_contexts host, h_calls host) (h_instances host) = ((c, k), insts, e)"
    "host' = host\<lparr> h_instances := insts, h_contexts := c, h_calls := k \<rparr>"
    using assms(1) by (auto simp: create_all_def split: prod.splits)
  have "\<forall>i \<in> set insts. quiet i"
    using f(1) assms(2) by (rule for_each_keeps) (auto intro: fresh_quiet create_quiet_step)
  then show "\<forall>i \<in> set (h_instances host'). quiet i" "h_start_order host' = h_start_order host" using f(2) by simp_all
qed

lemma starting_put: "starting order insts \<Longrightarrow> on_the_way order i' \<Longrightarrow> starting order (put_instance i' insts)"
proof -
  have "set (put_instance i' insts) \<subseteq> insert i' (set insts)" by (induction insts) auto
  then show "starting order insts \<Longrightarrow> on_the_way order i' \<Longrightarrow> starting order (put_instance i' insts)"
    unfolding starting_def by blast
qed

lemma start_instance_starting:
  assumes "start_instance host iid = (host', e)" "starting order (h_instances host)" "iid \<in> set order"
  shows "starting order (h_instances host') \<and> h_start_order host' = h_start_order host"
proof -
  have "h_start_order host' = h_start_order host"
    using assms(1) by (auto simp: start_instance_def Let_def split: option.splits if_splits prod.splits)
  moreover from assms(1) have "starting order (h_instances host')"
  proof (cases rule: start_instance_cases)
    case same
    then show ?thesis using assms(2) by simp
  next
    case (gone i i')
    then show ?thesis using starting_put [OF assms(2), of i'] by (simp add: on_the_way_def live_def)
  next
    case (started i h)
    have "in_id i = iid" using find_mem [OF started(1)] by simp
    then show ?thesis using assms(3) started starting_put [OF assms(2), of "i\<lparr> in_state := started \<rparr>"]
      by (simp add: on_the_way_def)
  qed
  ultimately show ?thesis by simp
qed

lemma start_loop_starting:
  assumes "start_loop iids host = (host', e)" "starting order (h_instances host)" "set iids \<subseteq> set order"
  shows "starting order (h_instances host') \<and> h_start_order host' = h_start_order host"
  using assms
proof (induction iids arbitrary: host)
  case (Cons iid iids)
  obtain h1 e1 where s: "start_instance host iid = (h1, e1)" by fastforce
  from start_instance_starting [OF s Cons.prems(2)] Cons.prems(3)
  have "starting order (h_instances h1) \<and> h_start_order h1 = h_start_order host" by simp
  with Cons.IH [of h1] Cons.prems s show ?case by (auto split: option.splits)
qed simp

text \<open>A shutdown leaves no instance started, and a further one changes no instance.\<close>

definition all_stopped :: "'j PluginHost \<Rightarrow> bool" where
  "all_stopped host \<longleftrightarrow> distinct (h_start_order host) \<and> h_contexts host = [] \<and>
     (\<forall>t i. find_instance (h_instances host) t = Some i \<longrightarrow> quiet i)"

lemma shutdown_find:
  assumes "distinct (h_start_order host)"
  shows "find_instance (h_instances (shutdown host)) t =
    (if t \<in> set (h_start_order host) then map_option stop_result (find_instance (h_instances host) t)
     else find_instance (h_instances host) t)"
    "h_start_order (shutdown host) = h_start_order host" "h_contexts (shutdown host) = []"
  using stop_loop_effect [of "rev (h_start_order host)" host] assms by (simp_all add: shutdown_def)

lemma shutdown_stops:
  assumes "starting (h_start_order host) (h_instances host)"
  shows "all_stopped (shutdown host)"
proof -
  have d: "distinct (h_start_order host)" using assms by (simp add: starting_def)
  have "quiet i" if f: "find_instance (h_instances (shutdown host)) t = Some i" for t i
  proof -
    obtain j where j: "find_instance (h_instances host) t = Some j"
      and i: "i = (if t \<in> set (h_start_order host) then stop_result j else j)"
      using f shutdown_find(1) [OF d, of t] by (auto split: if_splits)
    have "on_the_way (h_start_order host) j" "in_id j = t" using assms find_mem [OF j] by (auto simp: starting_def)
    then show ?thesis using i by (auto simp: on_the_way_def quiet_def stop_result_def)
  qed
  then show ?thesis using shutdown_find(2,3) [OF d] d by (simp add: all_stopped_def)
qed

lemma stopped_shutdown:
  assumes "all_stopped host"
  shows "find_instance (h_instances (shutdown host)) t = find_instance (h_instances host) t"
proof (cases "find_instance (h_instances host) t")
  case (Some i)
  then have "stop_result i = i" using assms by (auto simp: all_stopped_def quiet_def stop_result_def)
  then show ?thesis using assms shutdown_find(1) [of host t] Some by (simp add: all_stopped_def)
qed (use assms shutdown_find(1) [of host t] in \<open>simp add: all_stopped_def\<close>)

lemma stage_fails:
  assumes "stage r k = (host', Some (ErrorText e))"
  obtains (here) host where "r = (host, Some (ErrorText e))" "host' = shutdown host"
  | (later) host where "r = (host, None)" "k host = (host', Some (ErrorText e))"
  using assms by (cases r) (auto simp: stage_def split: option.splits host_error.splits)

lemma plan_order_distinct:
  assumes "plan_and_resolve env cfg host = (host', None)"
  shows "distinct (h_start_order host')"
  using plan_ready [OF assms] start_order_distinct by blast

lemma start_stage_fails:
  assumes "stage (start_all host) (\<lambda>host.
      stage (host, case not_started (h_instances host) of
               None \<Rightarrow> None
             | Some i \<Rightarrow> Some (ErrorText (''plugin.init.failed: required instance '' @ quoted (in_id i) @
                 '' not started ('' @ state_name (in_state i) @ '')''))) (\<lambda>host. (host, None))) = (host', Some (ErrorText e))"
    and "\<forall>i \<in> set (h_instances host). quiet i" "distinct (h_start_order host)"
  shows "all_stopped host'"
  using assms(1)
proof (cases rule: stage_fails)
  case (here h)
  then show ?thesis
    using start_loop_starting [OF here(1) [unfolded start_all_def] quiet_starting [OF assms(2,3)]]
      shutdown_stops [of h] by simp
next
  case (later h)
  then have "starting (h_start_order h) (h_instances h)"
    using start_loop_starting [OF later(1) [unfolded start_all_def] quiet_starting [OF assms(2,3)]] by simp
  from shutdown_stops [OF this] later(2) show ?thesis
    by (auto simp: stage_def split: option.splits)
qed

lemma failed_startup_stopped:
  assumes "startup env cfg host0 = (host, Some (ErrorText e))"
  shows "all_stopped host"
proof -
  define h0 where "h0 = scan env (pc_directory cfg)
    ((shutdown host0)\<lparr> h_packages := [], h_instances := [], h_bindings := [], h_contexts := [], h_start_order := [] \<rparr>)"
  have h0: "h_instances h0 = []" "h_start_order h0 = []" by (simp_all add: h0_def scan_def split: option.splits)
  note st = assms [unfolded startup_def Let_def, folded h0_def]
  have quiet: "all_stopped (shutdown h)" if "\<forall>i \<in> set (h_instances h). quiet i" "distinct (h_start_order h)" for h :: "'a PluginHost"
    using shutdown_stops [OF quiet_starting [OF that]] .
  from st show ?thesis
  proof (cases rule: stage_fails)
    case (here h)
    then show ?thesis using quiet [of h] h0 by auto
  next
    case (later h1)
    then have h1: "h1 = h0" by simp
    from later(2) show ?thesis
    proof (cases rule: stage_fails)
      case (here h)
      note p = plan_fresh [OF here(1)]
      have "\<forall>i \<in> set (h_instances h). quiet i" "h_start_order h = []" using p h0 h1 fresh_quiet by auto
      then show ?thesis using quiet [of h] here(2) by simp
    next
      case (later h2)
      have f2: "\<forall>i \<in> set (h_instances h2). fresh i" using plan_fresh(1) [OF later(1)] h0 h1 by simp
      have d2: "distinct (h_start_order h2)" using plan_order_distinct [OF later(1)] .
      from later(2) show ?thesis
      proof (cases rule: stage_fails)
        case (here h)
        then show ?thesis using quiet [of h] load_fresh [OF here(1) f2] d2 fresh_quiet by auto
      next
        case (later h3)
        note l = load_fresh [OF later(1) f2]
        from later(2) show ?thesis
        proof (cases rule: stage_fails)
          case (here h)
          then show ?thesis using quiet [of h] create_quiet [OF here(1) l(1)] l(2) d2 by auto
        next
          case (later h4)
          note c = create_quiet [OF later(1) l(1)]
          show ?thesis by (rule start_stage_fails [OF later(2) c(1)]) (simp add: c(2) l(2) d2)
        qed
      qed
    qed
  qed
qed

text \<open>
  C40. A startup that returns an error leaves nothing running: whatever stage failed, no instance is started
  any more and no context is kept.  A handle that is left belongs to an instance that was created and never
  started, and no later shutdown changes such an instance: its handle is not released.
\<close>

theorem failed_startup_stops:
  assumes "startup env cfg host0 = (host, Some (ErrorText e))"
  shows "h_contexts host = [] \<and>
    (\<forall>t i. find_instance (h_instances host) t = Some i \<longrightarrow>
       in_state i \<noteq> started \<and> (in_handle i \<noteq> None \<longrightarrow> in_state i = loaded)) \<and>
    (\<forall>t. find_instance (h_instances (shutdown host)) t = find_instance (h_instances host) t)"
  using failed_startup_stopped [OF assms] stopped_shutdown [of host]
  by (auto simp: all_stopped_def quiet_def)

theorem failed_startup_stops_witness:
  "startup sample_env (sample_config [''a'', ''b'']) new_PluginHost =
     (sample_host [''a'', ''b''], Some (ErrorText ''plugin.init.failed: a'')) \<and>
   (\<exists>i. find_instance (h_instances (sample_host [''a'', ''b''])) ''b'' = Some i \<and> in_handle i \<noteq> None \<and>
      find_instance (h_instances (shutdown (sample_host [''a'', ''b'']))) ''b'' = Some i)"
proof -
  have "snd (startup sample_env (sample_config [''a'', ''b'']) new_PluginHost) = Some (ErrorText ''plugin.init.failed: a'')"
    by code_simp
  then have s: "startup sample_env (sample_config [''a'', ''b'']) new_PluginHost =
     (sample_host [''a'', ''b''], Some (ErrorText ''plugin.init.failed: a''))"
    by (simp add: sample_host_def prod_eq_iff)
  have "map_option (\<lambda>i. in_handle i = None) (find_instance (h_instances (sample_host [''a'', ''b''])) ''b'') = Some False"
    by code_simp
  then obtain i where i: "find_instance (h_instances (sample_host [''a'', ''b''])) ''b'' = Some i" "in_handle i \<noteq> None" by auto
  with failed_startup_stops [OF s] s show ?thesis by auto
qed

end
