(* ===== verification/Cluster.thy ===== *)
theory Cluster
  imports Shield_Prelude
begin

section \<open>The cluster manager\<close>

text \<open>
  \<open>src/src/cluster/cluster_manager.cpp\<close> and its header: the table of peers with the states their
  heartbeats drive, the cache of remote routes, and \<open>shield.cluster.query\<close> of
  \<open>src/src/lua/lua_api.cpp\<close> on top of them.

  The manager is used by several threads, and its operations are cut where one of them may see an
  intermediate state: \<open>start\<close> and \<open>stop\<close> write \<open>running\<close> before they change the peers, \<open>start\<close> changes them
  one by one and without the lock, \<open>stop\<close> and \<open>tick\<close> change all of them under the lock, \<open>tick\<close> reads
  \<open>running\<close> and the clock before it takes the lock, and \<open>shield.cluster.query\<close> takes the lock twice.
  \<open>start\<close> and \<open>stop\<close> are called by one thread, that of the bootstrap, so at most one of them is under way;
  \<open>cs_control\<close> says how far it is, and \<open>cs_ticks\<close> holds the ticks that have read the clock and not yet taken
  the lock.  The other operations are one critical section each.

  The clock and the random epoch are arguments.  Times are integers: the steady clock counts
  milliseconds from the start of the machine, which leaves the differences far from the 64-bit bound.
\<close>

datatype NodeState = Connecting | Online | Suspect | Offline | Removed

record NodeInfo =
  ni_node_id :: string
  ni_address :: string
  ni_state :: NodeState
  ni_last_heartbeat_ms :: int
  ni_connected_at_ms :: int
  ni_epoch :: u64

record ClusterConfig =
  cc_enabled :: bool
  cc_node_id :: string
  cc_listen_address :: string
  cc_peers :: "string list"
  cc_heartbeat_interval_ms :: int
  cc_suspect_timeout_ms :: int
  cc_offline_timeout_ms :: int

type_synonym remote_send_fn = "string \<Rightarrow> string \<Rightarrow> string \<Rightarrow> string \<Rightarrow> bool"

record ClusterManager =
  cm_config :: ClusterConfig
  cm_node_epoch :: u64
  cm_nodes :: "(string, NodeInfo) umap"
  cm_route_cache :: "(string, string) umap"
  cm_remote_send_fn :: "remote_send_fn option"
  cm_running :: bool

definition default_ClusterConfig :: ClusterConfig where
  "default_ClusterConfig =
     \<lparr> cc_enabled = False, cc_node_id = [], cc_listen_address = [], cc_peers = [], cc_heartbeat_interval_ms = 5000,
       cc_suspect_timeout_ms = 15000, cc_offline_timeout_ms = 30000 \<rparr>"

definition route_key :: "string \<Rightarrow> string \<Rightarrow> string" where
  "route_key node_id service_name = node_id @ '':'' @ service_name"

definition add_peer :: "int \<Rightarrow> (string, NodeInfo) umap \<Rightarrow> string \<Rightarrow> (string, NodeInfo) umap" where
  "add_peer now nodes address =
     umap_put address
       \<lparr> ni_node_id = address, ni_address = address, ni_state = Connecting, ni_last_heartbeat_ms = 0,
         ni_connected_at_ms = now, ni_epoch = 0 \<rparr> nodes"

definition new_ClusterManager :: "ClusterConfig \<Rightarrow> u64 \<Rightarrow> int \<Rightarrow> ClusterManager" where
  "new_ClusterManager config epoch now =
     \<lparr> cm_config = config, cm_node_epoch = epoch, cm_nodes = foldl (add_peer now) [] (cc_peers config),
       cm_route_cache = [], cm_remote_send_fn = None, cm_running = False \<rparr>"

definition map_nodes :: "(string \<Rightarrow> NodeInfo \<Rightarrow> NodeInfo) \<Rightarrow> ClusterManager \<Rightarrow> ClusterManager" where
  "map_nodes f m = m\<lparr> cm_nodes := map (\<lambda>(k, n). (k, f k n)) (cm_nodes m) \<rparr>"

text \<open>One round of the loop of \<open>start\<close>, and the critical section of \<open>stop\<close>.\<close>

definition start_node :: "int \<Rightarrow> string \<Rightarrow> ClusterManager \<Rightarrow> ClusterManager" where
  "start_node now key m =
     map_nodes (\<lambda>k n. if k = key then n\<lparr> ni_state := Online, ni_last_heartbeat_ms := now \<rparr> else n) m"

definition stop_nodes :: "ClusterManager \<Rightarrow> ClusterManager" where
  "stop_nodes m = map_nodes (\<lambda>_ n. n\<lparr> ni_state := Removed \<rparr>) m"

definition nodes_of :: "ClusterManager \<Rightarrow> NodeInfo list" where
  "nodes_of m = map snd (cm_nodes m)"

definition find_node :: "ClusterManager \<Rightarrow> string \<Rightarrow> NodeInfo option" where
  "find_node m node_id = umap_find node_id (cm_nodes m)"

definition query_remote :: "ClusterManager \<Rightarrow> string \<Rightarrow> string \<Rightarrow> string" where
  "query_remote m node_id service_name =
     (case umap_find (route_key node_id service_name) (cm_route_cache m) of Some sid \<Rightarrow> sid | None \<Rightarrow> [])"

definition register_route :: "string \<Rightarrow> string \<Rightarrow> string \<Rightarrow> ClusterManager \<Rightarrow> ClusterManager" where
  "register_route node_id service_name service_id m =
     m\<lparr> cm_route_cache := umap_put (route_key node_id service_name) service_id (cm_route_cache m) \<rparr>"

text \<open>\<open>None\<close> is the result false; the position of the first colon decides.\<close>

definition parse_remote_target :: "string \<Rightarrow> (string \<times> string) option" where
  "parse_remote_target target =
     (let node = takeWhile (\<lambda>c. c \<noteq> CHR '':'') target; colon = length node in
      if colon = length target \<or> colon = 0 \<or> colon = length target - 1 then None
      else Some (node, drop (colon + 1) target))"

definition set_remote_send_fn :: "remote_send_fn option \<Rightarrow> ClusterManager \<Rightarrow> ClusterManager" where
  "set_remote_send_fn f m = m\<lparr> cm_remote_send_fn := f \<rparr>"

definition send_remote :: "ClusterManager \<Rightarrow> string \<Rightarrow> string \<Rightarrow> string \<Rightarrow> string \<Rightarrow> bool" where
  "send_remote m target_node service_id meth args_json =
     (case cm_remote_send_fn m of Some f \<Rightarrow> f target_node service_id meth args_json | None \<Rightarrow> False)"

definition check_node_reachable :: "ClusterManager \<Rightarrow> string \<Rightarrow> string" where
  "check_node_reachable m node_id =
     (case umap_find node_id (cm_nodes m) of
        None \<Rightarrow> ''node_not_found''
      | Some n \<Rightarrow>
          (case ni_state n of
             Online \<Rightarrow> []
           | Connecting \<Rightarrow> []
           | Suspect \<Rightarrow> ''node_suspect''
           | Offline \<Rightarrow> ''node_offline''
           | Removed \<Rightarrow> ''node_removed''))"

definition tick_node :: "int \<Rightarrow> ClusterConfig \<Rightarrow> NodeInfo \<Rightarrow> NodeInfo" where
  "tick_node now config n =
     (case ni_state n of
        Online \<Rightarrow>
          if cc_suspect_timeout_ms config < now - ni_last_heartbeat_ms n then n\<lparr> ni_state := Suspect \<rparr> else n
      | Suspect \<Rightarrow>
          if cc_offline_timeout_ms config < now - ni_last_heartbeat_ms n then n\<lparr> ni_state := Offline \<rparr> else n
      | _ \<Rightarrow> n)"

text \<open>
  The critical section of \<open>tick\<close>: the manager after it and the number of changes; each change is to a
  different state.
\<close>

definition tick_nodes :: "int \<Rightarrow> ClusterManager \<Rightarrow> ClusterManager \<times> nat" where
  "tick_nodes now m =
     (map_nodes (\<lambda>_. tick_node now (cm_config m)) m,
      length (filter (\<lambda>n. ni_state (tick_node now (cm_config m) n) \<noteq> ni_state n) (nodes_of m)))"

definition node_state_name :: "NodeState \<Rightarrow> string" where
  "node_state_name s =
     (case s of Connecting \<Rightarrow> ''connecting'' | Online \<Rightarrow> ''online'' | Suspect \<Rightarrow> ''suspect'' | Offline \<Rightarrow> ''offline''
      | Removed \<Rightarrow> ''removed'')"

subsection \<open>The configuration\<close>

definition blank :: "char \<Rightarrow> bool" where
  "blank c \<longleftrightarrow> c = CHR '' '' \<or> c = CHR 0x09"

definition trim_peer :: "string \<Rightarrow> string list" where
  "trim_peer current =
     (if list_all blank current then []
      else [rev (dropWhile blank (rev (dropWhile blank current)))])"

fun split_peers :: "string \<Rightarrow> string \<Rightarrow> string list" where
  "split_peers current [] = trim_peer current"
| "split_peers current (c # cs) =
     (if c = CHR '','' \<or> c = CHR 0x0A then trim_peer current @ split_peers [] cs
      else split_peers (current @ [c]) cs)"

text \<open>What the configuration answers to \<open>has\<close>, \<open>get_string\<close>, \<open>get_int\<close> and \<open>get_string_array\<close>.\<close>

record config_view =
  cv_has :: "string \<Rightarrow> bool"
  cv_get_string :: "string \<Rightarrow> string \<Rightarrow> string"
  cv_get_int :: "string \<Rightarrow> int \<Rightarrow> int"
  cv_get_string_array :: "string \<Rightarrow> string list"

definition parse_cluster_config :: "config_view \<Rightarrow> ClusterConfig" where
  "parse_cluster_config cfg =
     (if \<not> cv_has cfg ''cluster.node_id'' then default_ClusterConfig
      else
        let peers = cv_get_string_array cfg ''cluster.peers'' in
        \<lparr> cc_enabled = True, cc_node_id = cv_get_string cfg ''cluster.node_id'' [],
          cc_listen_address = cv_get_string cfg ''cluster.listen'' ''0.0.0.0:9000'',
          cc_peers = (if peers = [] \<and> cv_has cfg ''cluster.peers''
                      then split_peers [] (cv_get_string cfg ''cluster.peers'' []) else peers),
          cc_heartbeat_interval_ms = to_int32 (cv_get_int cfg ''cluster.heartbeat_interval_ms'' 5000),
          cc_suspect_timeout_ms = to_int32 (cv_get_int cfg ''cluster.suspect_timeout_ms'' 15000),
          cc_offline_timeout_ms = to_int32 (cv_get_int cfg ''cluster.offline_timeout_ms'' 30000) \<rparr>)"

text \<open>
  \<open>shield.cluster.query\<close>: the service id, or an error code and message.  The two managers are its states in
  the two critical sections; other calls may come between them.
\<close>

definition cluster_query :: "(ClusterManager \<times> ClusterManager) option \<Rightarrow> string \<Rightarrow> string \<Rightarrow> (string \<times> string) + string" where
  "cluster_query manager node_id service_name =
     (case manager of
        None \<Rightarrow> Inl (''module_unavailable'', ''shield_cluster is not enabled'')
      | Some (m, m') \<Rightarrow>
          let reachable = check_node_reachable m node_id in
          if reachable \<noteq> [] then Inl (reachable, ''cluster node is not reachable: '' @ node_id)
          else let service_id = query_remote m' node_id service_name in
            if service_id = [] then Inl (''service_not_found'', ''remote service not found: '' @ service_name)
            else Inr service_id)"

subsection \<open>Runs of the manager\<close>

datatype control = Resting | Starting "string list" | Stopping

record cluster_system =
  cs_manager :: ClusterManager
  cs_control :: control
  cs_ticks :: "int list"

datatype cluster_action =
    StartEnter
  | StartNode int
  | StopEnter
  | StopNodes
  | TickEnter int
  | TickNodes nat
  | Register string string string
  | SetSend "remote_send_fn option"

text \<open>\<open>None\<close> means that the action is not enabled.\<close>

fun cluster_act :: "cluster_action \<Rightarrow> cluster_system \<Rightarrow> cluster_system option" where
  "cluster_act StartEnter s =
     (if cs_control s \<noteq> Resting then None
      else if cm_running (cs_manager s) then Some s
      else Some (s\<lparr> cs_manager := (cs_manager s)\<lparr> cm_running := True \<rparr>,
                    cs_control := Starting (map fst (cm_nodes (cs_manager s))) \<rparr>))"
| "cluster_act (StartNode now) s =
     (case cs_control s of
        Starting [] \<Rightarrow> Some (s\<lparr> cs_control := Resting \<rparr>)
      | Starting (k # ks) \<Rightarrow> Some (s\<lparr> cs_manager := start_node now k (cs_manager s), cs_control := Starting ks \<rparr>)
      | _ \<Rightarrow> None)"
| "cluster_act StopEnter s =
     (if cs_control s \<noteq> Resting then None
      else if \<not> cm_running (cs_manager s) then Some s
      else Some (s\<lparr> cs_manager := (cs_manager s)\<lparr> cm_running := False \<rparr>, cs_control := Stopping \<rparr>))"
| "cluster_act StopNodes s =
     (if cs_control s = Stopping
      then Some (s\<lparr> cs_manager := stop_nodes (cs_manager s), cs_control := Resting \<rparr>) else None)"
| "cluster_act (TickEnter now) s =
     Some (if cm_running (cs_manager s) then s\<lparr> cs_ticks := cs_ticks s @ [now] \<rparr> else s)"
| "cluster_act (TickNodes i) s =
     (if i < length (cs_ticks s)
      then Some (s\<lparr> cs_manager := fst (tick_nodes (cs_ticks s ! i) (cs_manager s)),
                    cs_ticks := take i (cs_ticks s) @ drop (Suc i) (cs_ticks s) \<rparr>)
      else None)"
| "cluster_act (Register node service sid) s = Some (s\<lparr> cs_manager := register_route node service sid (cs_manager s) \<rparr>)"
| "cluster_act (SetSend f) s = Some (s\<lparr> cs_manager := set_remote_send_fn f (cs_manager s) \<rparr>)"

definition new_cluster :: "ClusterConfig \<Rightarrow> u64 \<Rightarrow> int \<Rightarrow> cluster_system" where
  "new_cluster config epoch now =
     \<lparr> cs_manager = new_ClusterManager config epoch now, cs_control = Resting, cs_ticks = [] \<rparr>"

fun cluster_run :: "cluster_action list \<Rightarrow> cluster_system \<Rightarrow> cluster_system option" where
  "cluster_run [] s = Some s"
| "cluster_run (a # as) s = (case cluster_act a s of None \<Rightarrow> None | Some s' \<Rightarrow> cluster_run as s')"

text \<open>
  The peers are the configured ones; and the states they can be in while the manager runs, before it runs,
  after it ran, and on the way.
\<close>

definition peers_fixed :: "ClusterConfig \<Rightarrow> ClusterManager \<Rightarrow> bool" where
  "peers_fixed config m \<longleftrightarrow>
     cm_config m = config \<and> umap_wf (cm_nodes m) \<and> fst ` set (cm_nodes m) = set (cc_peers config) \<and>
     (\<forall>(k, n) \<in> set (cm_nodes m). ni_node_id n = k \<and> ni_address n = k)"

abbreviation live_states :: "NodeState set" where
  "live_states \<equiv> {Online, Suspect, Offline}"

definition states_ok :: "cluster_system \<Rightarrow> bool" where
  "states_ok s \<longleftrightarrow>
     (case cs_control s of
        Resting \<Rightarrow>
          if cm_running (cs_manager s) then \<forall>(k, n) \<in> set (cm_nodes (cs_manager s)). ni_state n \<in> live_states
          else \<forall>(k, n) \<in> set (cm_nodes (cs_manager s)). ni_state n \<in> {Connecting, Removed}
      | Starting ks \<Rightarrow>
          cm_running (cs_manager s) \<and>
          (\<forall>(k, n) \<in> set (cm_nodes (cs_manager s)). k \<notin> set ks \<longrightarrow> ni_state n \<in> live_states)
      | Stopping \<Rightarrow> \<not> cm_running (cs_manager s))"

definition cluster_inv :: "ClusterConfig \<Rightarrow> cluster_system \<Rightarrow> bool" where
  "cluster_inv config s \<longleftrightarrow> peers_fixed config (cs_manager s) \<and> states_ok s"

lemma map_nodes_sel [simp]:
  "cm_config (map_nodes f m) = cm_config m" "cm_running (map_nodes f m) = cm_running m"
  "cm_nodes (map_nodes f m) = map (\<lambda>(k, n). (k, f k n)) (cm_nodes m)"
  by (simp_all add: map_nodes_def)

lemma peers_fixed_map:
  assumes "peers_fixed config m" "\<And>k n. ni_node_id (f k n) = ni_node_id n \<and> ni_address (f k n) = ni_address n"
  shows "peers_fixed config (map_nodes f m)"
proof -
  have keys: "map fst (cm_nodes (map_nodes f m)) = map fst (cm_nodes m)" by auto
  have "umap_wf (cm_nodes (map_nodes f m))" "fst ` set (cm_nodes (map_nodes f m)) = set (cc_peers config)"
    using assms(1) keys arg_cong [OF keys, of set] unfolding peers_fixed_def umap_wf_def set_map by metis+
  then show ?thesis using assms by (fastforce simp: peers_fixed_def)
qed

lemma tick_node_keeps [simp]:
  "ni_node_id (tick_node now c n) = ni_node_id n" "ni_address (tick_node now c n) = ni_address n"
  "ni_last_heartbeat_ms (tick_node now c n) = ni_last_heartbeat_ms n"
  by (auto simp: tick_node_def split: NodeState.splits)

lemma tick_node_state:
  "ni_state n \<in> live_states \<Longrightarrow> ni_state (tick_node now c n) \<in> live_states"
  "ni_state n \<in> {Connecting, Removed} \<Longrightarrow> ni_state (tick_node now c n) \<in> {Connecting, Removed}"
  by (auto simp: tick_node_def)

lemma peers_fixed_cong [simp]:
  "peers_fixed config (m\<lparr> cm_route_cache := r \<rparr>) = peers_fixed config m"
  "peers_fixed config (m\<lparr> cm_remote_send_fn := f \<rparr>) = peers_fixed config m"
  "peers_fixed config (m\<lparr> cm_running := b \<rparr>) = peers_fixed config m"
  by (simp_all add: peers_fixed_def)

lemma cluster_act_fixed:
  assumes "peers_fixed config (cs_manager s)" "cluster_act a s = Some s'"
  shows "peers_fixed config (cs_manager s')"
  using assms
  by (cases a) (auto simp: start_node_def stop_nodes_def tick_nodes_def register_route_def set_remote_send_fn_def
      split: if_splits control.splits list.splits intro!: peers_fixed_map)

lemma tick_states:
  assumes "states_ok s"
  shows "states_ok (s\<lparr> cs_manager := map_nodes (\<lambda>_. tick_node now c) (cs_manager s), cs_ticks := ts \<rparr>)"
proof -
  have live: "\<And>n. ni_state n \<in> live_states \<Longrightarrow> ni_state (tick_node now c n) \<in> live_states"
    and rest: "\<And>n. ni_state n \<in> {Connecting, Removed} \<Longrightarrow> ni_state (tick_node now c n) \<in> {Connecting, Removed}"
    by (rule tick_node_state, assumption)+
  show ?thesis
  proof (cases "cs_control s")
    case Resting
    then show ?thesis using assms live rest
      by (cases "cm_running (cs_manager s)") (fastforce simp: states_ok_def)+
  next
    case (Starting ks)
    then show ?thesis using assms live by (fastforce simp: states_ok_def)
  qed (use assms in \<open>simp add: states_ok_def\<close>)
qed

lemma states_ok_irrelevant [simp]:
  "states_ok (s\<lparr> cs_manager := (cs_manager s)\<lparr> cm_route_cache := r \<rparr> \<rparr>) = states_ok s"
  "states_ok (s\<lparr> cs_manager := (cs_manager s)\<lparr> cm_remote_send_fn := f \<rparr> \<rparr>) = states_ok s"
  "states_ok (s\<lparr> cs_ticks := ts \<rparr>) = states_ok s"
  by (simp_all add: states_ok_def cong: control.case_cong)

lemma cluster_act_states:
  assumes "states_ok s" "cluster_act a s = Some s'"
  shows "states_ok s'"
proof (cases a)
  case StartEnter
  then show ?thesis using assms by (force simp: states_ok_def split: if_splits)
next
  case (StartNode now)
  then show ?thesis using assms
    by (fastforce simp: states_ok_def start_node_def split: control.splits list.splits)
next
  case StopEnter
  then show ?thesis using assms by (auto simp: states_ok_def split: if_splits)
next
  case StopNodes
  then show ?thesis using assms by (auto simp: states_ok_def stop_nodes_def split: if_splits)
next
  case (TickEnter now)
  then show ?thesis using assms by (auto split: if_splits)
next
  case (TickNodes i)
  then show ?thesis using assms(2) tick_states [OF assms(1)] by (auto simp: tick_nodes_def split: if_splits)
qed (use assms in \<open>auto simp: register_route_def set_remote_send_fn_def\<close>)

lemma add_peers:
  assumes "umap_wf ns" "\<forall>(k, n) \<in> set ns. ni_node_id n = k \<and> ni_address n = k \<and> ni_state n = Connecting"
  shows "umap_wf (foldl (add_peer now) ns ps) \<and>
    (\<forall>(k, n) \<in> set (foldl (add_peer now) ns ps). ni_node_id n = k \<and> ni_address n = k \<and> ni_state n = Connecting) \<and>
    fst ` set (foldl (add_peer now) ns ps) = fst ` set ns \<union> set ps"
  using assms
proof (induction ps arbitrary: ns)
  case (Cons p ps)
  have mem: "(k, n) \<in> set (add_peer now ns p) \<Longrightarrow> ni_node_id n = k \<and> ni_address n = k \<and> ni_state n = Connecting" for k n
    using Cons.prems by (auto simp: add_peer_def umap_find_iff_mem [symmetric] split: if_splits
        dest!: umap_find_mem)
  have keys: "fst ` set (add_peer now ns p) = insert p (fst ` set ns)"
    by (simp add: add_peer_def umap_put_def dom_update)
  have "umap_wf (add_peer now ns p)" using Cons.prems(1) by (simp add: add_peer_def)
  with Cons.IH [of "add_peer now ns p"] mem keys show ?case by auto
qed simp

lemma new_cluster_inv: "cluster_inv config (new_cluster config epoch now)"
  using add_peers [of "[]" now "cc_peers config"]
  by (auto simp: cluster_inv_def peers_fixed_def states_ok_def new_cluster_def new_ClusterManager_def)

lemma cluster_run_inv: "cluster_run as s = Some s' \<Longrightarrow> cluster_inv config s \<Longrightarrow> cluster_inv config s'"
proof (induction as arbitrary: s)
  case (Cons a as)
  then obtain s1 where s1: "cluster_act a s = Some s1" "cluster_run as s1 = Some s'" by (auto split: option.splits)
  then have "cluster_inv config s1"
    using Cons.prems(2) cluster_act_fixed cluster_act_states by (auto simp: cluster_inv_def)
  with Cons.IH [OF s1(2)] show ?case .
qed simp

lemma find_map_nodes: "find_node (map_nodes f m) k = map_option (f k) (find_node m k)"
proof -
  have "map_of (map (\<lambda>(k, n). (k, f k n)) xs) k = map_option (f k) (map_of xs k)" for xs by (induction xs) auto
  then show ?thesis by (simp add: find_node_def umap_find_def)
qed

text \<open>A running manager that is not stopped keeps the time of the last heartbeat of a peer.\<close>

definition beats :: "ClusterConfig \<Rightarrow> string \<Rightarrow> int \<Rightarrow> cluster_system \<Rightarrow> bool" where
  "beats c k t s \<longleftrightarrow>
     cs_control s = Resting \<and> cm_running (cs_manager s) \<and> cm_config (cs_manager s) = c \<and>
     (\<exists>n. find_node (cs_manager s) k = Some n \<and> ni_state n \<in> live_states \<and> ni_last_heartbeat_ms n = t)"

lemma beats_act:
  assumes "beats c k t s" "a \<noteq> StopEnter" "cluster_act a s = Some s'"
  shows "beats c k t s'"
proof (cases a)
  case (TickNodes i)
  then show ?thesis using assms(1,3) tick_node_state(1)
    by (auto simp: beats_def tick_nodes_def find_map_nodes split: if_splits)
qed (use assms in \<open>auto simp: beats_def register_route_def set_remote_send_fn_def find_node_def split: if_splits\<close>)

lemma beats_run: "cluster_run as s = Some s' \<Longrightarrow> beats c k t s \<Longrightarrow> StopEnter \<notin> set as \<Longrightarrow> beats c k t s'"
proof (induction as arbitrary: s)
  case (Cons a as)
  then obtain s1 where "cluster_act a s = Some s1" "cluster_run as s1 = Some s'" by (auto split: option.splits)
  with Cons.IH [of s1] Cons.prems beats_act [of c k t s a s1] show ?case by auto
qed simp

lemma parse_remote_target_iff:
  "parse_remote_target target = Some (node, service) \<longleftrightarrow>
     target = route_key node service \<and> node \<noteq> [] \<and> service \<noteq> [] \<and> CHR '':'' \<notin> set node"
proof
  assume p: "parse_remote_target target = Some (node, service)"
  let ?n = "takeWhile (\<lambda>c. c \<noteq> CHR '':'') target"
  from p have n: "node = ?n" "service = drop (length ?n + 1) target" "length ?n \<noteq> length target" "?n \<noteq> []"
    "length ?n \<noteq> length target - 1"
    by (auto simp: parse_remote_target_def Let_def split: if_splits)
  then have lt: "length ?n < length target" using length_takeWhile_le [of "\<lambda>c. c \<noteq> CHR '':''" target] by linarith
  then have "target ! length ?n = CHR '':''" using nth_length_takeWhile by blast
  then have "target = take (length ?n) target @ CHR '':'' # drop (length ?n + 1) target"
    using id_take_nth_drop [OF lt] by simp
  then have "target = route_key node service" unfolding n(1,2) route_key_def by (metis append_Cons append_Nil takeWhile_eq_take)
  moreover have "service \<noteq> []" using n(2,5) lt by simp
  moreover have "CHR '':'' \<notin> set node" unfolding n(1) using set_takeWhileD by fastforce
  moreover have "node \<noteq> []" unfolding n(1) by (rule n(4))
  ultimately show "target = route_key node service \<and> node \<noteq> [] \<and> service \<noteq> [] \<and> CHR '':'' \<notin> set node"
    by blast
next
  assume t: "target = route_key node service \<and> node \<noteq> [] \<and> service \<noteq> [] \<and> CHR '':'' \<notin> set node"
  then have "takeWhile (\<lambda>c. c \<noteq> CHR '':'') target = node" by (auto simp: route_key_def takeWhile_append)
  with t show "parse_remote_target target = Some (node, service)"
    by (auto simp: parse_remote_target_def route_key_def)
qed

lemma route_key_inject:
  assumes "CHR '':'' \<notin> set node" "CHR '':'' \<notin> set node'"
  shows "route_key node service = route_key node' service' \<longleftrightarrow> node = node' \<and> service = service'"
proof
  assume eq: "route_key node service = route_key node' service'"
  have "takeWhile (\<lambda>c. c \<noteq> CHR '':'') (route_key n s) = n" if "CHR '':'' \<notin> set n" for n s
    using that by (auto simp: route_key_def takeWhile_append)
  with eq assms have "node = node'" by metis
  with eq show "node = node' \<and> service = service'" by (simp add: route_key_def)
qed simp

subsection \<open>Properties\<close>

definition sample_cluster_config :: ClusterConfig where
  "sample_cluster_config = default_ClusterConfig\<lparr> cc_peers := [''h1:90'', ''h2:90''] \<rparr>"

definition sample_cluster :: cluster_system where
  "sample_cluster = the (cluster_run [StartEnter, StartNode 100, StartNode 100, StartNode 100] (new_cluster sample_cluster_config 7 50))"

lemma sample_cluster_run:
  "cluster_run [StartEnter, StartNode 100, StartNode 100, StartNode 100] (new_cluster sample_cluster_config 7 50) = Some sample_cluster"
proof -
  have "cluster_run [StartEnter, StartNode 100, StartNode 100, StartNode 100] (new_cluster sample_cluster_config 7 50) \<noteq> None"
    by code_simp
  then show ?thesis by (simp add: sample_cluster_def del: cluster_run.simps)
qed

text \<open>
  C22. The life of the peers as the code has it, whatever the interleaving of the thread that starts and stops
  the manager with ticks and registrations: the peers are exactly the configured ones, each once and under
  its own address, which is never replaced by an id; while the manager runs and no start or stop is under way
  each is online, suspect or offline, so that only \<open>stop\<close> removes peers; while it does not run each is
  connecting or removed.  A query answers with what the route cache holds in its second critical section, and only
  for a configured peer that was online or connecting in the first.
\<close>

theorem cluster_node_lifecycle:
  assumes "cluster_run as (new_cluster config epoch now) = Some s" "m = cs_manager s"
  shows "distinct (map fst (cm_nodes m)) \<and> set (map fst (cm_nodes m)) = set (cc_peers config) \<and>
    (\<forall>k n. find_node m k = Some n \<longrightarrow> ni_node_id n = k \<and> ni_address n = k \<and>
       (cs_control s = Resting \<longrightarrow>
          ni_state n \<in> (if cm_running m then {Online, Suspect, Offline} else {Connecting, Removed}))) \<and>
    (\<forall>m' k service sid. cluster_query (Some (m, m')) k service = Inr sid \<longrightarrow>
       k \<in> set (cc_peers config) \<and> sid \<noteq> [] \<and> query_remote m' k service = sid \<and>
       (\<exists>n. find_node m k = Some n \<and> ni_state n \<in> {Online, Connecting}))"
proof -
  have fixed: "peers_fixed config m" and states: "states_ok s"
    using cluster_run_inv [OF assms(1) new_cluster_inv] assms(2) by (simp_all add: cluster_inv_def)
  have mem: "(k, n) \<in> set (cm_nodes m)" if "find_node m k = Some n" for k n
    using umap_find_mem that by (force simp: find_node_def)
  have "ni_node_id n = k \<and> ni_address n = k" if "find_node m k = Some n" for k n
    using fixed mem [OF that] by (auto simp: peers_fixed_def)
  moreover have "ni_state n \<in> (if cm_running m then {Online, Suspect, Offline} else {Connecting, Removed})"
    if "find_node m k = Some n" "cs_control s = Resting" for k n
    using states mem [OF that(1)] that(2) assms(2) by (auto simp: states_ok_def split: if_splits)
  moreover have "k \<in> set (cc_peers config) \<and> sid \<noteq> [] \<and> query_remote m' k service = sid \<and>
      (\<exists>n. find_node m k = Some n \<and> ni_state n \<in> {Online, Connecting})"
    if q: "cluster_query (Some (m, m')) k service = Inr sid" for m' k service sid
  proof -
    from q obtain n where n: "find_node m k = Some n" "ni_state n \<in> {Online, Connecting}" and "sid \<noteq> []" "query_remote m' k service = sid"
      by (auto simp: cluster_query_def check_node_reachable_def find_node_def Let_def
          split: if_splits option.splits NodeState.splits)
    moreover have "k \<in> fst ` set (cm_nodes m)" using mem [OF n(1)] by (auto intro: rev_image_eqI)
    ultimately show ?thesis using fixed by (auto simp: peers_fixed_def)
  qed
  ultimately show ?thesis using fixed by (auto simp: peers_fixed_def umap_wf_def)
qed

theorem cluster_node_lifecycle_witness:
  "set (map fst (cm_nodes (cs_manager sample_cluster))) = {''h1:90'', ''h2:90''} \<and>
   (\<exists>n. find_node (cs_manager sample_cluster) ''h1:90'' = Some n \<and> ni_state n \<in> {Online, Suspect, Offline})"
proof -
  have rest: "cs_control sample_cluster = Resting" "cm_running (cs_manager sample_cluster)" by code_simp+
  have "find_node (cs_manager sample_cluster) ''h1:90'' \<noteq> None" by code_simp
  then obtain n where n: "find_node (cs_manager sample_cluster) ''h1:90'' = Some n" by blast
  from rest n cluster_node_lifecycle [OF sample_cluster_run refl] show ?thesis by (simp add: sample_cluster_config_def)
qed

text \<open>
  Heartbeats are never recorded: whatever calls other than \<open>stop\<close> are made on a running manager, two
  ticks after the timeouts of the time it was started make a peer offline for good.
\<close>

theorem cluster_peers_expire:
  assumes "cs_control s = Resting" "cm_running (cs_manager s)" "find_node (cs_manager s) k = Some n" "ni_state n = Online"
    and "cluster_run as s = Some s'" "StopEnter \<notin> set as"
    and "cc_suspect_timeout_ms (cm_config (cs_manager s)) < now - ni_last_heartbeat_ms n"
    and "cc_offline_timeout_ms (cm_config (cs_manager s)) < now' - ni_last_heartbeat_ms n"
  shows "check_node_reachable (fst (tick_nodes now' (fst (tick_nodes now (cs_manager s'))))) k = ''node_offline''"
proof -
  let ?c = "cm_config (cs_manager s)"
  have "beats ?c k (ni_last_heartbeat_ms n) s" using assms(1-4) by (simp add: beats_def)
  from beats_run [OF assms(5) this assms(6)] obtain n' where n': "find_node (cs_manager s') k = Some n'"
    "ni_last_heartbeat_ms n' = ni_last_heartbeat_ms n" "ni_state n' \<in> live_states" "cm_config (cs_manager s') = ?c"
    by (auto simp: beats_def)
  have "find_node (fst (tick_nodes now' (fst (tick_nodes now (cs_manager s'))))) k = Some (tick_node now' ?c (tick_node now ?c n'))"
    using n' by (simp add: tick_nodes_def find_map_nodes)
  moreover have "ni_state (tick_node now' ?c (tick_node now ?c n')) = Offline"
    using n'(2,3) assms(7,8) by (auto simp: tick_node_def)
  ultimately show ?thesis by (simp add: check_node_reachable_def find_node_def)
qed

text \<open>
  A target is remote exactly when a colon splits it into a non-empty node without a colon and a
  non-empty service.  So with peers given as \<open>host:port\<close> no target names one of them.
\<close>

theorem remote_target_names_no_peer:
  assumes "cluster_run as (new_cluster config epoch now) = Some s" "\<forall>peer \<in> set (cc_peers config). CHR '':'' \<in> set peer"
  shows "(parse_remote_target target = Some (node, service) \<longleftrightarrow>
      target = node @ '':'' @ service \<and> node \<noteq> [] \<and> service \<noteq> [] \<and> CHR '':'' \<notin> set node) \<and>
    (parse_remote_target target = Some (node, service) \<longrightarrow> check_node_reachable (cs_manager s) node = ''node_not_found'')"
proof -
  have fixed: "peers_fixed config (cs_manager s)"
    using cluster_run_inv [OF assms(1) new_cluster_inv] by (simp add: cluster_inv_def)
  have "umap_find node (cm_nodes (cs_manager s)) = None" if "CHR '':'' \<notin> set node"
  proof (rule ccontr)
    assume "umap_find node (cm_nodes (cs_manager s)) \<noteq> None"
    then have "node \<in> fst ` set (cm_nodes (cs_manager s))" by (auto dest!: umap_find_mem intro: rev_image_eqI)
    with fixed assms(2) that show False by (auto simp: peers_fixed_def)
  qed
  then show ?thesis by (auto simp: parse_remote_target_iff check_node_reachable_def route_key_def)
qed

text \<open>An offline peer keeps its entries in the route cache, and no tick removes it.\<close>

lemma offline_keeps_routes:
  "cm_route_cache (fst (tick_nodes now m)) = cm_route_cache m"
  "ni_state n = Offline \<Longrightarrow> tick_node now c n = n"
  by (simp_all add: tick_nodes_def map_nodes_def tick_node_def)

end
