(* ===== verification/Matchmaking.thy ===== *)
theory Matchmaking
  imports Shield_Prelude "HOL-Library.Multiset"
begin

section \<open>The matchmaking queue\<close>

text \<open>
  \<open>src/plugins/matchmaking_elo/shield_matchmaking_elo.cpp\<close>: the queue of players and the greedy
  matching by rating.  Every call holds the lock of the instance, so it is one step on the record of
  the members; the calls with a null connection return -1 before they touch it and are left out.

  Ratings are floating point numbers.  Their type is any linear order, and \<open>close tol x y\<close> stands for
  \<open>abs(x - y) <= tol\<close> in floating point; \<open>std_sort\<close> stands for \<open>std::sort\<close> by rating, whose order of
  equal ratings is not specified.  The result is a value, without its allocation.
\<close>

record 'r PlayerEntry =
  pe_player_id :: string
  pe_rating :: 'r
  pe_party_id :: string
  pe_region :: string

record 'r MatchConfig =
  mc_max_players_per_match :: int
  mc_match_timeout_seconds :: int
  mc_rating_tolerance :: 'r

record 'r matchmaking_instance =
  mm_cfg :: "'r MatchConfig"
  mm_queue :: "(string, 'r PlayerEntry) umap"
  mm_next_match_id :: u64

record 'r matchmaking_player =
  mp_player_id :: "string option"
  mp_rating :: 'r
  mp_party_id :: "string option"
  mp_region :: "string option"

definition new_matchmaking_instance :: "'r MatchConfig \<Rightarrow> 'r matchmaking_instance" where
  "new_matchmaking_instance cfg = \<lparr> mm_cfg = cfg, mm_queue = [], mm_next_match_id = 1 \<rparr>"

definition text_or_empty :: "string option \<Rightarrow> string" where
  "text_or_empty s = (case s of Some t \<Rightarrow> t | None \<Rightarrow> [])"

definition enqueue :: "'r matchmaking_player option \<Rightarrow> 'r matchmaking_instance \<Rightarrow> int \<times> 'r matchmaking_instance" where
  "enqueue player inst =
     (case player of
        None \<Rightarrow> (-1, inst)
      | Some p \<Rightarrow>
          (case mp_player_id p of
             None \<Rightarrow> (-1, inst)
           | Some pid \<Rightarrow>
               (0, inst\<lparr> mm_queue := umap_put pid
                    \<lparr> pe_player_id = pid, pe_rating = mp_rating p, pe_party_id = text_or_empty (mp_party_id p),
                      pe_region = text_or_empty (mp_region p) \<rparr> (mm_queue inst) \<rparr>)))"

definition dequeue :: "string option \<Rightarrow> 'r matchmaking_instance \<Rightarrow> int \<times> 'r matchmaking_instance" where
  "dequeue player_id inst =
     (case player_id of
        None \<Rightarrow> (-1, inst)
      | Some pid \<Rightarrow>
          (if umap_contains pid (mm_queue inst) then 0 else -1, inst\<lparr> mm_queue := umap_erase pid (mm_queue inst) \<rparr>))"

definition is_queued :: "string option \<Rightarrow> 'r matchmaking_instance \<Rightarrow> int" where
  "is_queued player_id inst =
     (case player_id of None \<Rightarrow> 0 | Some pid \<Rightarrow> if umap_contains pid (mm_queue inst) then 1 else 0)"

text \<open>The inner loop: players are added while the group is below the maximum and they are close to its first.\<close>

fun take_group ::
  "('r PlayerEntry \<Rightarrow> bool) \<Rightarrow> int \<Rightarrow> 'r PlayerEntry list \<Rightarrow> 'r PlayerEntry list \<Rightarrow> 'r PlayerEntry list \<times> 'r PlayerEntry list" where
  "take_group near max_players members [] = (members, [])"
| "take_group near max_players members (p # ps) =
     (if int (length members) < max_players \<and> near p then take_group near max_players (members @ [p]) ps
      else (members, p # ps))"

lemma take_group_rest: "take_group near k members ps = (g, rest) \<Longrightarrow> length rest \<le> length ps"
  by (induction near k members ps rule: take_group.induct) (auto split: if_splits)

function match_groups ::
  "('r PlayerEntry \<Rightarrow> 'r PlayerEntry \<Rightarrow> bool) \<Rightarrow> int \<Rightarrow> 'r PlayerEntry list \<Rightarrow> 'r PlayerEntry list list" where
  "match_groups near max_players [] = []"
| "match_groups near max_players (p # ps) =
     (case take_group (\<lambda>q. near q p) max_players [p] ps of
        (members, rest) \<Rightarrow>
          if int (length members) = max_players then members # match_groups near max_players rest
          else match_groups near max_players ps)"
  by pat_completeness auto
termination
  by (relation "measure (\<lambda>(near, k, ps). length ps)") (auto dest!: take_group_rest [OF sym])

definition match_id :: "u64 \<Rightarrow> string" where
  "match_id n = ''match_'' @ to_string_nat (unat n)"

text \<open>The loop over the matches: numbers them and takes their players off the queue.\<close>

fun emit_matches ::
  "'r PlayerEntry list list \<Rightarrow> 'r matchmaking_instance \<Rightarrow> (string \<times> 'r PlayerEntry list) list \<times> 'r matchmaking_instance" where
  "emit_matches [] inst = ([], inst)"
| "emit_matches (g # gs) inst =
     (case emit_matches gs
        (inst\<lparr> mm_next_match_id := mm_next_match_id inst + 1,
              mm_queue := foldl (\<lambda>q p. umap_erase (pe_player_id p) q) (mm_queue inst) g \<rparr>) of
        (ms, inst') \<Rightarrow> ((match_id (mm_next_match_id inst), g) # ms, inst'))"

definition try_match ::
  "('r PlayerEntry list \<Rightarrow> 'r PlayerEntry list) \<Rightarrow> ('r \<Rightarrow> 'r \<Rightarrow> 'r \<Rightarrow> bool) \<Rightarrow> 'r matchmaking_instance \<Rightarrow>
     (string \<times> 'r PlayerEntry list) list \<times> 'r matchmaking_instance" where
  "try_match std_sort close inst =
     emit_matches
       (match_groups (\<lambda>q p. close (mc_rating_tolerance (mm_cfg inst)) (pe_rating q) (pe_rating p))
          (mc_max_players_per_match (mm_cfg inst)) (std_sort (map snd (mm_queue inst)))) inst"

definition update_rating :: "string option \<Rightarrow> 'r \<Rightarrow> 'r matchmaking_instance \<Rightarrow> int \<times> 'r matchmaking_instance" where
  "update_rating player_id new_rating inst =
     (case player_id of
        None \<Rightarrow> (-1, inst)
      | Some pid \<Rightarrow>
          (case umap_find pid (mm_queue inst) of
             None \<Rightarrow> (-1, inst)
           | Some e \<Rightarrow> (0, inst\<lparr> mm_queue := umap_put pid (e\<lparr> pe_rating := new_rating \<rparr>) (mm_queue inst) \<rparr>)))"

text \<open>The return code and what is written to \<open>out_rating\<close>, if anything.\<close>

definition get_rating :: "string option \<Rightarrow> 'r::zero matchmaking_instance \<Rightarrow> int \<times> 'r option" where
  "get_rating player_id inst =
     (case player_id of
        None \<Rightarrow> (-1, None)
      | Some pid \<Rightarrow>
          (case umap_find pid (mm_queue inst) of None \<Rightarrow> (-1, Some 0) | Some e \<Rightarrow> (0, Some (pe_rating e))))"

definition queue_size :: "'r matchmaking_instance \<Rightarrow> int" where
  "queue_size inst = sint (word_of_nat (umap_size (mm_queue inst)) :: 32 word)"

subsection \<open>The queue\<close>

text \<open>Every entry is stored under its own player id, once.\<close>

definition queue_ok :: "(string, 'r PlayerEntry) umap \<Rightarrow> bool" where
  "queue_ok q \<longleftrightarrow> umap_wf q \<and> (\<forall>(k, e) \<in> set q. pe_player_id e = k)"

lemma queue_ok_iff: "queue_ok q \<longleftrightarrow> umap_wf q \<and> (\<forall>k e. umap_find k q = Some e \<longrightarrow> pe_player_id e = k)"
  by (cases "umap_wf q") (auto simp: queue_ok_def umap_find_iff_mem)

lemma queue_ok_put: "queue_ok q \<Longrightarrow> pe_player_id e = k \<Longrightarrow> queue_ok (umap_put k e q)"
  by (simp add: queue_ok_iff)

lemma queue_ok_erase: "queue_ok q \<Longrightarrow> queue_ok (umap_erase k q)"
  by (simp add: queue_ok_iff)

lemma operations_keep_queue:
  assumes "queue_ok (mm_queue inst)"
  shows "queue_ok (mm_queue (snd (enqueue p inst)))" "queue_ok (mm_queue (snd (dequeue pid inst)))"
    "queue_ok (mm_queue (snd (update_rating pid r inst)))"
  using assms
  by (auto simp: enqueue_def dequeue_def update_rating_def queue_ok_iff split: option.splits)

lemma queue_values:
  assumes "queue_ok q"
  shows "distinct (map pe_player_id (map snd q))" "umap_find k q = Some e \<longleftrightarrow> e \<in> snd ` set q \<and> pe_player_id e = k"
proof -
  have m: "map pe_player_id (map snd q) = map fst q" using assms by (auto simp: queue_ok_def)
  show "distinct (map pe_player_id (map snd q))" unfolding m using assms by (simp add: queue_ok_def umap_wf_def)
  show "umap_find k q = Some e \<longleftrightarrow> e \<in> snd ` set q \<and> pe_player_id e = k"
    using assms by (auto simp: queue_ok_def umap_find_iff_mem rev_image_eqI)
qed

lemma erase_all_find:
  "umap_find k (foldl (\<lambda>q p. umap_erase (pe_player_id p) q) q g) = (if k \<in> pe_player_id ` set g then None else umap_find k q)"
  by (induction g arbitrary: q) auto

lemma erase_all_ok: "queue_ok q \<Longrightarrow> queue_ok (foldl (\<lambda>q p. umap_erase (pe_player_id p) q) q g)"
  by (induction g arbitrary: q) (auto intro: queue_ok_erase)

lemma emit_matches_effect:
  assumes "emit_matches gs inst = (ms, inst')" "queue_ok (mm_queue inst)"
  shows "map snd ms = gs \<and> map fst ms = map (\<lambda>k. match_id (mm_next_match_id inst + of_nat k)) [0..<length gs] \<and>
    mm_cfg inst' = mm_cfg inst \<and> mm_next_match_id inst' = mm_next_match_id inst + of_nat (length gs) \<and>
    queue_ok (mm_queue inst') \<and>
    (\<forall>k. umap_find k (mm_queue inst') = (if k \<in> pe_player_id ` set (concat gs) then None else umap_find k (mm_queue inst)))"
  using assms
proof (induction gs arbitrary: inst ms)
  case (Cons g gs)
  let ?inst = "inst\<lparr> mm_next_match_id := mm_next_match_id inst + 1,
      mm_queue := foldl (\<lambda>q p. umap_erase (pe_player_id p) q) (mm_queue inst) g \<rparr>"
  obtain ms' where e: "emit_matches gs ?inst = (ms', inst')" "ms = (match_id (mm_next_match_id inst), g) # ms'"
    using Cons.prems(1) by (auto split: prod.splits)
  have ids: "map (\<lambda>k. match_id (mm_next_match_id inst + of_nat k)) [0..<length (g # gs)] =
      match_id (mm_next_match_id inst) # map (\<lambda>k. match_id (mm_next_match_id inst + 1 + of_nat k)) [0..<length gs]"
    by (simp add: upt_conv_Cons map_Suc_upt [symmetric] add.assoc del: upt_Suc)
  show ?case using Cons.IH [OF e(1)] e(2) ids Cons.prems(2) by (auto simp: erase_all_ok erase_all_find add.assoc)
qed simp

subsection \<open>Greedy matching\<close>

lemma take_group_eq:
  "take_group near k members ps =
     (let t = take (nat (k - int (length members))) (takeWhile near ps) in (members @ t, drop (length t) ps))"
proof (induction near k members ps rule: take_group.induct)
  case (2 near k members p ps)
  show ?case
  proof (cases "int (length members) < k \<and> near p")
    case True
    then have "nat (k - int (length members)) = Suc (nat (k - int (length (members @ [p]))))" by auto
    with True 2 show ?thesis by (simp add: Let_def)
  qed (use 2 in \<open>auto simp: Let_def\<close>)
qed simp

text \<open>The players no group takes, in the order of the loop.\<close>

function unmatched ::
  "('r PlayerEntry \<Rightarrow> 'r PlayerEntry \<Rightarrow> bool) \<Rightarrow> int \<Rightarrow> 'r PlayerEntry list \<Rightarrow> 'r PlayerEntry list" where
  "unmatched near max_players [] = []"
| "unmatched near max_players (p # ps) =
     (case take_group (\<lambda>q. near q p) max_players [p] ps of
        (members, rest) \<Rightarrow>
          if int (length members) = max_players then unmatched near max_players rest
          else p # unmatched near max_players ps)"
  by pat_completeness auto
termination
  by (relation "measure (\<lambda>(near, k, ps). length ps)") (auto dest!: take_group_rest [OF sym])

lemma take_group_split: "take_group near k members ps = (g, rest) \<Longrightarrow> members @ ps = g @ rest"
  by (induction near k members ps rule: take_group.induct) (auto split: if_splits)

lemma groups_partition: "mset ps = mset (concat (match_groups near k ps)) + mset (unmatched near k ps)"
proof (induction near k ps rule: match_groups.induct)
  case (2 near k p ps)
  obtain g rest where t: "take_group (\<lambda>q. near q p) k [p] ps = (g, rest)" by fastforce
  have m: "mset (p # ps) = mset g + mset rest" using take_group_split [OF t] by (metis append_Cons append_Nil mset_append)
  show ?case using 2(1) [OF t [symmetric]] 2(2) [OF t [symmetric]] t m
    by (cases "int (length g) = k") (simp_all add: union_assoc)
qed simp

lemma match_groups_shape:
  assumes "g \<in> set (match_groups near k ps)"
  shows "int (length g) = k \<and> (\<exists>p qs. g = p # qs \<and> (\<forall>q \<in> set qs. near q p))"
  using assms
proof (induction near k ps rule: match_groups.induct)
  case (2 near k p ps)
  obtain h rest where t: "take_group (\<lambda>q. near q p) k [p] ps = (h, rest)" by fastforce
  then have "h = p # take (nat (k - 1)) (takeWhile (\<lambda>q. near q p) ps)" by (simp add: take_group_eq Let_def)
  moreover have "\<forall>q \<in> set (take (nat (k - 1)) (takeWhile (\<lambda>q. near q p) ps)). near q p"
    by (meson in_set_takeD set_takeWhileD)
  ultimately have "\<exists>qs. h = p # qs \<and> (\<forall>q \<in> set qs. near q p)" by blast
  with 2(1) [OF t [symmetric]] 2(2) [OF t [symmetric]] 2(3) t show ?case by (auto split: if_splits)
qed simp

lemma match_groups_subseq: "g \<in> set (match_groups near k ps) \<Longrightarrow> \<exists>us vs. ps = us @ g @ vs"
proof (induction near k ps rule: match_groups.induct)
  case (2 near k p ps)
  obtain h rest where t: "take_group (\<lambda>q. near q p) k [p] ps = (h, rest)" by fastforce
  have s: "p # ps = h @ rest" using take_group_split [OF t] by simp
  show ?case
  proof (cases "int (length h) = k")
    case True
    with 2(3) t consider "g = h" | "g \<in> set (match_groups near k rest)" by auto
    then show ?thesis
    proof cases
      case 1
      with s show ?thesis by (metis append_Nil)
    next
      case 2
      from "2.IH"(1) [OF t [symmetric] True 2] s show ?thesis by (metis append.assoc)
    qed
  next
    case False
    with 2(3) t have "g \<in> set (match_groups near k ps)" by simp
    from "2.IH"(2) [OF t [symmetric] False this] show ?thesis by (metis append_Cons)
  qed
qed simp

lemma unmatched_mem: "set (unmatched near k ps) \<subseteq> set ps"
  using groups_partition [of ps near k] by (metis mset_subset_eq_add_right set_mset_mono set_mset_mset)

lemma sorted_unmatched: "sorted (map pe_rating ps) \<Longrightarrow> sorted (map pe_rating (unmatched near k ps))"
proof (induction near k ps rule: unmatched.induct)
  case (2 near k p ps)
  obtain h rest where t: "take_group (\<lambda>q. near q p) k [p] ps = (h, rest)" by fastforce
  have s: "p # ps = h @ rest" using take_group_split [OF t] by simp
  have "sorted (map pe_rating rest)" using 2(3) s by (metis map_append sorted_append)
  with 2 t unmatched_mem [of near k ps] show ?case by (auto simp: subset_iff)
qed simp

text \<open>The players left, in order, are at least those of the list, position by position.\<close>

lemma unmatched_length: "length (unmatched near k ps) \<le> length ps"
  using groups_partition [of ps near k] by (metis le_add2 size_mset size_union)

lemma unmatched_le:
  assumes "sorted (map pe_rating ps)" "j < length (unmatched near k ps)"
  shows "pe_rating (ps ! j) \<le> pe_rating (unmatched near k ps ! j)"
  using assms
proof (induction near k ps arbitrary: j rule: unmatched.induct)
  case (2 near k p ps)
  obtain h rest where t: "take_group (\<lambda>q. near q p) k [p] ps = (h, rest)" by fastforce
  have s: "p # ps = h @ rest" using take_group_split [OF t] by simp
  show ?case
  proof (cases "int (length h) = k")
    case True
    then have u: "unmatched near k (p # ps) = unmatched near k rest" using t by simp
    have "sorted (map pe_rating rest)" using 2(3) s by (metis map_append sorted_append)
    from "2.IH"(1) [OF t [symmetric] True this, of j] 2(4) u
    have "pe_rating (rest ! j) \<le> pe_rating (unmatched near k (p # ps) ! j)" by simp
    moreover have len: "length h + j < length (h @ rest)" using 2(4) u unmatched_length [of near k rest] by simp
    moreover have "pe_rating ((h @ rest) ! j) \<le> pe_rating ((h @ rest) ! (length h + j))"
      using sorted_nth_mono [OF 2(3) [unfolded s], of j "length h + j"] len by (simp del: map_append nth_append)
    ultimately show ?thesis unfolding s by simp
  next
    case False
    then have u: "unmatched near k (p # ps) = p # unmatched near k ps" using t by simp
    with "2.IH"(2) [OF t [symmetric] False] 2(3,4) show ?thesis by (cases j) auto
  qed
qed simp

text \<open>
  What the matching relies on: the sort orders by rating and loses nobody, and a rating between two
  that are close is close to the lower one.
\<close>

definition rating_laws :: "('r::linorder PlayerEntry list \<Rightarrow> 'r PlayerEntry list) \<Rightarrow> ('r \<Rightarrow> 'r \<Rightarrow> 'r \<Rightarrow> bool) \<Rightarrow> bool" where
  "rating_laws std_sort close \<longleftrightarrow>
     (\<forall>ps. mset (std_sort ps) = mset ps \<and> sorted (map pe_rating (std_sort ps))) \<and>
     (\<forall>tol low x y. low \<le> x \<longrightarrow> x \<le> y \<longrightarrow> close tol y low \<longrightarrow> close tol x low)"

definition near_mono :: "('r::linorder PlayerEntry \<Rightarrow> 'r PlayerEntry \<Rightarrow> bool) \<Rightarrow> bool" where
  "near_mono near \<longleftrightarrow>
     (\<forall>p q r. pe_rating p \<le> pe_rating q \<longrightarrow> pe_rating q \<le> pe_rating r \<longrightarrow> near r p \<longrightarrow> near q p)"

lemma group_length:
  assumes "take_group P k [p] ps = (g, rest)" "1 \<le> k"
  shows "int (length g) = k \<longleftrightarrow> nat (k - 1) \<le> length (takeWhile P ps)"
proof -
  have "length g = Suc (min (length (takeWhile P ps)) (nat (k - 1)))"
    using assms(1) by (auto simp: take_group_eq Let_def min.commute)
  then show ?thesis using assms(2) by (auto simp: min_def)
qed

lemma takeWhile_reaches:
  assumes "n \<le> length xs" "\<And>j. j < n \<Longrightarrow> P (xs ! j)"
  shows "n \<le> length (takeWhile P xs)"
proof (rule ccontr)
  assume n: "\<not> n \<le> length (takeWhile P xs)"
  then have "length (takeWhile P xs) < length xs" using assms(1) by linarith
  then have "\<not> P (xs ! length (takeWhile P xs))" by (rule nth_length_takeWhile)
  with n assms(2) show False by simp
qed

lemma skipped_far:
  assumes t: "take_group (\<lambda>q. near q p) k [p] ps = (g, rest)" "1 \<le> k" "int (length g) \<noteq> k"
    and s: "sorted (map pe_rating (p # ps))" and mono: "near_mono near" and j: "nat (k - 1) \<le> Suc j" "j < length ps"
  shows "\<not> near (ps ! j) p"
proof
  assume near: "near (ps ! j) p"
  have "near (ps ! i) p" if "i < nat (k - 1)" for i
  proof -
    have "i \<le> j" using that j(1) by simp
    then have "pe_rating (ps ! i) \<le> pe_rating (ps ! j)" using s j(2) by (auto simp: sorted_iff_nth_mono)
    moreover have "pe_rating p \<le> pe_rating (ps ! i)" using s j(2) \<open>i \<le> j\<close> by simp
    ultimately show ?thesis using mono near by (auto simp: near_mono_def)
  qed
  then have "nat (k - 1) \<le> length (takeWhile (\<lambda>q. near q p) ps)" using j by (intro takeWhile_reaches) simp_all
  with group_length [OF t(1,2)] t(3) show False by simp
qed

lemma unmatched_far:
  assumes "sorted (map pe_rating ps)" "near_mono near" "1 \<le> k" "i + nat (k - 1) < length (unmatched near k ps)"
  shows "\<not> near (unmatched near k ps ! (i + nat (k - 1))) (unmatched near k ps ! i)"
  using assms
proof (induction near k ps arbitrary: i rule: unmatched.induct)
  case (2 near k p ps)
  obtain g rest where t: "take_group (\<lambda>q. near q p) k [p] ps = (g, rest)" by fastforce
  show ?case
  proof (cases "int (length g) = k")
    case True
    have "sorted (map pe_rating rest)" using 2(3) take_group_split [OF t] by (metis append_Cons append_Nil map_append sorted_append)
    with "2.IH"(1) [OF t [symmetric] True] 2(4-6) t True show ?thesis by simp
  next
    case False
    then have u: "unmatched near k (p # ps) = p # unmatched near k ps" using t by simp
    have sp: "sorted (map pe_rating ps)" using 2(3) by simp
    have m: "0 < nat (k - 1)" using group_length [OF t 2(5)] False by (cases "nat (k - 1)") auto
    show ?thesis
    proof (cases i)
      case 0
      obtain j where j: "nat (k - 1) = Suc j" using m by (cases "nat (k - 1)") auto
      have lt: "j < length (unmatched near k ps)" using 2(6) u j 0 by simp
      then have jl: "j < length ps" using unmatched_length [of near k ps] by simp
      have far: "\<not> near (ps ! j) p" using skipped_far [OF t 2(5) False 2(3,4)] j jl by simp
      have "pe_rating p \<le> pe_rating (ps ! j)" using 2(3) jl by simp
      with far unmatched_le [OF sp lt] 2(4) have "\<not> near (unmatched near k ps ! j) p" unfolding near_mono_def by blast
      then show ?thesis using u j 0 by simp
    next
      case (Suc i')
      with "2.IH"(2) [OF t [symmetric] False sp 2(4,5), of i'] 2(6) u show ?thesis by simp
    qed
  qed
qed simp

lemma match_groups_none:
  assumes "2 \<le> k" "\<And>i. i + nat (k - 1) < length qs \<Longrightarrow> \<not> near (qs ! (i + nat (k - 1))) (qs ! i)"
  shows "match_groups near k qs = []"
  using assms(2)
proof (induction qs)
  case (Cons p ps)
  obtain g rest where t: "take_group (\<lambda>q. near q p) k [p] ps = (g, rest)" by fastforce
  obtain j where j: "nat (k - 1) = Suc j" using assms(1) by (cases "nat (k - 1)") auto
  have "int (length g) \<noteq> k"
  proof
    assume "int (length g) = k"
    then have le: "Suc j \<le> length (takeWhile (\<lambda>q. near q p) ps)" using group_length [OF t] assms(1) j by simp
    then have "near (takeWhile (\<lambda>q. near q p) ps ! j) p" using set_takeWhileD nth_mem by (metis Suc_le_lessD)
    then have "near (ps ! j) p" using le by (simp add: takeWhile_nth)
    moreover have "j < length ps" using le length_takeWhile_le [of "\<lambda>q. near q p" ps] by linarith
    ultimately show False using Cons.prems [of 0] j by simp
  qed
  moreover have "match_groups near k ps = []" using Cons.prems by (intro Cons.IH) (metis Suc_less_eq add_Suc length_Cons nth_Cons_Suc)
  ultimately show ?case using t by simp
qed simp

lemma few_players:
  "k \<le> 0 \<Longrightarrow> match_groups near k ps = []" "unmatched near 1 ps = []"
proof -
  show "match_groups near k ps = []" if "k \<le> 0"
    using that by (induction near k ps rule: match_groups.induct) (auto simp: take_group_eq Let_def)
  show "unmatched near 1 ps = []"
    by (induction near "1::int" ps rule: unmatched.induct) (auto simp: take_group_eq Let_def)
qed

lemma no_more_groups:
  assumes s: "sorted (map pe_rating ps)" and mono: "near_mono near"
    and near: "\<And>p q p' q'. pe_rating p = pe_rating p' \<Longrightarrow> pe_rating q = pe_rating q' \<Longrightarrow> near p q = near p' q'"
    and qs: "mset qs = mset (unmatched near k ps)" "sorted (map pe_rating qs)"
  shows "match_groups near k qs = []"
proof -
  have r: "map pe_rating qs = map pe_rating (unmatched near k ps)"
    using properties_for_sort [of "map pe_rating qs" "map pe_rating qs"]
      properties_for_sort [of "map pe_rating (unmatched near k ps)" "map pe_rating qs"] qs sorted_unmatched [OF s]
    by (simp add: mset_map)
  consider "k \<le> 0" | "k = 1" | "2 \<le> k" by linarith
  then show ?thesis
  proof cases
    case 2
    with r show ?thesis by (simp add: few_players(2))
  next
    case 3
    have nth: "pe_rating (qs ! i) = pe_rating (unmatched near k ps ! i)" if "i < length qs" for i
      using r that by (metis length_map nth_map)
    have len: "length qs = length (unmatched near k ps)" using r by (metis length_map)
    show ?thesis
    proof (rule match_groups_none [OF 3])
      fix i assume i: "i + nat (k - 1) < length qs"
      then have "\<not> near (unmatched near k ps ! (i + nat (k - 1))) (unmatched near k ps ! i)"
        using unmatched_far [OF s mono] 3 len by simp
      with near [OF nth nth, of "i + nat (k - 1)" i] i show "\<not> near (qs ! (i + nat (k - 1))) (qs ! i)" by simp
    qed
  qed (simp add: few_players)
qed

subsection \<open>Properties\<close>

definition sample_entry :: "string \<Rightarrow> int \<Rightarrow> int PlayerEntry" where
  "sample_entry pid r = \<lparr> pe_player_id = pid, pe_rating = r, pe_party_id = [], pe_region = [] \<rparr>"

definition sample_lobby :: "int matchmaking_instance" where
  "sample_lobby =
     \<lparr> mm_cfg = \<lparr> mc_max_players_per_match = 2, mc_match_timeout_seconds = 30, mc_rating_tolerance = 200 \<rparr>,
       mm_queue = [(''a'', sample_entry ''a'' 1500), (''b'', sample_entry ''b'' 1000), (''c'', sample_entry ''c'' 1650)],
       mm_next_match_id = 1 \<rparr>"

lemma sample_rating_laws: "rating_laws (sort_key pe_rating) (\<lambda>tol x y. \<bar>x - y\<bar> \<le> (tol::int))"
  by (auto simp: rating_laws_def)

lemma sample_queue_ok: "queue_ok (mm_queue sample_lobby)"
  by (simp add: queue_ok_def umap_wf_def sample_lobby_def sample_entry_def)

text \<open>
  C16. A match has exactly the configured number of players, all of them queued, none in two matches,
  and each close to the lowest rating of the match; the matches get consecutive ids, the matched
  players leave the queue and the others keep their entry.
\<close>

theorem try_match_sound:
  assumes "rating_laws std_sort close" "queue_ok (mm_queue inst)" "try_match std_sort close inst = (matches, inst')"
  shows "(\<forall>(mid, ps) \<in> set matches. int (length ps) = mc_max_players_per_match (mm_cfg inst) \<and>
      (\<forall>p \<in> set ps. umap_find (pe_player_id p) (mm_queue inst) = Some p \<and> pe_rating (hd ps) \<le> pe_rating p \<and>
         (p = hd ps \<or> close (mc_rating_tolerance (mm_cfg inst)) (pe_rating p) (pe_rating (hd ps))))) \<and>
    distinct (map pe_player_id (concat (map snd matches))) \<and>
    map fst matches = map (\<lambda>k. match_id (mm_next_match_id inst + of_nat k)) [0..<length matches] \<and>
    queue_ok (mm_queue inst') \<and>
    (\<forall>pid. umap_find pid (mm_queue inst') =
       (if pid \<in> pe_player_id ` set (concat (map snd matches)) then None else umap_find pid (mm_queue inst)))"
proof -
  let ?near = "\<lambda>q p. close (mc_rating_tolerance (mm_cfg inst)) (pe_rating q) (pe_rating p)"
  let ?k = "mc_max_players_per_match (mm_cfg inst)"
  let ?sorted = "std_sort (map snd (mm_queue inst))"
  have ms: "mset ?sorted = mset (map snd (mm_queue inst))" and so: "sorted (map pe_rating ?sorted)"
    using assms(1) by (simp_all add: rating_laws_def)
  note e = emit_matches_effect [OF assms(3) [unfolded try_match_def] assms(2)]
  have groups: "map snd matches = match_groups ?near ?k ?sorted" using e by blast
  have len: "length (match_groups ?near ?k ?sorted) = length matches" using arg_cong [OF groups, of length] by simp
  have shape: "int (length ps) = ?k \<and> (\<forall>p \<in> set ps. umap_find (pe_player_id p) (mm_queue inst) = Some p \<and>
      pe_rating (hd ps) \<le> pe_rating p \<and> (p = hd ps \<or> ?near p (hd ps)))"
    if "(mid, ps) \<in> set matches" for mid ps
  proof -
    have "ps \<in> set (map snd matches)" using that by force
    then have g: "ps \<in> set (match_groups ?near ?k ?sorted)" unfolding groups .
    from match_groups_subseq [OF g] obtain us vs where s: "?sorted = us @ ps @ vs" by blast
    then have sp: "sorted (map pe_rating ps)" using so by (simp add: sorted_append)
    have "umap_find (pe_player_id p) (mm_queue inst) = Some p \<and> pe_rating (hd ps) \<le> pe_rating p" if p: "p \<in> set ps" for p
    proof -
      have "p \<in> set ?sorted" unfolding s using p by simp
      then have "p \<in> set (map snd (mm_queue inst))" using mset_eq_setD [OF ms] by simp
      then have "umap_find (pe_player_id p) (mm_queue inst) = Some p"
        using queue_values(2) [OF assms(2), of "pe_player_id p" p] by simp
      with sp p show ?thesis by (cases ps) auto
    qed
    moreover obtain p0 qs where "ps = p0 # qs" "\<forall>q \<in> set qs. ?near q p0" "int (length ps) = ?k"
      using match_groups_shape [OF g] by blast
    ultimately show ?thesis by auto
  qed
  have dist: "distinct (map pe_player_id (concat (map snd matches)))"
  proof -
    have "mset (map snd (mm_queue inst)) = mset (concat (match_groups ?near ?k ?sorted) @ unmatched ?near ?k ?sorted)"
      using groups_partition [of ?sorted ?near ?k] ms by simp
    then have "mset (map pe_player_id (map snd (mm_queue inst))) =
        mset (map pe_player_id (concat (match_groups ?near ?k ?sorted) @ unmatched ?near ?k ?sorted))"
      by (simp only: mset_map)
    from mset_eq_imp_distinct_iff [OF this] queue_values(1) [OF assms(2)]
    show ?thesis unfolding groups by simp
  qed
  show ?thesis
  proof (intro conjI)
    show "\<forall>(mid, ps) \<in> set matches. int (length ps) = ?k \<and>
      (\<forall>p \<in> set ps. umap_find (pe_player_id p) (mm_queue inst) = Some p \<and> pe_rating (hd ps) \<le> pe_rating p \<and>
         (p = hd ps \<or> ?near p (hd ps)))"
      using shape by blast
    show "map fst matches = map (\<lambda>k. match_id (mm_next_match_id inst + of_nat k)) [0..<length matches]"
      using e unfolding len by blast
    show "queue_ok (mm_queue inst')" using e by blast
    show "\<forall>pid. umap_find pid (mm_queue inst') =
       (if pid \<in> pe_player_id ` set (concat (map snd matches)) then None else umap_find pid (mm_queue inst))"
      unfolding groups using e by blast
  qed (rule dist)
qed

theorem try_match_sound_witness:
  "fst (try_match (sort_key pe_rating) (\<lambda>tol x y. \<bar>x - y\<bar> \<le> tol) sample_lobby) =
     [(''match_1'', [sample_entry ''a'' 1500, sample_entry ''c'' 1650])] \<and>
   umap_find ''a'' (mm_queue (snd (try_match (sort_key pe_rating) (\<lambda>tol x y. \<bar>x - y\<bar> \<le> tol) sample_lobby))) = None"
proof -
  let ?r = "try_match (sort_key pe_rating) (\<lambda>tol x y. \<bar>x - y\<bar> \<le> tol) sample_lobby"
  have m: "fst ?r = [(''match_1'', [sample_entry ''a'' 1500, sample_entry ''c'' 1650])]" by code_simp
  have "umap_find ''a'' (mm_queue (snd ?r)) =
      (if ''a'' \<in> pe_player_id ` set (concat (map snd (fst ?r))) then None else umap_find ''a'' (mm_queue sample_lobby))"
    using try_match_sound [OF sample_rating_laws sample_queue_ok, of "fst ?r" "snd ?r"] by simp
  with m show ?thesis by (simp add: sample_entry_def)
qed

text \<open>
  C17. Matching is exhaustive: right after a call to \<open>try_match\<close> another one finds no match.
\<close>

theorem try_match_exhaustive:
  assumes "rating_laws std_sort close" "queue_ok (mm_queue inst)"
  shows "fst (try_match std_sort close (snd (try_match std_sort close inst))) = []"
proof -
  let ?near = "\<lambda>q p. close (mc_rating_tolerance (mm_cfg inst)) (pe_rating q) (pe_rating p)"
  let ?k = "mc_max_players_per_match (mm_cfg inst)"
  let ?sorted = "std_sort (map snd (mm_queue inst))" and ?inst = "snd (try_match std_sort close inst)"
  let ?groups = "match_groups ?near ?k ?sorted" and ?left = "unmatched ?near ?k ?sorted"
  have sort: "mset (std_sort ps) = mset ps" "sorted (map pe_rating (std_sort ps))" for ps
    using assms(1) by (simp_all add: rating_laws_def)
  have mono: "near_mono ?near" using assms(1) unfolding rating_laws_def near_mono_def by blast
  obtain ms where "emit_matches ?groups inst = (ms, ?inst)" by (metis prod.collapse try_match_def)
  note e = emit_matches_effect [OF this assms(2)]
  have part: "mset (map snd (mm_queue inst)) = mset (concat ?groups @ ?left)"
    using groups_partition [of ?sorted ?near ?k] sort(1) [of "map snd (mm_queue inst)"] by simp
  have ids: "distinct (map pe_player_id (concat ?groups @ ?left))"
  proof -
    have "mset (map pe_player_id (map snd (mm_queue inst))) = mset (map pe_player_id (concat ?groups @ ?left))"
      using part by (simp only: mset_map)
    from mset_eq_imp_distinct_iff [OF this] queue_values(1) [OF assms(2)] show ?thesis by simp
  qed
  have old: "set (map snd (mm_queue inst)) = set (concat ?groups) \<union> set ?left"
    using mset_eq_setD [OF part] by simp
  have ok: "queue_ok (mm_queue ?inst)" using e by blast
  have left: "mset (map snd (mm_queue ?inst)) = mset ?left"
  proof (rule set_eq_iff_mset_eq_distinct [THEN iffD1])
    show "distinct (map snd (mm_queue ?inst))" using queue_values(1) [OF ok] by (subst (asm) distinct_map) simp
    show "distinct ?left" using ids by (simp add: distinct_map)
    have "x \<in> snd ` set (mm_queue ?inst) \<longleftrightarrow> x \<in> set ?left" for x
    proof -
      have "x \<in> snd ` set (mm_queue ?inst) \<longleftrightarrow> umap_find (pe_player_id x) (mm_queue ?inst) = Some x"
        using queue_values(2) [OF ok, of "pe_player_id x" x] by simp
      also have "\<dots> \<longleftrightarrow> pe_player_id x \<notin> pe_player_id ` set (concat ?groups) \<and> x \<in> set (map snd (mm_queue inst))"
        using e queue_values(2) [OF assms(2), of "pe_player_id x" x] by auto
      also have "\<dots> \<longleftrightarrow> x \<in> set ?left" unfolding old using ids by auto
      finally show ?thesis .
    qed
    then show "set (map snd (mm_queue ?inst)) = set ?left" by auto
  qed
  have "match_groups ?near ?k (std_sort (map snd (mm_queue ?inst))) = []"
    by (rule no_more_groups [OF sort(2) [of "map snd (mm_queue inst)"] mono]) (simp_all add: sort left del: mset_map)
  moreover have "mm_cfg ?inst = mm_cfg inst" using e by blast
  ultimately show ?thesis unfolding try_match_def [of _ _ ?inst] by simp
qed

theorem try_match_exhaustive_witness:
  "fst (try_match (sort_key pe_rating) (\<lambda>tol x y. \<bar>x - y\<bar> \<le> tol)
     (snd (try_match (sort_key pe_rating) (\<lambda>tol x y. \<bar>x - y\<bar> \<le> tol) sample_lobby))) = []"
  using try_match_exhaustive [OF sample_rating_laws sample_queue_ok] .

end
