(* ===== verification/Byte_Buffer.thy ===== *)
theory Byte_Buffer
  imports Byte_Order
begin

section \<open>The byte buffer\<close>

text \<open>
  \<open>src/include/shield/base/byte_buffer.hpp\<close>.  The integers are copied with \<open>memcpy\<close>, so their byte
  order is that of the machine, the argument \<open>endian\<close>.  The read position is a 64-bit \<open>size_t\<close>, and
  \<open>read_pos_ + sizeof(T)\<close> wraps.  A read past the end of the data is no value of the model:
  \<open>None\<close> is undefined behaviour.  The write position is never read and left out.
\<close>

record ByteBuffer =
  bb_data :: bytes
  bb_read_pos :: u64

definition new_ByteBuffer :: "bytes \<Rightarrow> ByteBuffer" where
  "new_ByteBuffer data = \<lparr> bb_data = data, bb_read_pos = 0 \<rparr>"

definition with_capacity :: "nat \<Rightarrow> ByteBuffer" where
  "with_capacity capacity = new_ByteBuffer (replicate capacity 0)"

definition clear_buffer :: "ByteBuffer \<Rightarrow> ByteBuffer" where
  "clear_buffer b = b\<lparr> bb_data := [] \<rparr>"

definition resize_buffer :: "nat \<Rightarrow> ByteBuffer \<Rightarrow> ByteBuffer" where
  "resize_buffer n b = b\<lparr> bb_data := take n (bb_data b) @ replicate (n - length (bb_data b)) 0 \<rparr>"

definition write_bytes :: "bytes \<Rightarrow> ByteBuffer \<Rightarrow> ByteBuffer" where
  "write_bytes src b = b\<lparr> bb_data := bb_data b @ src \<rparr>"

definition write_uint8 :: "u8 \<Rightarrow> ByteBuffer \<Rightarrow> ByteBuffer" where
  "write_uint8 v = write_bytes [v]"

definition write_uint16 :: "Endian \<Rightarrow> u16 \<Rightarrow> ByteBuffer \<Rightarrow> ByteBuffer" where
  "write_uint16 endian v = write_bytes (write_uint (ucast v) 2 endian [])"

definition write_uint32 :: "Endian \<Rightarrow> u32 \<Rightarrow> ByteBuffer \<Rightarrow> ByteBuffer" where
  "write_uint32 endian v = write_bytes (write_uint (ucast v) 4 endian [])"

definition write_uint64 :: "Endian \<Rightarrow> u64 \<Rightarrow> ByteBuffer \<Rightarrow> ByteBuffer" where
  "write_uint64 endian v = write_bytes (write_uint v 8 endian [])"

text \<open>The bytes a read of \<open>n\<close> copies: \<open>Some []\<close> is the failed check, \<open>None\<close> an access out of bounds.\<close>

definition read_bytes :: "nat \<Rightarrow> ByteBuffer \<Rightarrow> (bytes \<times> ByteBuffer) option" where
  "read_bytes n b =
     (if word_of_nat (length (bb_data b)) < bb_read_pos b + word_of_nat n then Some ([], b)
      else if length (bb_data b) < unat (bb_read_pos b) + n then None
      else Some (take n (drop (unat (bb_read_pos b)) (bb_data b)), b\<lparr> bb_read_pos := bb_read_pos b + word_of_nat n \<rparr>))"

definition read_uint8 :: "ByteBuffer \<Rightarrow> (u8 \<times> ByteBuffer) option" where
  "read_uint8 b = map_option (map_prod (\<lambda>bs. case bs of [] \<Rightarrow> 0 | v # _ \<Rightarrow> v) id) (read_bytes 1 b)"

definition read_uint16 :: "Endian \<Rightarrow> ByteBuffer \<Rightarrow> (u16 \<times> ByteBuffer) option" where
  "read_uint16 endian b = map_option (map_prod (\<lambda>bs. ucast (read_uint bs endian)) id) (read_bytes 2 b)"

definition read_uint32 :: "Endian \<Rightarrow> ByteBuffer \<Rightarrow> (u32 \<times> ByteBuffer) option" where
  "read_uint32 endian b = map_option (map_prod (\<lambda>bs. ucast (read_uint bs endian)) id) (read_bytes 4 b)"

definition read_uint64 :: "Endian \<Rightarrow> ByteBuffer \<Rightarrow> (u64 \<times> ByteBuffer) option" where
  "read_uint64 endian b = map_option (map_prod (\<lambda>bs. read_uint bs endian) id) (read_bytes 8 b)"

definition set_read_position :: "u64 \<Rightarrow> ByteBuffer \<Rightarrow> ByteBuffer" where
  "set_read_position pos b = b\<lparr> bb_read_pos := pos \<rparr>"

definition buffer_to_string :: "ByteBuffer \<Rightarrow> string" where
  "buffer_to_string b = map (\<lambda>w. char_of (unat w)) (bb_data b)"

definition buffer_from_string :: "string \<Rightarrow> ByteBuffer" where
  "buffer_from_string s = new_ByteBuffer (map of_char s)"

definition hex_chars :: string where
  "hex_chars = ''0123456789abcdef''"

definition hex_byte :: "nat \<Rightarrow> u8 \<Rightarrow> string" where
  "hex_byte i byte =
     [hex_chars ! unat (drop_bit 4 byte AND 15), hex_chars ! unat (byte AND 15),
      if (i + 1) mod 16 = 0 then CHR 0x0A else CHR '' '']"

definition hex_dump :: "nat \<Rightarrow> ByteBuffer \<Rightarrow> string" where
  "hex_dump max_bytes b =
     concat (map (\<lambda>i. hex_byte i (bb_data b ! i)) [0..<min (length (bb_data b)) max_bytes]) @
     (if max_bytes < length (bb_data b) then ''...'' else [])"

subsection \<open>Fields in sequence\<close>

datatype field = F8 u8 | F16 u16 | F32 u32 | F64 u64

fun write_field :: "Endian \<Rightarrow> ByteBuffer \<Rightarrow> field \<Rightarrow> ByteBuffer" where
  "write_field e b (F8 v) = write_uint8 v b"
| "write_field e b (F16 v) = write_uint16 e v b"
| "write_field e b (F32 v) = write_uint32 e v b"
| "write_field e b (F64 v) = write_uint64 e v b"

text \<open>Reads a field of the width of its argument.\<close>

fun read_field :: "Endian \<Rightarrow> ByteBuffer \<Rightarrow> field \<Rightarrow> (field \<times> ByteBuffer) option" where
  "read_field e b (F8 _) = map_option (map_prod F8 id) (read_uint8 b)"
| "read_field e b (F16 _) = map_option (map_prod F16 id) (read_uint16 e b)"
| "read_field e b (F32 _) = map_option (map_prod F32 id) (read_uint32 e b)"
| "read_field e b (F64 _) = map_option (map_prod F64 id) (read_uint64 e b)"

fun read_fields :: "Endian \<Rightarrow> field list \<Rightarrow> ByteBuffer \<Rightarrow> (field list \<times> ByteBuffer) option" where
  "read_fields e [] b = Some ([], b)"
| "read_fields e (f # fs) b =
     (case read_field e b f of
        None \<Rightarrow> None
      | Some (g, b') \<Rightarrow> map_option (map_prod (Cons g) id) (read_fields e fs b'))"

fun field_bytes :: "Endian \<Rightarrow> field \<Rightarrow> bytes" where
  "field_bytes e (F8 v) = [v]"
| "field_bytes e (F16 v) = write_uint (ucast v) 2 e []"
| "field_bytes e (F32 v) = write_uint (ucast v) 4 e []"
| "field_bytes e (F64 v) = write_uint v 8 e []"

lemma write_field_data: "bb_data (write_field e b f) = bb_data b @ field_bytes e f"
    "bb_read_pos (write_field e b f) = bb_read_pos b"
  by (cases f; simp add: write_uint8_def write_uint16_def write_uint32_def write_uint64_def write_bytes_def)+

lemma write_fields_data:
  "bb_data (foldl (write_field e) b fs) = bb_data b @ concat (map (field_bytes e) fs) \<and>
   bb_read_pos (foldl (write_field e) b fs) = bb_read_pos b"
  by (induction fs arbitrary: b) (simp_all add: write_field_data)

lemma read_bytes_next:
  assumes "bb_data b = xs @ ys @ zs" "unat (bb_read_pos b) = length xs" "length (bb_data b) < 2 ^ 64"
  shows "read_bytes (length ys) b = Some (ys, b\<lparr> bb_read_pos := bb_read_pos b + word_of_nat (length ys) \<rparr>)"
    "unat (bb_read_pos b + word_of_nat (length ys)) = length (xs @ ys)"
proof -
  have "unat (word_of_nat (length ys) :: u64) = length ys" using assms(1,3) by (simp add: unsigned_of_nat take_bit_nat_eq_self)
  then show u: "unat (bb_read_pos b + word_of_nat (length ys)) = length (xs @ ys)"
    using assms by (simp add: unat_word_ariths)
  have "unat (word_of_nat (length (bb_data b)) :: u64) = length (bb_data b)" using assms(3) by (simp add: unsigned_of_nat take_bit_nat_eq_self)
  then have "\<not> (word_of_nat (length (bb_data b)) :: u64) < bb_read_pos b + word_of_nat (length ys)"
    using u assms(1) by (simp add: word_less_nat_alt)
  with assms show "read_bytes (length ys) b = Some (ys, b\<lparr> bb_read_pos := bb_read_pos b + word_of_nat (length ys) \<rparr>)"
    by (simp add: read_bytes_def)
qed

lemma ucast_fits:
  "fits_width (ucast (v :: u16)) 2" "fits_width (ucast (w :: u32)) 4" "fits_width (x :: u64) 8"
proof -
  have "unat (ucast v :: u64) = unat v" "unat (ucast w :: u64) = unat w" by (simp_all add: unsigned_ucast_eq take_bit_nat_eq_self order_less_le_trans [OF unsigned_less])
  with unsigned_less [of v, where 'a = nat] unsigned_less [of w, where 'a = nat]
  show "fits_width (ucast v) 2" "fits_width (ucast w) 4" by (simp_all add: fits_width_unat valid_integer_width_def)
qed (simp add: fits_width_def)

lemma ucast_back [simp]: "ucast (ucast (v :: u16) :: u64) = v" "ucast (ucast (w :: u32) :: u64) = w"
  by (rule bit_word_eqI; simp add: bit_unsigned_iff)+

lemma read_field_next:
  assumes "bb_data b = xs @ field_bytes e f @ zs" "unat (bb_read_pos b) = length xs" "length (bb_data b) < 2 ^ 64"
  shows "read_field e b f = Some (f, b\<lparr> bb_read_pos := bb_read_pos b + word_of_nat (length (field_bytes e f)) \<rparr>)"
proof -
  note r = read_bytes_next(1) [OF assms]
  have w: "length (write_uint v 2 e []) = 2" for v by simp
  show ?thesis
  proof (cases f)
    case (F16 v)
    then have "read_bytes 2 b = Some (field_bytes e f, b\<lparr> bb_read_pos := bb_read_pos b + word_of_nat (length (field_bytes e f)) \<rparr>)"
      using r by (simp only: field_bytes.simps w)
    with F16 ucast_fits(1) [of v] show ?thesis by (simp add: read_uint16_def valid_integer_width_def)
  qed (use r ucast_fits in \<open>simp_all add: read_uint8_def read_uint32_def read_uint64_def valid_integer_width_def\<close>)
qed

lemma read_fields_next:
  assumes "bb_data b = xs @ concat (map (field_bytes e) fs) @ zs" "unat (bb_read_pos b) = length xs" "length (bb_data b) < 2 ^ 64"
  shows "\<exists>pos. read_fields e fs b = Some (fs, b\<lparr> bb_read_pos := pos \<rparr>) \<and>
    unat pos = length xs + length (concat (map (field_bytes e) fs))"
  using assms
proof (induction fs arbitrary: b xs)
  case Nil
  then show ?case by (auto intro: exI [of _ "bb_read_pos b"])
next
  case (Cons f fs)
  have d: "bb_data b = xs @ field_bytes e f @ concat (map (field_bytes e) fs) @ zs" using Cons.prems(1) by simp
  note r = read_field_next [OF d Cons.prems(2,3)]
  let ?b = "b\<lparr> bb_read_pos := bb_read_pos b + word_of_nat (length (field_bytes e f)) \<rparr>"
  have "unat (bb_read_pos ?b) = length (xs @ field_bytes e f)" using read_bytes_next(2) [OF d Cons.prems(2,3)] by simp
  with Cons.IH [of ?b "xs @ field_bytes e f"] d Cons.prems(3) r show ?case by fastforce
qed

subsection \<open>Properties\<close>

text \<open>
  C37. Fields of any width written to a buffer that has been read to its end come back in order, and the
  buffer is at its end again.
\<close>

theorem buffer_roundtrip:
  assumes "unat (bb_read_pos b) = length (bb_data b)"
    and "length (bb_data (foldl (write_field e) b fs)) < 2 ^ 64"
  shows "\<exists>b'. read_fields e fs (foldl (write_field e) b fs) = Some (fs, b') \<and>
    bb_data b' = bb_data (foldl (write_field e) b fs) \<and> unat (bb_read_pos b') = length (bb_data b')"
  using read_fields_next [of "foldl (write_field e) b fs" "bb_data b" e fs "[]"] assms write_fields_data [of e b fs]
  by fastforce

theorem buffer_roundtrip_witness:
  "\<exists>b'. read_fields Little [F16 258, F8 3, F64 (2 ^ 63)]
     (foldl (write_field Little) (new_ByteBuffer []) [F16 258, F8 3, F64 (2 ^ 63)]) = Some ([F16 258, F8 3, F64 (2 ^ 63)], b') \<and>
   unat (bb_read_pos b') = 11"
proof -
  let ?fs = "[F16 258, F8 3, F64 (2 ^ 63)]"
  have w: "length (bb_data (foldl (write_field Little) (new_ByteBuffer []) ?fs)) = 11" by code_simp
  have "unat (bb_read_pos (new_ByteBuffer [])) = length (bb_data (new_ByteBuffer []))" by (simp add: new_ByteBuffer_def)
  from buffer_roundtrip [OF this, of Little ?fs] w show ?thesis by auto
qed

text \<open>
  A read leaves the data exactly when the sum of the read position and the width wraps around: the
  bounds check compares the wrapped sum.
\<close>

theorem read_out_of_bounds_iff:
  assumes "length (bb_data b) < 2 ^ 64" "n < 2 ^ 64"
  shows "read_bytes n b = None \<longleftrightarrow>
    2 ^ 64 \<le> unat (bb_read_pos b) + n \<and> unat (bb_read_pos b) + n - 2 ^ 64 \<le> length (bb_data b)"
proof -
  have l: "unat (word_of_nat (length (bb_data b)) :: u64) = length (bb_data b)" "unat (word_of_nat n :: u64) = n"
    using assms by (simp_all add: unsigned_of_nat take_bit_nat_eq_self)
  have p: "unat (bb_read_pos b) < 2 ^ 64" using unat_u64_less [of "bb_read_pos b"] by simp
  have "unat (bb_read_pos b + word_of_nat n) = (unat (bb_read_pos b) + n) mod 2 ^ 64" using l by (simp add: unat_word_ariths)
  also have "\<dots> = (if unat (bb_read_pos b) + n < 2 ^ 64 then unat (bb_read_pos b) + n else unat (bb_read_pos b) + n - 2 ^ 64)"
    using p assms(2) by (auto simp: mod_if)
  finally show ?thesis using l assms by (auto simp: read_bytes_def word_less_nat_alt)
qed

theorem read_out_of_bounds_iff_witness:
  "read_bytes 2 (set_read_position (2 ^ 64 - 1) (new_ByteBuffer [7])) = None"
proof -
  let ?b = "set_read_position (2 ^ 64 - 1) (new_ByteBuffer [7])"
  have "unat (bb_read_pos ?b) = 2 ^ 64 - 1" "length (bb_data ?b) = 1" by (simp_all add: set_read_position_def new_ByteBuffer_def)
  with read_out_of_bounds_iff [of ?b 2] show ?thesis by simp
qed

text \<open>
  \<open>clear\<close> keeps the read position: a byte written after it is not read back, the read answers zero,
  as long as the position is not below the new end.
\<close>

theorem cleared_buffer_reads_zero:
  assumes "0 < unat (bb_read_pos b)" "unat (bb_read_pos b) < 2 ^ 64 - 1"
  shows "read_uint8 (write_uint8 v (clear_buffer b)) = Some (0, write_uint8 v (clear_buffer b))"
proof -
  have "unat (bb_read_pos b + 1) = unat (bb_read_pos b) + 1" using assms(2) by (simp add: unat_word_ariths)
  then have "(1 :: u64) < bb_read_pos b + 1" using assms(1) by (simp add: word_less_nat_alt)
  then show ?thesis by (simp add: read_uint8_def read_bytes_def write_uint8_def write_bytes_def clear_buffer_def)
qed

theorem cleared_buffer_reads_zero_witness:
  "read_uint8 (write_uint8 9 (clear_buffer (\<lparr> bb_data = [5], bb_read_pos = 1 \<rparr>))) =
     Some (0, write_uint8 9 (clear_buffer (\<lparr> bb_data = [5], bb_read_pos = 1 \<rparr>)))"
  using cleared_buffer_reads_zero [of "\<lparr> bb_data = [5], bb_read_pos = 1 \<rparr>" 9] by simp

end
