(* ===== verification/Encryption.thy ===== *)
theory Encryption
  imports Shield_Prelude
begin

unbundle bit_operations_syntax

section \<open>Frame encryption\<close>

text \<open>
  \<open>src/src/transport/encryption.cpp\<close> and its header.  The cipher contexts of OpenSSL are the parameter
  \<open>evp_api\<close>, one function for each call the code makes; \<open>None\<close> is the failure of a call.  The code looks at
  the result of \<open>EVP_DecryptFinal_ex\<close> only: after the failure of a call that should have set a length it goes
  on with an uninitialised one, and without a context it passes the null pointer on.  These cases are
  \<open>Undefined\<close>.  A failed \<open>GET_TAG\<close> or \<open>RAND_bytes\<close> leaves the zeros the vectors were created with, and a
  failed \<open>SET_TAG\<close> leaves the context as it was.  The bytes \<open>RAND_bytes\<close> writes are an argument.  The lengths
  of the data are \<open>size_t\<close> and narrowed to the \<open>int\<close> of the calls.

  \<open>gcm_laws\<close> says what the calls are documented to do when they succeed: AES-GCM encrypts and decrypts with a
  key stream that depends on cipher, key and nonce only, gives as many bytes as it is given and none at
  the end, and the tag is a function of the ciphertext, against which the last call of a decryption compares
  the tag that was set.
\<close>

datatype Cipher = NONE | AES_128_GCM | AES_256_GCM | CHACHA20_POLY1305

record 'c evp_api =
  evp_ctx_new :: "'c option"
  evp_encrypt_init :: "Cipher \<Rightarrow> bytes \<Rightarrow> bytes \<Rightarrow> 'c \<Rightarrow> 'c option"
  evp_encrypt_update :: "bytes \<Rightarrow> int \<Rightarrow> 'c \<Rightarrow> ('c \<times> bytes) option"
  evp_encrypt_final :: "'c \<Rightarrow> ('c \<times> bytes) option"
  evp_get_tag :: "'c \<Rightarrow> bytes option"
  evp_decrypt_init :: "Cipher \<Rightarrow> bytes \<Rightarrow> bytes \<Rightarrow> 'c \<Rightarrow> 'c option"
  evp_set_tag :: "bytes \<Rightarrow> 'c \<Rightarrow> 'c option"
  evp_decrypt_update :: "bytes \<Rightarrow> int \<Rightarrow> 'c \<Rightarrow> ('c \<times> bytes) option"
  evp_decrypt_final :: "'c \<Rightarrow> bytes option"

datatype Encryption = NoEncryption | AesGcmEncryption (aes_key: bytes) (aes_cipher: Cipher)

datatype crypt_error = Thrown string | Undefined

definition new_AesGcmEncryption :: "bytes \<Rightarrow> string + Encryption" where
  "new_AesGcmEncryption key =
     (if length key = 16 then Inr (AesGcmEncryption key AES_128_GCM)
      else if length key = 32 then Inr (AesGcmEncryption key AES_256_GCM)
      else Inl ''Key must be 16 or 32 bytes'')"

text \<open>
  The bytes of a successful call past the end of \<open>output\<close> are undefined behaviour, too; the vector has room
  for as many bytes as there are data.
\<close>

fun encrypt :: "'c evp_api \<Rightarrow> bytes option \<Rightarrow> Encryption \<Rightarrow> bytes \<Rightarrow> crypt_error + bytes" where
  "encrypt E rand NoEncryption data = Inr data"
| "encrypt E rand (AesGcmEncryption key cipher) data =
     (let c = (if cipher = AES_128_GCM then AES_128_GCM else AES_256_GCM);
          iv = (case rand of Some r \<Rightarrow> r | None \<Rightarrow> replicate 12 0) in
      case evp_ctx_new E of
        None \<Rightarrow> Inl Undefined
      | Some ctx0 \<Rightarrow>
      case evp_encrypt_init E c key iv ctx0 of
        None \<Rightarrow> Inl Undefined
      | Some ctx1 \<Rightarrow>
      case evp_encrypt_update E data (to_int32 (int (length data))) ctx1 of
        None \<Rightarrow> Inl Undefined
      | Some (ctx2, ciphertext) \<Rightarrow>
      case evp_encrypt_final E ctx2 of
        None \<Rightarrow> Inl Undefined
      | Some (ctx3, rest) \<Rightarrow>
          if length data < length ciphertext + length rest then Inl Undefined
          else Inr (iv @ ciphertext @ rest @ (case evp_get_tag E ctx3 of Some tag \<Rightarrow> tag | None \<Rightarrow> replicate 16 0)))"

fun decrypt :: "'c evp_api \<Rightarrow> Encryption \<Rightarrow> bytes \<Rightarrow> crypt_error + bytes" where
  "decrypt E NoEncryption data = Inr data"
| "decrypt E (AesGcmEncryption key cipher) data =
     (if length data < 12 + 16 then Inl (Thrown ''Invalid encrypted data'')
      else
        let c = (if cipher = AES_128_GCM then AES_128_GCM else AES_256_GCM);
            iv = take 12 data;
            ciphertext_len = length data - 12 - 16;
            ciphertext = take ciphertext_len (drop 12 data);
            tag = drop (length data - 16) data in
        case evp_ctx_new E of
          None \<Rightarrow> Inl Undefined
        | Some ctx0 \<Rightarrow>
        case evp_decrypt_init E c key iv ctx0 of
          None \<Rightarrow> Inl Undefined
        | Some ctx1 \<Rightarrow>
        let ctx2 = (case evp_set_tag E tag ctx1 of Some ctx2 \<Rightarrow> ctx2 | None \<Rightarrow> ctx1) in
        case evp_decrypt_update E ciphertext (to_int32 (int ciphertext_len)) ctx2 of
          None \<Rightarrow> Inl Undefined
        | Some (ctx3, output) \<Rightarrow>
        case evp_decrypt_final E ctx3 of
          None \<Rightarrow> Inl (Thrown ''Decryption failed (tag mismatch)'')
        | Some rest \<Rightarrow> if ciphertext_len < length output + length rest then Inl Undefined else Inr (output @ rest))"

fun cipher_name :: "Encryption \<Rightarrow> string" where
  "cipher_name NoEncryption = ''none''"
| "cipher_name (AesGcmEncryption key cipher) = (if cipher = AES_128_GCM then ''aes-128-gcm'' else ''aes-256-gcm'')"

text \<open>\<open>Inr None\<close> is the null pointer, \<open>Inl\<close> the exception of the constructor.\<close>

definition create_encryption :: "Cipher \<Rightarrow> bytes \<Rightarrow> string + Encryption option" where
  "create_encryption cipher key =
     (if cipher = NONE then Inr (Some NoEncryption)
      else if cipher = AES_128_GCM \<or> cipher = AES_256_GCM then map_sum id Some (new_AesGcmEncryption key)
      else Inr None)"

subsection \<open>What the library is documented to do\<close>

definition gcm_key_ok :: "Cipher \<Rightarrow> bytes \<Rightarrow> bytes \<Rightarrow> bool" where
  "gcm_key_ok c key iv \<longleftrightarrow>
     (c = AES_128_GCM \<and> length key = 16 \<or> c = AES_256_GCM \<and> length key = 32) \<and> length iv = 12"

definition xor_stream :: "(nat \<Rightarrow> u8) \<Rightarrow> bytes \<Rightarrow> bytes" where
  "xor_stream ks data = map2 (\<lambda>i x. x XOR ks i) [0..<length data] data"

definition seals :: "'c evp_api \<Rightarrow> (nat \<Rightarrow> u8) \<Rightarrow> (bytes \<Rightarrow> bytes) \<Rightarrow> 'c \<Rightarrow> bool" where
  "seals E ks tg ctx \<longleftrightarrow>
     (\<forall>data n. n \<le> length data \<and> n < 2 ^ 31 \<longrightarrow>
        (\<exists>ctx2 ctx3. evp_encrypt_update E data (int n) ctx = Some (ctx2, xor_stream ks (take n data)) \<and>
           evp_encrypt_final E ctx2 = Some (ctx3, []) \<and> evp_get_tag E ctx3 = Some (tg (xor_stream ks (take n data)))))"

definition opens :: "'c evp_api \<Rightarrow> (nat \<Rightarrow> u8) \<Rightarrow> (bytes \<Rightarrow> bytes) \<Rightarrow> 'c \<Rightarrow> bool" where
  "opens E ks tg ctx \<longleftrightarrow>
     (\<forall>tag data n. length tag = 16 \<and> n \<le> length data \<and> n < 2 ^ 31 \<longrightarrow>
        (\<exists>ctx2 ctx3. evp_set_tag E tag ctx = Some ctx2 \<and>
           evp_decrypt_update E data (int n) ctx2 = Some (ctx3, xor_stream ks (take n data)) \<and>
           evp_decrypt_final E ctx3 = (if tag = tg (take n data) then Some [] else None)))"

definition gcm_laws ::
  "'c evp_api \<Rightarrow> (Cipher \<Rightarrow> bytes \<Rightarrow> bytes \<Rightarrow> nat \<Rightarrow> u8) \<Rightarrow> (Cipher \<Rightarrow> bytes \<Rightarrow> bytes \<Rightarrow> bytes \<Rightarrow> bytes) \<Rightarrow> bool" where
  "gcm_laws E ks tg \<longleftrightarrow>
     evp_ctx_new E \<noteq> None \<and> (\<forall>c key iv ciphertext. length (tg c key iv ciphertext) = 16) \<and>
     (\<forall>c key iv ctx. gcm_key_ok c key iv \<longrightarrow>
        (\<exists>ctx1. evp_encrypt_init E c key iv ctx = Some ctx1 \<and> seals E (ks c key iv) (tg c key iv) ctx1) \<and>
        (\<exists>ctx1. evp_decrypt_init E c key iv ctx = Some ctx1 \<and> opens E (ks c key iv) (tg c key iv) ctx1))"

lemma length_xor_stream [simp]: "length (xor_stream ks data) = length data"
  by (simp add: xor_stream_def)

lemma xor_stream_twice: "xor_stream ks (xor_stream ks data) = data"
  by (rule nth_equalityI) (simp_all add: xor_stream_def xor.assoc)

lemma to_int32_mod: "to_int32 i = (let k = i mod 2 ^ 32 in if k < 2 ^ 31 then k else k - 2 ^ 32)"
proof -
  have "sint (word_of_int i :: 32 word) = signed_take_bit 31 i" by transfer simp
  then have "to_int32 i = (i + 2 ^ 31) mod 2 ^ 32 - 2 ^ 31"
    by (simp add: to_int32_def signed_take_bit_eq_take_bit_shift take_bit_eq_mod)
  then have eq: "to_int32 i = (i mod 2 ^ 32 + 2 ^ 31) mod 2 ^ 32 - 2 ^ 31" by (simp add: mod_add_left_eq)
  have k: "0 \<le> i mod 2 ^ 32" "i mod 2 ^ 32 < 2 ^ 32" by simp_all
  show ?thesis
  proof (cases "i mod 2 ^ 32 < 2 ^ 31")
    case True
    then show ?thesis using k unfolding eq Let_def by (subst mod_pos_pos_trivial) simp_all
  next
    case False
    have "(i mod 2 ^ 32 + 2 ^ 31) mod 2 ^ 32 = (i mod 2 ^ 32 + 2 ^ 31 - 2 ^ 32) mod 2 ^ 32"
      by (simp only: minus_mod_self2)
    also have "\<dots> = i mod 2 ^ 32 + 2 ^ 31 - 2 ^ 32" using False k by (intro mod_pos_pos_trivial) simp_all
    finally show ?thesis using False unfolding eq Let_def by simp
  qed
qed

lemma to_int32_small: "n < 2 ^ 31 \<Longrightarrow> to_int32 (int n) = int n"
  by (simp add: to_int32_mod)

lemma to_int32_nonneg:
  assumes "0 \<le> to_int32 (int n)"
  shows "to_int32 (int n) = int (n mod 2 ^ 32)" "n mod 2 ^ 32 < 2 ^ 31" "n mod 2 ^ 32 \<le> n"
proof -
  have k: "int n mod 2 ^ 32 = int (n mod 2 ^ 32)" by (simp add: zmod_int)
  have "n mod 2 ^ 32 < 2 ^ 32" by simp
  then show "to_int32 (int n) = int (n mod 2 ^ 32)" "n mod 2 ^ 32 < 2 ^ 31"
    using assms unfolding to_int32_mod k Let_def by (auto split: if_splits)
qed simp

lemma encrypt_aes:
  assumes laws: "gcm_laws E ks tg" and ok: "gcm_key_ok cipher key iv"
    and iv: "iv = (case rand of Some r \<Rightarrow> r | None \<Rightarrow> replicate 12 0)"
    and len: "to_int32 (int (length data)) = int n" "n < 2 ^ 31" "n \<le> length data"
    and ct: "ct = xor_stream (ks cipher key iv) (take n data)"
  shows "encrypt E rand (AesGcmEncryption key cipher) data = Inr (iv @ ct @ tg cipher key iv ct)"
proof -
  obtain ctx0 where ctx0: "evp_ctx_new E = Some ctx0" using laws by (auto simp: gcm_laws_def)
  obtain ctx1 where ctx1: "evp_encrypt_init E cipher key iv ctx0 = Some ctx1" "seals E (ks cipher key iv) (tg cipher key iv) ctx1"
    using laws ok unfolding gcm_laws_def by blast
  obtain ctx2 ctx3 where ctx3: "evp_encrypt_update E data (int n) ctx1 = Some (ctx2, ct)"
    "evp_encrypt_final E ctx2 = Some (ctx3, [])" "evp_get_tag E ctx3 = Some (tg cipher key iv ct)"
    using ctx1(2) len(2,3) unfolding seals_def ct by blast
  have "(if cipher = AES_128_GCM then AES_128_GCM else AES_256_GCM) = cipher" using ok by (auto simp: gcm_key_ok_def)
  then show ?thesis using ctx0 ctx1(1) ctx3 len by (simp add: Let_def ct flip: iv)
qed

lemma decrypt_aes:
  assumes laws: "gcm_laws E ks tg" and ok: "gcm_key_ok cipher key iv" and tag: "length tag = 16" and len: "length ct < 2 ^ 31"
  shows "decrypt E (AesGcmEncryption key cipher) (iv @ ct @ tag) =
    (if tag = tg cipher key iv ct then Inr (xor_stream (ks cipher key iv) ct)
     else Inl (Thrown ''Decryption failed (tag mismatch)''))"
proof -
  obtain ctx0 where ctx0: "evp_ctx_new E = Some ctx0" using laws by (auto simp: gcm_laws_def)
  obtain ctx1 where ctx1: "evp_decrypt_init E cipher key iv ctx0 = Some ctx1" "opens E (ks cipher key iv) (tg cipher key iv) ctx1"
    using laws ok unfolding gcm_laws_def by blast
  have "length tag = 16 \<and> length ct \<le> length ct \<and> length ct < 2 ^ 31" using tag len by simp
  from ctx1(2) [unfolded opens_def, rule_format, OF this] obtain ctx2 ctx3 where ctx3: "evp_set_tag E tag ctx1 = Some ctx2"
    "evp_decrypt_update E ct (int (length ct)) ctx2 = Some (ctx3, xor_stream (ks cipher key iv) ct)"
    "evp_decrypt_final E ctx3 = (if tag = tg cipher key iv ct then Some [] else None)"
    by auto
  have c: "(if cipher = AES_128_GCM then AES_128_GCM else AES_256_GCM) = cipher" and iv: "length iv = 12"
    using ok by (auto simp: gcm_key_ok_def)
  show ?thesis using ctx0 ctx1(1) ctx3 c iv tag to_int32_small [OF len] by (simp add: Let_def)
qed

text \<open>A cipher that adds the first key byte and has the padded nonce as its tag, to apply the properties to.\<close>

type_synonym sample_ctx = "bytes \<times> bytes \<times> bytes"

definition sample_ks :: "Cipher \<Rightarrow> bytes \<Rightarrow> bytes \<Rightarrow> nat \<Rightarrow> u8" where
  "sample_ks c key iv i = hd key"

definition sample_tag :: "Cipher \<Rightarrow> bytes \<Rightarrow> bytes \<Rightarrow> bytes \<Rightarrow> bytes" where
  "sample_tag c key iv ciphertext = take 16 (iv @ replicate 16 0)"

definition sample_evp :: "sample_ctx evp_api" where
  "sample_evp =
     \<lparr> evp_ctx_new = Some ([], [], []),
       evp_encrypt_init = (\<lambda>c key iv ctx. Some (key, iv, [])),
       evp_encrypt_update = (\<lambda>data n (key, iv, t). Some ((key, iv, t), map (\<lambda>x. x XOR hd key) (take (nat n) data))),
       evp_encrypt_final = (\<lambda>ctx. Some (ctx, [])),
       evp_get_tag = (\<lambda>(key, iv, t). Some (take 16 (iv @ replicate 16 0))),
       evp_decrypt_init = (\<lambda>c key iv ctx. Some (key, iv, [])),
       evp_set_tag = (\<lambda>tag (key, iv, t). Some (key, iv, tag)),
       evp_decrypt_update = (\<lambda>data n (key, iv, t). Some ((key, iv, t), map (\<lambda>x. x XOR hd key) (take (nat n) data))),
       evp_decrypt_final = (\<lambda>(key, iv, t). if t = take 16 (iv @ replicate 16 0) then Some [] else None) \<rparr>"

lemma xor_stream_const: "xor_stream (\<lambda>i. b) data = map (\<lambda>x. x XOR b) data"
  by (rule nth_equalityI) (simp_all add: xor_stream_def)

lemma sample_gcm_laws: "gcm_laws sample_evp sample_ks sample_tag"
proof -
  have "sample_ks c key iv = (\<lambda>i. hd key)" for c key iv by (simp add: sample_ks_def fun_eq_iff)
  then show ?thesis
    by (simp add: gcm_laws_def seals_def opens_def sample_evp_def sample_tag_def xor_stream_const min_def)
qed

subsection \<open>Properties\<close>

text \<open>
  C36. With the documented behaviour of AES-GCM: for data of less than \<open>2 ^ 31\<close> bytes, decrypting what any
  encryption of the factory made of them with a 12-byte nonce gives the data back; AES-GCM adds 28 bytes, it
  rejects everything shorter than that, and it accepts a message of less than \<open>2 ^ 31\<close> bytes only with
  the tag of its ciphertext.
\<close>

theorem encryption_roundtrip:
  assumes "gcm_laws E ks tg" "create_encryption cipher key = Inr (Some e)" "\<And>r. rand = Some r \<Longrightarrow> length r = 12"
    and "length data < 2 ^ 31"
  shows "\<exists>sealed. encrypt E rand e data = Inr sealed \<and> decrypt E e sealed = Inr data \<and>
    length sealed = length data + (if e = NoEncryption then 0 else 28) \<and>
    (e \<noteq> NoEncryption \<longrightarrow>
       (\<forall>msg. length msg < 28 \<longrightarrow> decrypt E e msg = Inl (Thrown ''Invalid encrypted data'')) \<and>
       (\<forall>iv ct tag plain. length iv = 12 \<and> length tag = 16 \<and> length ct < 2 ^ 31 \<and>
          decrypt E e (iv @ ct @ tag) = Inr plain \<longrightarrow> tag = tg (aes_cipher e) (aes_key e) iv ct))"
proof (cases e)
  case NoEncryption
  then show ?thesis by simp
next
  case (AesGcmEncryption k c)
  have key: "gcm_key_ok c k iv" if "length iv = 12" for iv
    using assms(2) AesGcmEncryption that
    by (auto simp: create_encryption_def new_AesGcmEncryption_def gcm_key_ok_def split: if_splits)
  define iv where "iv = (case rand of Some r \<Rightarrow> r | None \<Rightarrow> replicate 12 0)"
  have iv: "length iv = 12" using assms(3) by (cases rand) (simp_all add: iv_def)
  define ct where "ct = xor_stream (ks c k iv) data"
  have tg: "length (tg c k iv ct) = 16" using assms(1) by (simp add: gcm_laws_def)
  have "encrypt E rand e data = Inr (iv @ ct @ tg c k iv ct)"
    using encrypt_aes [OF assms(1) key [OF iv] iv_def to_int32_small [OF assms(4)] assms(4)] AesGcmEncryption
    by (simp add: ct_def del: encrypt.simps)
  moreover have "decrypt E e (iv @ ct @ tg c k iv ct) = Inr data"
    using decrypt_aes [OF assms(1) key [OF iv] tg] assms(4) AesGcmEncryption
    by (simp add: ct_def xor_stream_twice del: decrypt.simps)
  moreover have "tag = tg c k iv' ct'"
    if "length iv' = 12" "length tag = 16" "length ct' < 2 ^ 31" "decrypt E e (iv' @ ct' @ tag) = Inr plain" for iv' ct' tag plain
    using decrypt_aes [OF assms(1) key [OF that(1)] that(2,3)] that(4) AesGcmEncryption
    by (auto simp del: decrypt.simps split: if_splits)
  moreover have "decrypt E e msg = Inl (Thrown ''Invalid encrypted data'')" if "length msg < 28" for msg
    using AesGcmEncryption that by simp
  moreover have "length (iv @ ct @ tg c k iv ct) = length data + 28" "aes_cipher e = c" "aes_key e = k" "e \<noteq> NoEncryption"
    using AesGcmEncryption iv tg by (simp_all add: ct_def)
  ultimately show ?thesis by (intro exI [of _ "iv @ ct @ tg c k iv ct"]) auto
qed

theorem encryption_roundtrip_witness:
  "create_encryption AES_128_GCM (replicate 16 3) = Inr (Some (AesGcmEncryption (replicate 16 3) AES_128_GCM)) \<and>
   (\<exists>sealed. encrypt sample_evp (Some (replicate 12 1)) (AesGcmEncryption (replicate 16 3) AES_128_GCM) [7, 8] = Inr sealed \<and>
      decrypt sample_evp (AesGcmEncryption (replicate 16 3) AES_128_GCM) sealed = Inr [7, 8] \<and> length sealed = 30)"
proof -
  have c: "create_encryption AES_128_GCM (replicate 16 3) = Inr (Some (AesGcmEncryption (replicate 16 3) AES_128_GCM))"
    by (simp add: create_encryption_def new_AesGcmEncryption_def)
  from encryption_roundtrip [OF sample_gcm_laws c, of "Some (replicate 12 1)" "[7, 8]"] c show ?thesis
    by (auto simp del: decrypt.simps encrypt.simps)
qed

text \<open>
  The size of the data is narrowed to an \<open>int\<close>: of data of \<open>2 ^ 32\<close> bytes and more only the remainder is
  encrypted, and nothing tells the caller.
\<close>

lemma encrypt_truncates:
  assumes "gcm_laws E ks tg" "gcm_key_ok cipher key iv" "0 \<le> to_int32 (int (length data))"
  shows "attempt (encrypt E (Some iv) (AesGcmEncryption key cipher) data) (decrypt E (AesGcmEncryption key cipher))
    = Inr (take (length data mod 2 ^ 32) data)"
proof -
  let ?n = "length data mod 2 ^ 32" and ?ct = "xor_stream (ks cipher key iv) (take (length data mod 2 ^ 32) data)"
  note n = to_int32_nonneg [OF assms(3)]
  have "encrypt E (Some iv) (AesGcmEncryption key cipher) data = Inr (iv @ ?ct @ tg cipher key iv ?ct)"
    by (rule encrypt_aes [OF assms(1,2) _ n refl]) simp
  moreover have "decrypt E (AesGcmEncryption key cipher) (iv @ ?ct @ tg cipher key iv ?ct) = Inr (take ?n data)"
    using decrypt_aes [OF assms(1,2), of "tg cipher key iv ?ct" ?ct] assms(1) n(2,3)
    by (simp add: gcm_laws_def xor_stream_twice del: decrypt.simps)
  ultimately show ?thesis by (simp add: attempt_def)
qed

text \<open>
  The factory ignores which AES-GCM cipher is asked for: the length of the key decides, so a request
  for AES-128 with a 32-byte key silently gives AES-256 and the other way round.
\<close>

theorem create_encryption_ignores_cipher:
  "create_encryption AES_128_GCM key = create_encryption AES_256_GCM key \<and>
   create_encryption AES_128_GCM (replicate 32 0) = Inr (Some (AesGcmEncryption (replicate 32 0) AES_256_GCM)) \<and>
   cipher_name (AesGcmEncryption (replicate 32 0) AES_256_GCM) = ''aes-256-gcm''"
  by (simp add: create_encryption_def new_AesGcmEncryption_def)

end
