(* ===== verification/Plugin_Json.thy ===== *)
theory Plugin_Json
  imports Shield_Prelude
begin

section \<open>The JSON helpers of the leaf plugins\<close>

text \<open>
  The text searches the health and metrics plugins read their configuration with
  (\<open>json_get_string\<close>, \<open>json_get_int\<close>; the two files hold the same code) and \<open>json_escape\<close>.  The token plugin
  has variants of its own, which theory \<open>Auth_Jwt\<close> builds from the searches defined here.
  \<open>json_get_int\<close> computes in \<open>int\<close>; \<open>None\<close> is its signed overflow, which is undefined behaviour.
\<close>

fun after_first :: "'a list \<Rightarrow> 'a list \<Rightarrow> 'a list option" where
  "after_first pat [] = (if pat = [] then Some [] else None)"
| "after_first pat (x # xs) = (if has_prefix pat (x # xs) then Some (drop (length pat) (x # xs)) else after_first pat xs)"

definition dquoted :: "string \<Rightarrow> string" where
  "dquoted s = CHR 0x22 # s @ [CHR 0x22]"

definition space_or_tab :: "char \<Rightarrow> bool" where
  "space_or_tab c \<longleftrightarrow> c = CHR '' '' \<or> c = CHR 0x09"

text \<open>The text from the value of a key on.\<close>

definition key_value :: "string \<Rightarrow> string \<Rightarrow> string option" where
  "key_value j key =
     (case after_first (dquoted key) j of
        None \<Rightarrow> None
      | Some s \<Rightarrow> (case dropWhile (\<lambda>c. c \<noteq> CHR '':'') s of [] \<Rightarrow> None | _ # t \<Rightarrow> Some (dropWhile space_or_tab t)))"

fun string_body :: "string \<Rightarrow> string" where
  "string_body [] = []"
| "string_body [c] = (if c = CHR 0x22 then [] else [c])"
| "string_body (c # d # cs) =
     (if c = CHR 0x22 then []
      else if c = CHR 0x5C then d # string_body cs
      else c # string_body (d # cs))"

definition json_get_string :: "string \<Rightarrow> string \<Rightarrow> string" where
  "json_get_string j key =
     (case key_value j key of
        Some (c # cs) \<Rightarrow> if c = CHR 0x22 then string_body cs else []
      | _ \<Rightarrow> [])"

definition INT_MAX :: int where
  "INT_MAX = 2147483647"

text \<open>The digit loop; \<open>hi\<close> is the largest value of the integer type it computes in.\<close>

fun read_digits :: "int \<Rightarrow> int \<Rightarrow> bool \<Rightarrow> string \<Rightarrow> (int \<times> bool) option" where
  "read_digits hi v found [] = Some (v, found)"
| "read_digits hi v found (c # cs) =
     (if 48 \<le> (of_char c :: nat) \<and> (of_char c :: nat) \<le> 57
      then let v' = v * 10 + (of_char c - 48) in if hi < v' then None else read_digits hi v' True cs
      else Some (v, found))"

definition json_get_int :: "string \<Rightarrow> string \<Rightarrow> int \<Rightarrow> int option" where
  "json_get_int j key def =
     (case key_value j key of
        None \<Rightarrow> Some def
      | Some s \<Rightarrow>
          let neg = (s \<noteq> [] \<and> hd s = CHR ''-'') in
          map_option (\<lambda>(v, found). if found then (if neg then - v else v) else def)
            (read_digits INT_MAX 0 False (if neg then tl s else s)))"

definition hex_digit :: "nat \<Rightarrow> char" where
  "hex_digit n = ''0123456789abcdef'' ! (n mod 16)"

definition escape_char :: "char \<Rightarrow> string" where
  "escape_char c =
     (if c = CHR 0x22 then [CHR 0x5C, CHR 0x22]
      else if c = CHR 0x5C then [CHR 0x5C, CHR 0x5C]
      else if c = CHR 0x0A then [CHR 0x5C, CHR ''n'']
      else if c = CHR 0x0D then [CHR 0x5C, CHR ''r'']
      else if c = CHR 0x09 then [CHR 0x5C, CHR ''t'']
      else if (of_char c :: nat) < 32
      then [CHR 0x5C, CHR ''u'', CHR ''0'', CHR ''0'', hex_digit (of_char c div 16), hex_digit (of_char c)]
      else [c])"

definition json_escape :: "string \<Rightarrow> string" where
  "json_escape s = concat (map escape_char s)"

subsection \<open>Quotes\<close>

text \<open>
  The quotes of a text that no backslash escapes.  A JSON text has an even number of them: backslashes
  occur in its strings only, and every string opens and closes with one.
\<close>

fun unescaped_quotes :: "string \<Rightarrow> nat" where
  "unescaped_quotes [] = 0"
| "unescaped_quotes (c # cs) =
     (if c = CHR 0x5C then unescaped_quotes (tl cs)
      else (if c = CHR 0x22 then 1 else 0) + unescaped_quotes cs)"

text \<open>A text is closed when its last backslash escapes a character of its own.\<close>

fun closed_text :: "string \<Rightarrow> bool" where
  "closed_text [] = True"
| "closed_text (c # cs) = (if c = CHR 0x5C then cs \<noteq> [] \<and> closed_text (tl cs) else closed_text cs)"

lemma unescaped_quotes_append: "closed_text s \<Longrightarrow> unescaped_quotes (s @ t) = unescaped_quotes s + unescaped_quotes t"
proof (induction s rule: unescaped_quotes.induct)
  case (2 c cs)
  then show ?case by (cases cs) (auto split: if_splits)
qed simp

lemma closed_text_append: "closed_text s \<Longrightarrow> closed_text t \<Longrightarrow> closed_text (s @ t)"
proof (induction s rule: closed_text.induct)
  case (2 c cs)
  then show ?case by (cases cs) (auto split: if_splits)
qed simp

lemma escape_char_closed: "closed_text (escape_char c)" "unescaped_quotes (escape_char c) = 0"
proof -
  have hex: "hex_digit n \<in> set ''0123456789abcdef''" for n
  proof -
    have "n mod 16 < length ''0123456789abcdef''" by simp
    then show ?thesis unfolding hex_digit_def by (rule nth_mem)
  qed
  have "hex_digit n \<noteq> CHR 0x5C" "hex_digit n \<noteq> CHR 0x22" for n using hex [of n] by auto
  then show "closed_text (escape_char c)" "unescaped_quotes (escape_char c) = 0"
    by (auto simp: escape_char_def)
qed

lemma json_escape_closed: "closed_text (json_escape s)" "unescaped_quotes (json_escape s) = 0"
  by (induction s) (simp_all add: json_escape_def escape_char_closed closed_text_append unescaped_quotes_append)

text \<open>Text without quotes and backslashes.\<close>

definition plain_text :: "string \<Rightarrow> bool" where
  "plain_text s \<longleftrightarrow> CHR 0x5C \<notin> set s \<and> CHR 0x22 \<notin> set s"

lemma plain_text_closed: "plain_text s \<Longrightarrow> closed_text s" "plain_text s \<Longrightarrow> unescaped_quotes s = 0"
  by (induction s) (auto simp: plain_text_def)

lemma to_string_nat_plain: "plain_text (to_string_nat n)"
proof (induction n rule: to_string_nat.induct)
  case (1 n)
  have digit: "char_of (48 + k) \<noteq> CHR 0x5C \<and> char_of (48 + k) \<noteq> CHR 0x22" if "k < 10" for k :: nat
  proof -
    have "k \<in> {0, 1, 2, 3, 4, 5, 6, 7, 8, 9}" using that by auto
    then show ?thesis by (elim insertE emptyE) (simp_all add: char_of_def)
  qed
  from digit [of n] digit [of "n mod 10"] 1 show ?case
    by (subst to_string_nat.simps) (auto simp: plain_text_def)
qed

end
