(* ===== verification/Health.thy ===== *)
theory Health
  imports Plugin_Json
begin

section \<open>The health endpoint\<close>

text \<open>
  \<open>src/plugins/health_http/shield_health_http.cpp\<close>: the registered checks and the answer to a request.
  What a check answers is a function of the time of the request: its return code, the result it fills
  in and the time it took.  The sockets and the accept loop around \<open>handle_session\<close> are left out.
\<close>

datatype health_status = HealthOk | Degraded | Fail

record check_result =
  cr_status :: health_status
  cr_message :: "string option"

record CheckEntry =
  ce_name :: string
  ce_check :: "(nat \<Rightarrow> int \<times> check_result \<times> nat) option"

record health_config =
  hc_bind_address :: string
  hc_port :: int
  hc_liveness_path :: string
  hc_readiness_path :: string

record health_instance =
  hi_cfg :: health_config
  hi_checks :: "CheckEntry list"
  hi_aggregated_status :: health_status

definition default_health_config :: health_config where
  "default_health_config =
     \<lparr> hc_bind_address = ''0.0.0.0'', hc_port = 8086, hc_liveness_path = ''/health'', hc_readiness_path = ''/ready'' \<rparr>"

definition or_default :: "string \<Rightarrow> string \<Rightarrow> string" where
  "or_default s d = (if s = [] then d else s)"

definition parse_health_config :: "string option \<Rightarrow> health_config option" where
  "parse_health_config config_json =
     (case config_json of
        None \<Rightarrow> Some default_health_config
      | Some s \<Rightarrow>
          map_option (\<lambda>port.
            \<lparr> hc_bind_address = or_default (json_get_string s ''bind_address'') ''0.0.0.0'', hc_port = port,
              hc_liveness_path = or_default (json_get_string s ''liveness_path'') ''/health'',
              hc_readiness_path = or_default (json_get_string s ''readiness_path'') ''/ready'' \<rparr>)
            (json_get_int s ''port'' 8086))"

definition new_health_instance :: "health_config \<Rightarrow> health_instance" where
  "new_health_instance cfg = \<lparr> hi_cfg = cfg, hi_checks = [], hi_aggregated_status = HealthOk \<rparr>"

definition register_check ::
  "string option \<Rightarrow> (nat \<Rightarrow> int \<times> check_result \<times> nat) option \<Rightarrow> health_instance \<Rightarrow> int \<times> health_instance" where
  "register_check name check inst =
     (case (name, check) of
        (Some n, Some c) \<Rightarrow> (0, inst\<lparr> hi_checks := hi_checks inst @ [\<lparr> ce_name = n, ce_check = Some c \<rparr>] \<rparr>)
      | _ \<Rightarrow> (-1, inst))"

definition run_check :: "nat \<Rightarrow> CheckEntry \<Rightarrow> int \<times> check_result \<times> nat" where
  "run_check t e =
     (case ce_check e of Some c \<Rightarrow> c t | None \<Rightarrow> (-1, \<lparr> cr_status = HealthOk, cr_message = None \<rparr>, 0))"

text \<open>The status after one check and the text it is reported with.\<close>

definition next_status :: "health_status \<Rightarrow> int \<Rightarrow> check_result \<Rightarrow> health_status \<times> string" where
  "next_status agg rc r =
     (if rc \<noteq> 0 \<or> cr_status r = Fail then (Fail, ''fail'')
      else if cr_status r = Degraded \<and> agg \<noteq> Fail then (Degraded, ''degraded'')
      else (agg, ''ok''))"

definition check_item :: "string \<Rightarrow> string \<Rightarrow> nat \<Rightarrow> string option \<Rightarrow> string" where
  "check_item name status_str latency_ms message =
     [CHR ''{'', CHR 0x22] @ ''name'' @ [CHR 0x22, CHR '':'', CHR 0x22] @ json_escape name @ [CHR 0x22, CHR '',''] @
     [CHR 0x22] @ ''status'' @ [CHR 0x22, CHR '':'', CHR 0x22] @ status_str @ [CHR 0x22, CHR '',''] @
     [CHR 0x22] @ ''latency_ms'' @ [CHR 0x22, CHR '':''] @ to_string_nat latency_ms @
     (case message of
        None \<Rightarrow> []
      | Some m \<Rightarrow> [CHR '','', CHR 0x22] @ ''message'' @ [CHR 0x22, CHR '':'', CHR 0x22] @ json_escape m @ [CHR 0x22]) @
     ''}''"

fun run_checks :: "nat \<Rightarrow> health_status \<Rightarrow> CheckEntry list \<Rightarrow> health_status \<times> string list" where
  "run_checks t agg [] = (agg, [])"
| "run_checks t agg (e # es) =
     (case run_check t e of
        (rc, r, latency_ms) \<Rightarrow>
          (case next_status agg rc r of
             (agg', status_str) \<Rightarrow>
               (case run_checks t agg' es of
                  (agg'', items) \<Rightarrow> (agg'', check_item (ce_name e) status_str latency_ms (cr_message r) # items))))"

fun join_items :: "string list \<Rightarrow> string" where
  "join_items [] = []"
| "join_items [x] = x"
| "join_items (x # xs) = x @ '','' @ join_items xs"

definition agg_str :: "health_status \<Rightarrow> string" where
  "agg_str agg = (case agg of HealthOk \<Rightarrow> ''ok'' | Degraded \<Rightarrow> ''degraded'' | Fail \<Rightarrow> ''fail'')"

definition health_body :: "health_status \<Rightarrow> string list \<Rightarrow> string" where
  "health_body agg items =
     [CHR ''{'', CHR 0x22] @ ''status'' @ [CHR 0x22, CHR '':'', CHR 0x22] @ agg_str agg @
     [CHR 0x22, CHR '','', CHR 0x22] @ ''checks:['' @ join_items items @ '']}''"

definition not_found_body :: string where
  "not_found_body = [CHR ''{'', CHR 0x22] @ ''error'' @ [CHR 0x22, CHR '':'', CHR 0x22] @ ''not_found'' @ [CHR 0x22, CHR ''}'']"

text \<open>The HTTP status and the body of the answer to a request.\<close>

definition health_session :: "nat \<Rightarrow> bool \<Rightarrow> string \<Rightarrow> health_instance \<Rightarrow> (nat \<times> string) \<times> health_instance" where
  "health_session t is_get target inst =
     (if is_get \<and> (target = hc_liveness_path (hi_cfg inst) \<or> target = hc_readiness_path (hi_cfg inst))
      then case run_checks t HealthOk (hi_checks inst) of
        (agg, items) \<Rightarrow>
          ((if agg = Fail then 503 else 200, health_body agg items), inst\<lparr> hi_aggregated_status := agg \<rparr>)
      else ((404, not_found_body), inst))"

definition get_status :: "health_instance \<Rightarrow> health_status" where
  "get_status inst = hi_aggregated_status inst"

text \<open>\<open>check_all\<close>: the names of the checks run and what they left in their results.\<close>

definition check_all :: "nat \<Rightarrow> nat \<Rightarrow> health_instance \<Rightarrow> (string \<times> check_result) list" where
  "check_all t max_results inst =
     map (\<lambda>e. (ce_name e, fst (snd (run_check t e)))) (take max_results (hi_checks inst))"

subsection \<open>Lemmas\<close>

definition check_fails :: "nat \<Rightarrow> CheckEntry \<Rightarrow> bool" where
  "check_fails t e = (case run_check t e of (rc, r, _) \<Rightarrow> rc \<noteq> 0 \<or> cr_status r = Fail)"

definition check_degraded :: "nat \<Rightarrow> CheckEntry \<Rightarrow> bool" where
  "check_degraded t e = (case run_check t e of (rc, r, _) \<Rightarrow> cr_status r = Degraded)"

lemma run_checks_status:
  "fst (run_checks t agg es) =
     (if agg = Fail \<or> (\<exists>e \<in> set es. check_fails t e) then Fail
      else if agg = Degraded \<or> (\<exists>e \<in> set es. check_degraded t e) then Degraded else HealthOk)"
proof (induction es arbitrary: agg)
  case Nil
  then show ?case by (cases agg) simp_all
next
  case (Cons e es)
  obtain rc r latency where r: "run_check t e = (rc, r, latency)" by (cases "run_check t e") auto
  obtain agg' word where n: "next_status agg rc r = (agg', word)" by fastforce
  have "fst (run_checks t agg (e # es)) = fst (run_checks t agg' es)" using r n by (simp split: prod.splits)
  moreover have "agg' = (if check_fails t e \<or> agg = Fail then Fail else if check_degraded t e \<or> agg = Degraded then Degraded else HealthOk)"
    using n r by (cases agg) (auto simp: next_status_def check_fails_def check_degraded_def split: if_splits)
  ultimately show ?case using Cons.IH [of agg'] by (auto split: if_splits)
qed

lemma status_text_plain: "next_status agg rc r = (agg', word) \<Longrightarrow> plain_text word"
  by (auto simp: next_status_def plain_text_def split: if_splits)

lemmas quote_simps = unescaped_quotes_append closed_text_append json_escape_closed plain_text_closed to_string_nat_plain

lemma check_item_quotes:
  assumes "plain_text status_str"
  shows "closed_text (check_item name status_str latency_ms message)" "even (unescaped_quotes (check_item name status_str latency_ms message))"
  using assms by (cases message; simp add: check_item_def quote_simps)+

lemma run_checks_items:
  assumes "item \<in> set (snd (run_checks t agg es))"
  shows "closed_text item \<and> even (unescaped_quotes item)"
  using assms
proof (induction es arbitrary: agg)
  case (Cons e es)
  obtain rc r latency where r: "run_check t e = (rc, r, latency)" by (cases "run_check t e") auto
  obtain agg' word where n: "next_status agg rc r = (agg', word)" by fastforce
  note q = check_item_quotes [OF status_text_plain [OF n]]
  from Cons.prems r n consider "item = check_item (ce_name e) word latency (cr_message r)" | "item \<in> set (snd (run_checks t agg' es))"
    by (auto split: prod.splits)
  then show ?case using Cons.IH q by cases auto
qed simp

lemma join_items_quotes:
  assumes "\<And>x. x \<in> set items \<Longrightarrow> closed_text x \<and> even (unescaped_quotes x)"
  shows "closed_text (join_items items) \<and> even (unescaped_quotes (join_items items))"
  using assms by (induction items rule: join_items.induct) (simp_all add: quote_simps)

subsection \<open>Properties\<close>

definition sample_health :: health_instance where
  "sample_health = \<lparr> hi_cfg = default_health_config,
     hi_checks = [\<lparr> ce_name = ''db'', ce_check = Some (\<lambda>_. (0, \<lparr> cr_status = Fail, cr_message = None \<rparr>, 3)) \<rparr>,
                  \<lparr> ce_name = ''mq'', ce_check = Some (\<lambda>_. (0, \<lparr> cr_status = Degraded, cr_message = None \<rparr>, 5)) \<rparr>],
     hi_aggregated_status = HealthOk \<rparr>"

text \<open>
  C33. The endpoint answers 404 off its two paths and to other methods and then changes nothing; on them
  it answers 503 exactly when a check fails, and it stores the worst status of the checks.
\<close>

theorem health_session_status:
  shows "case health_session t is_get target inst of ((code, body), inst') \<Rightarrow>
    if is_get \<and> (target = hc_liveness_path (hi_cfg inst) \<or> target = hc_readiness_path (hi_cfg inst))
    then code = (if \<exists>e \<in> set (hi_checks inst). check_fails t e then 503 else 200) \<and>
      get_status inst' = (if \<exists>e \<in> set (hi_checks inst). check_fails t e then Fail
                          else if \<exists>e \<in> set (hi_checks inst). check_degraded t e then Degraded else HealthOk) \<and>
      hi_checks inst' = hi_checks inst \<and> hi_cfg inst' = hi_cfg inst
    else code = 404 \<and> inst' = inst"
proof -
  obtain agg items where r: "run_checks t HealthOk (hi_checks inst) = (agg, items)" by fastforce
  with run_checks_status [of t HealthOk "hi_checks inst"] show ?thesis
    by (auto simp: health_session_def get_status_def split: if_splits)
qed

text \<open>
  The body of every health answer has an odd number of quotes that no backslash escapes, so it is
  never a JSON text: the key of the checks lacks its closing quote.
\<close>

theorem health_body_malformed:
  assumes "health_session t is_get target inst = ((code, body), inst')" "code \<noteq> 404"
  shows "odd (unescaped_quotes body)"
proof -
  obtain agg items where r: "run_checks t HealthOk (hi_checks inst) = (agg, items)" by fastforce
  with assms have b: "body = health_body agg items" by (auto simp: health_session_def split: if_splits)
  have j: "closed_text (join_items items) \<and> even (unescaped_quotes (join_items items))"
    using run_checks_items [of _ t HealthOk "hi_checks inst"] r by (intro join_items_quotes) simp
  have "plain_text (agg_str agg)" by (cases agg) (simp_all add: agg_str_def plain_text_def)
  with b j show ?thesis by (simp add: health_body_def quote_simps)
qed

theorem health_body_malformed_witness:
  "fst (fst (health_session 0 True ''/health'' sample_health)) = 503 \<and>
   odd (unescaped_quotes (snd (fst (health_session 0 True ''/health'' sample_health))))"
proof -
  have c: "fst (fst (health_session 0 True ''/health'' sample_health)) = 503" by code_simp
  then show ?thesis
    using health_body_malformed [of 0 True "''/health''" sample_health 503
        "snd (fst (health_session 0 True ''/health'' sample_health))" "snd (health_session 0 True ''/health'' sample_health)"]
    by (simp add: prod_eq_iff)
qed

text \<open>
  A degraded check is reported as ok when an earlier check failed.
\<close>

theorem degraded_check_reported_ok:
  assumes "check_fails t e" "run_check t d = (0, r, latency)" "cr_status r = Degraded"
  shows "\<exists>item. snd (run_checks t HealthOk [e, d]) = [item, check_item (ce_name d) ''ok'' latency (cr_message r)]"
  using assms by (auto simp: check_fails_def next_status_def split: prod.splits)

theorem degraded_check_reported_ok_witness:
  "\<exists>item. snd (run_checks 0 HealthOk (hi_checks sample_health)) = [item, check_item ''mq'' ''ok'' 5 None]"
proof -
  let ?e = "hi_checks sample_health ! 0" and ?d = "hi_checks sample_health ! 1"
  have "check_fails 0 ?e" "run_check 0 ?d = (0, \<lparr> cr_status = Degraded, cr_message = None \<rparr>, 5)"
    by (simp_all add: sample_health_def check_fails_def run_check_def)
  from degraded_check_reported_ok [OF this] show ?thesis by (simp add: sample_health_def)
qed

end
