(* ===== verification/Metrics.thy ===== *)
theory Metrics
  imports Plugin_Json "HOL-Library.Multiset" "HOL-Library.Char_ord" "HOL-Library.List_Lexorder" "HOL-Library.Product_Lexorder"
begin

section \<open>The metrics exporter\<close>

text \<open>
  \<open>src/plugins/metric_prometheus/shield_metric_prometheus.cpp\<close>: recording points and rendering them in
  the Prometheus text format.  Values are of any type with an addition and a zero, because the addition
  of floating point numbers has no laws to rely on; \<open>show_value\<close> is the output of a \<open>double\<close> to a
  stream.  The maps are ordered: their loops visit the keys in the order of \<open>SeriesKey\<close>, name first.
  The sockets and the accept loop are left out.
\<close>

datatype metric_type = COUNTER | GAUGE | HISTOGRAM | TIMER

type_synonym LabelVec = "(string \<times> string) list"
type_synonym SeriesKey = "string \<times> LabelVec"

record 'd metric_point =
  pt_name :: "string option"
  pt_type :: metric_type
  pt_value :: 'd
  pt_labels :: "(string option \<times> string option) list"

record metrics_config =
  mx_bind_address :: string
  mx_port :: int
  mx_path :: string

record 'd metric_instance =
  mi_counters :: "(SeriesKey, 'd) umap"
  mi_gauges :: "(SeriesKey, 'd) umap"
  mi_histograms :: "(SeriesKey, 'd \<times> u64) umap"

definition new_metric_instance :: "'d metric_instance" where
  "new_metric_instance = \<lparr> mi_counters = [], mi_gauges = [], mi_histograms = [] \<rparr>"

definition parse_metrics_config :: "string option \<Rightarrow> metrics_config option" where
  "parse_metrics_config config_json =
     (case config_json of
        None \<Rightarrow> Some \<lparr> mx_bind_address = ''0.0.0.0'', mx_port = 8087, mx_path = ''/metrics'' \<rparr>
      | Some s \<Rightarrow>
          map_option (\<lambda>port.
            \<lparr> mx_bind_address = (if json_get_string s ''bind_address'' = [] then ''0.0.0.0''
                                 else json_get_string s ''bind_address''),
              mx_port = port,
              mx_path = (if json_get_string s ''path'' = [] then ''/metrics'' else json_get_string s ''path'') \<rparr>)
            (json_get_int s ''port'' 8087))"

definition normalize_labels :: "(string option \<times> string option) list \<Rightarrow> LabelVec" where
  "normalize_labels kvs =
     sort (List.map_filter (\<lambda>(k, v). case (k, v) of (Some a, Some b) \<Rightarrow> Some (a, b) | _ \<Rightarrow> None) kvs)"

fun label_texts :: "LabelVec \<Rightarrow> string" where
  "label_texts [] = []"
| "label_texts [(k, v)] = k @ [CHR ''='', CHR 0x22] @ v @ [CHR 0x22]"
| "label_texts ((k, v) # kvs) = k @ [CHR ''='', CHR 0x22] @ v @ [CHR 0x22, CHR '',''] @ label_texts kvs"

definition format_labels :: "LabelVec \<Rightarrow> string" where
  "format_labels labels = (if labels = [] then [] else ''{'' @ label_texts labels @ ''}'')"

definition counter_add :: "SeriesKey \<Rightarrow> 'd::{zero,plus} \<Rightarrow> 'd metric_instance \<Rightarrow> 'd metric_instance" where
  "counter_add k v inst =
     inst\<lparr> mi_counters :=
       umap_put k ((case umap_find k (mi_counters inst) of Some x \<Rightarrow> x | None \<Rightarrow> 0) + v) (mi_counters inst) \<rparr>"

definition gauge_put :: "SeriesKey \<Rightarrow> 'd \<Rightarrow> 'd metric_instance \<Rightarrow> 'd metric_instance" where
  "gauge_put k v inst = inst\<lparr> mi_gauges := umap_put k v (mi_gauges inst) \<rparr>"

definition histogram_add :: "SeriesKey \<Rightarrow> 'd::{zero,plus} \<Rightarrow> 'd metric_instance \<Rightarrow> 'd metric_instance" where
  "histogram_add k v inst =
     (let (total, n) = (case umap_find k (mi_histograms inst) of Some e \<Rightarrow> e | None \<Rightarrow> (0, 0)) in
      inst\<lparr> mi_histograms := umap_put k (total + v, n + 1) (mi_histograms inst) \<rparr>)"

definition point_key :: "string \<Rightarrow> 'd metric_point \<Rightarrow> SeriesKey" where
  "point_key name p = (name, normalize_labels (pt_labels p))"

definition record_point :: "'d::{zero,plus} metric_point \<Rightarrow> 'd metric_instance \<Rightarrow> int \<times> 'd metric_instance" where
  "record_point p inst =
     (case pt_name p of
        None \<Rightarrow> (-1, inst)
      | Some name \<Rightarrow>
          (0, case pt_type p of
                COUNTER \<Rightarrow> counter_add (point_key name p) (pt_value p) inst
              | GAUGE \<Rightarrow> gauge_put (point_key name p) (pt_value p) inst
              | HISTOGRAM \<Rightarrow> histogram_add (point_key name p) (pt_value p) inst
              | TIMER \<Rightarrow> histogram_add (point_key name p) (pt_value p) inst))"

fun record_batch :: "'d::{zero,plus} metric_point list \<Rightarrow> 'd metric_instance \<Rightarrow> 'd metric_instance" where
  "record_batch [] inst = inst"
| "record_batch (p # ps) inst =
     record_batch ps
       (case pt_name p of
          None \<Rightarrow> inst
        | Some name \<Rightarrow>
            let k = (name, normalize_labels (pt_labels p)) in
            (case pt_type p of
               COUNTER \<Rightarrow> counter_add k (pt_value p) inst
             | GAUGE \<Rightarrow> gauge_put k (pt_value p) inst
             | _ \<Rightarrow> histogram_add k (pt_value p) inst))"

definition counter_inc ::
  "string option \<Rightarrow> 'd::{zero,plus} \<Rightarrow> (string option \<times> string option) list \<Rightarrow> 'd metric_instance \<Rightarrow> int \<times> 'd metric_instance" where
  "counter_inc name v labels inst =
     (case name of None \<Rightarrow> (-1, inst) | Some n \<Rightarrow> (0, counter_add (n, normalize_labels labels) v inst))"

definition gauge_set ::
  "string option \<Rightarrow> 'd \<Rightarrow> (string option \<times> string option) list \<Rightarrow> 'd metric_instance \<Rightarrow> int \<times> 'd metric_instance" where
  "gauge_set name v labels inst =
     (case name of None \<Rightarrow> (-1, inst) | Some n \<Rightarrow> (0, gauge_put (n, normalize_labels labels) v inst))"

definition histogram_observe ::
  "string option \<Rightarrow> 'd::{zero,plus} \<Rightarrow> (string option \<times> string option) list \<Rightarrow> 'd metric_instance \<Rightarrow> int \<times> 'd metric_instance" where
  "histogram_observe name v labels inst =
     (case name of None \<Rightarrow> (-1, inst) | Some n \<Rightarrow> (0, histogram_add (n, normalize_labels labels) v inst))"

subsection \<open>Rendering\<close>

text \<open>The lines of the answer: the type of a metric, or a sample of a series.\<close>

datatype line = TypeLine string string | SampleLine string LabelVec string

fun line_text :: "line \<Rightarrow> string" where
  "line_text (TypeLine name kind) = ''# TYPE '' @ name @ '' '' @ kind @ [CHR 0x0A]"
| "line_text (SampleLine name labels v) = name @ format_labels labels @ '' '' @ v @ [CHR 0x0A]"

definition entries :: "(SeriesKey, 'v) umap \<Rightarrow> (SeriesKey \<times> 'v) list" where
  "entries m = map (\<lambda>k. (k, the (umap_find k m))) (sort (map fst m))"

fun render_section ::
  "string \<Rightarrow> (SeriesKey \<Rightarrow> 'v \<Rightarrow> line list) \<Rightarrow> string list \<Rightarrow> (SeriesKey \<times> 'v) list \<Rightarrow> string list \<times> line list" where
  "render_section kind sample seen [] = (seen, [])"
| "render_section kind sample seen ((k, v) # es) =
     (let is_new = \<not> List.member seen (fst k);
          (seen', ls) = render_section kind sample (if is_new then fst k # seen else seen) es in
      (seen', (if is_new then [TypeLine (fst k) kind] else []) @ sample k v @ ls))"

definition value_sample :: "('d \<Rightarrow> string) \<Rightarrow> SeriesKey \<Rightarrow> 'd \<Rightarrow> line list" where
  "value_sample show_value k v = [SampleLine (fst k) (snd k) (show_value v)]"

definition histogram_sample :: "('d \<Rightarrow> string) \<Rightarrow> SeriesKey \<Rightarrow> 'd \<times> u64 \<Rightarrow> line list" where
  "histogram_sample show_value k e =
     [SampleLine (fst k @ ''_sum'') (snd k) (show_value (fst e)),
      SampleLine (fst k @ ''_count'') (snd k) (to_string_nat (unat (snd e)))]"

definition render_lines :: "('d \<Rightarrow> string) \<Rightarrow> 'd metric_instance \<Rightarrow> line list" where
  "render_lines show_value inst =
     (let (seen1, ls1) = render_section ''counter'' (value_sample show_value) [] (entries (mi_counters inst));
          (seen2, ls2) = render_section ''gauge'' (value_sample show_value) seen1 (entries (mi_gauges inst));
          (_, ls3) = render_section ''histogram'' (histogram_sample show_value) seen2 (entries (mi_histograms inst)) in
      ls1 @ ls2 @ ls3)"

definition render :: "('d \<Rightarrow> string) \<Rightarrow> 'd metric_instance \<Rightarrow> string" where
  "render show_value inst = concat (map line_text (render_lines show_value inst))"

definition metrics_session :: "('d \<Rightarrow> string) \<Rightarrow> metrics_config \<Rightarrow> bool \<Rightarrow> string \<Rightarrow> 'd metric_instance \<Rightarrow> nat \<times> string" where
  "metrics_session show_value cfg is_get target inst =
     (if is_get \<and> target = mx_path cfg then (200, render show_value inst) else (404, ''not found'' @ [CHR 0x0A]))"

subsection \<open>Recording\<close>

lemma record_batch_fold: "record_batch ps inst = foldl (\<lambda>i p. snd (record_point p i)) inst ps"
  by (induction ps arbitrary: inst)
    (auto simp: record_point_def point_key_def Let_def split: option.splits metric_type.splits)

lemma normalize_labels_perm:
  assumes "mset kvs = mset kvs'"
  shows "normalize_labels kvs = normalize_labels kvs'"
proof -
  have f: "mset (List.map_filter f xs) = image_mset the (filter_mset (\<lambda>x. x \<noteq> None) (image_mset f (mset xs)))" for f :: "'a \<Rightarrow> 'b option" and xs
    by (induction xs) (auto simp: List.map_filter_simps split: option.split)
  from assms show ?thesis unfolding normalize_labels_def by (intro properties_for_sort) (simp_all add: f)
qed

text \<open>The values of a series, in the order they were recorded.\<close>

definition values_of :: "metric_type set \<Rightarrow> SeriesKey \<Rightarrow> 'd metric_point list \<Rightarrow> 'd list" where
  "values_of types k ps =
     map pt_value (filter (\<lambda>p. pt_type p \<in> types \<and> map_option (\<lambda>n. point_key n p) (pt_name p) = Some k) ps)"

lemma values_of_append: "values_of T k (ps @ qs) = values_of T k ps @ values_of T k qs"
  by (simp add: values_of_def)

lemma record_batch_snoc: "record_batch (ps @ [p]) inst = snd (record_point p (record_batch ps inst))"
  by (simp add: record_batch_fold)

lemma values_of_single:
  "values_of T k [p] = (if pt_type p \<in> T \<and> map_option (\<lambda>n. point_key n p) (pt_name p) = Some k then [pt_value p] else [])"
  by (simp add: values_of_def)

lemma recorded_values:
  fixes ps :: "'d::{zero,plus} metric_point list"
  defines "inst \<equiv> record_batch ps new_metric_instance"
  shows "umap_find k (mi_counters inst) =
      (let vs = values_of {COUNTER} k ps in if vs = [] then None else Some (foldl (+) 0 vs)) \<and>
    umap_find k (mi_gauges inst) = (let vs = values_of {GAUGE} k ps in if vs = [] then None else Some (last vs)) \<and>
    umap_find k (mi_histograms inst) =
      (let vs = values_of {HISTOGRAM, TIMER} k ps in if vs = [] then None else Some (foldl (+) 0 vs, of_nat (length vs)))"
  unfolding inst_def
proof (induction ps rule: rev_induct)
  case Nil
  then show ?case by (simp add: values_of_def new_metric_instance_def)
next
  case (snoc p ps)
  show ?case
  proof (cases "pt_name p")
    case None
    with snoc show ?thesis by (simp add: record_batch_snoc record_point_def values_of_append values_of_single)
  next
    case (Some n)
    with snoc show ?thesis
      by (cases "pt_type p")
        (auto simp: record_batch_snoc record_point_def values_of_append values_of_single counter_add_def gauge_put_def
          histogram_add_def Let_def split: if_splits option.splits)
  qed
qed

subsection \<open>Families\<close>

fun type_names :: "line list \<Rightarrow> string list" where
  "type_names [] = []"
| "type_names (TypeLine n _ # ls) = n # type_names ls"
| "type_names (SampleLine _ _ _ # ls) = type_names ls"

lemma type_names_append: "type_names (ls @ ls') = type_names ls @ type_names ls'"
  by (induction ls rule: type_names.induct) auto

lemma render_section_families:
  assumes "render_section kind sample seen es = (seen', ls)" "\<And>k v. type_names (sample k v) = []" "distinct seen"
  shows "distinct seen' \<and> set seen' = set seen \<union> (\<lambda>e. fst (fst e)) ` set es \<and> distinct (type_names ls) \<and>
    set (type_names ls) = set seen' - set seen \<and> (\<forall>(k, v) \<in> set es. set (sample k v) \<subseteq> set ls)"
  using assms(1,3)
proof (induction es arbitrary: seen seen' ls)
  case (Cons e es)
  obtain k v where e: "e = (k, v)" by fastforce
  let ?seen = "if List.member seen (fst k) then seen else fst k # seen"
  obtain ls' where r: "render_section kind sample ?seen es = (seen', ls')"
    and ls: "ls = (if List.member seen (fst k) then [] else [TypeLine (fst k) kind]) @ sample k v @ ls'"
    using Cons.prems(1) e by (auto simp: Let_def split: prod.splits if_splits)
  have "distinct ?seen" using Cons.prems(2) by simp
  from Cons.IH [OF r this] show ?case
    unfolding ls e using Cons.prems(2) by (auto simp: type_names_append assms(2))
qed simp

lemma entries_iff:
  assumes "umap_wf m"
  shows "(k, v) \<in> set (entries m) \<longleftrightarrow> umap_find k m = Some v"
proof -
  have "(\<exists>v. (k, v) \<in> set m) \<longleftrightarrow> k \<in> fst ` set m" by force
  then have "umap_find k m = None \<longleftrightarrow> k \<notin> fst ` set m" using umap_find_iff_mem [OF assms, of k] by (metis not_None_eq)
  then show ?thesis by (auto simp: entries_def)
qed

lemma entries_names: "(\<lambda>e. fst (fst e)) ` set (entries m) = fst ` fst ` set m"
  by (force simp: entries_def)

definition metric_names :: "'d metric_instance \<Rightarrow> string set" where
  "metric_names inst =
     fst ` fst ` set (mi_counters inst) \<union> fst ` fst ` set (mi_gauges inst) \<union> fst ` fst ` set (mi_histograms inst)"

definition sample_points :: "int metric_point list" where
  "sample_points =
     [\<lparr> pt_name = Some ''hits'', pt_type = COUNTER, pt_value = 2, pt_labels = [(Some ''b'', Some ''1''), (Some ''a'', Some ''2'')] \<rparr>,
      \<lparr> pt_name = Some ''hits'', pt_type = COUNTER, pt_value = 3, pt_labels = [(Some ''a'', Some ''2''), (Some ''b'', Some ''1'')] \<rparr>]"

subsection \<open>Properties\<close>

text \<open>
  C23. Recording a batch is recording its points one by one.  Afterwards a counter holds the sum of its
  values, a gauge the last one, a histogram the sum and the number of the values of its observations
  and timers; points whose labels differ in their order only belong to the same series.
\<close>

theorem metrics_record_correct:
  fixes ps :: "'d::{zero,plus} metric_point list"
  defines "inst \<equiv> record_batch ps new_metric_instance"
  shows "inst = foldl (\<lambda>i p. snd (record_point p i)) new_metric_instance ps \<and>
    umap_find k (mi_counters inst) =
      (let vs = values_of {COUNTER} k ps in if vs = [] then None else Some (foldl (+) 0 vs)) \<and>
    umap_find k (mi_gauges inst) = (let vs = values_of {GAUGE} k ps in if vs = [] then None else Some (last vs)) \<and>
    umap_find k (mi_histograms inst) =
      (let vs = values_of {HISTOGRAM, TIMER} k ps in if vs = [] then None else Some (foldl (+) 0 vs, of_nat (length vs))) \<and>
    (mset (pt_labels p) = mset (pt_labels q) \<longrightarrow> point_key n p = point_key n q)"
  unfolding inst_def using recorded_values [of k ps] record_batch_fold [of ps new_metric_instance]
  by (auto simp: point_key_def dest: normalize_labels_perm)

theorem metrics_record_correct_witness:
  "umap_find (''hits'', [(''a'', ''2''), (''b'', ''1'')]) (mi_counters (record_batch sample_points new_metric_instance)) = Some 5"
proof -
  have "values_of {COUNTER} (''hits'', [(''a'', ''2''), (''b'', ''1'')]) sample_points = [2, 3]" by code_simp
  then show ?thesis
    using metrics_record_correct [of sample_points "(''hits'', [(''a'', ''2''), (''b'', ''1'')])" "sample_points ! 0" "sample_points ! 1" "[]",
        THEN conjunct2, THEN conjunct1]
    by simp
qed

text \<open>
  C38. The page has exactly one type line for each metric name and a sample for every series.
\<close>

theorem metrics_render_families:
  assumes "umap_wf (mi_counters inst)" "umap_wf (mi_gauges inst)" "umap_wf (mi_histograms inst)"
  shows "distinct (type_names (render_lines show_value inst)) \<and>
    set (type_names (render_lines show_value inst)) = metric_names inst \<and>
    (\<forall>k v. umap_find k (mi_counters inst) = Some v \<or> umap_find k (mi_gauges inst) = Some v \<longrightarrow>
       SampleLine (fst k) (snd k) (show_value v) \<in> set (render_lines show_value inst)) \<and>
    (\<forall>k total n. umap_find k (mi_histograms inst) = Some (total, n) \<longrightarrow>
       SampleLine (fst k @ ''_sum'') (snd k) (show_value total) \<in> set (render_lines show_value inst) \<and>
       SampleLine (fst k @ ''_count'') (snd k) (to_string_nat (unat n)) \<in> set (render_lines show_value inst))"
proof -
  obtain s1 l1 where 1: "render_section ''counter'' (value_sample show_value) [] (entries (mi_counters inst)) = (s1, l1)" by fastforce
  obtain s2 l2 where 2: "render_section ''gauge'' (value_sample show_value) s1 (entries (mi_gauges inst)) = (s2, l2)" by fastforce
  obtain s3 l3 where 3: "render_section ''histogram'' (histogram_sample show_value) s2 (entries (mi_histograms inst)) = (s3, l3)" by fastforce
  have l: "render_lines show_value inst = l1 @ l2 @ l3" using 1 2 3 by (simp add: render_lines_def)
  have n: "type_names (value_sample show_value k v) = []" "type_names (histogram_sample show_value k e) = []" for k v e
    by (simp_all add: value_sample_def histogram_sample_def)
  note f1 = render_section_families [OF 1 n(1)]
  then have d1: "distinct s1" by simp
  note f2 = render_section_families [OF 2 n(1) d1]
  then have d2: "distinct s2" by simp
  note f3 = render_section_families [OF 3 n(2) d2]
  have names: "distinct (type_names (l1 @ l2 @ l3))" "set (type_names (l1 @ l2 @ l3)) = metric_names inst"
    using f1 f2 f3 by (auto simp: type_names_append metric_names_def entries_names)
  have c: "SampleLine (fst k) (snd k) (show_value v) \<in> set l1" if "umap_find k (mi_counters inst) = Some v" for k v
  proof -
    have "(k, v) \<in> set (entries (mi_counters inst))" using that entries_iff [OF assms(1)] by simp
    with f1 show ?thesis by (auto simp: value_sample_def)
  qed
  have g: "SampleLine (fst k) (snd k) (show_value v) \<in> set l2" if "umap_find k (mi_gauges inst) = Some v" for k v
  proof -
    have "(k, v) \<in> set (entries (mi_gauges inst))" using that entries_iff [OF assms(2)] by simp
    with f2 show ?thesis by (auto simp: value_sample_def)
  qed
  have h: "SampleLine (fst k @ ''_sum'') (snd k) (show_value total) \<in> set l3 \<and>
      SampleLine (fst k @ ''_count'') (snd k) (to_string_nat (unat m)) \<in> set l3"
    if "umap_find k (mi_histograms inst) = Some (total, m)" for k total m
  proof -
    have "(k, total, m) \<in> set (entries (mi_histograms inst))" using that entries_iff [OF assms(3)] by simp
    with f3 have "set (histogram_sample show_value k (total, m)) \<subseteq> set l3" by auto
    then show ?thesis by (simp add: histogram_sample_def)
  qed
  show ?thesis unfolding l using names c g h by auto
qed

theorem metrics_render_families_witness:
  "type_names (render_lines (\<lambda>_. ''v'') (record_batch sample_points new_metric_instance)) = [''hits''] \<and>
   metric_names (record_batch sample_points new_metric_instance) = {''hits''}"
proof -
  let ?i = "record_batch sample_points new_metric_instance"
  have wf: "umap_wf (mi_counters ?i)" "umap_wf (mi_gauges ?i)" "umap_wf (mi_histograms ?i)" by code_simp+
  have "type_names (render_lines (\<lambda>_. ''v'') ?i) = [''hits'']" by code_simp
  with metrics_render_families [OF wf, of "\<lambda>_. ''v''"] show ?thesis by simp
qed

text \<open>
  Label values are printed as they are: the quotes in a value make two different series print the
  same line.
\<close>

theorem label_values_not_escaped:
  "format_labels [(''a'', ''x'' @ [CHR 0x22] @ '',b='' @ [CHR 0x22] @ ''y'')] = format_labels [(''a'', ''x''), (''b'', ''y'')] \<and>
   normalize_labels [(Some ''a'', Some (''x'' @ [CHR 0x22] @ '',b='' @ [CHR 0x22] @ ''y''))] \<noteq>
     normalize_labels [(Some ''a'', Some ''x''), (Some ''b'', Some ''y'')]"
  by code_simp

end
