(* ===== verification/Core_Services.thy ===== *)
theory Core_Services
  imports Json_Sample "HOL-Library.Multiset"
begin

section \<open>Starters, the service registry and the RPC codec\<close>

text \<open>
  Three small parts of the runtime.
  \<^item> \<open>src/src/bootstrap/starter.cpp\<close>: the starters of a phase, kept in the order of their numbers.
    \<open>std_sort\<close> stands for \<open>std::sort\<close> by that number, which may reorder equal ones.  What a starter
    does is a parameter of it; the calls made are recorded.
  \<^item> \<open>src/src/core/service_registry.cpp\<close> and \<open>service_handle.cpp\<close>: names and handles.  The actor behind
    a handle is a value of any type; \<open>valid\<close> says whether it is alive.
  \<^item> \<open>src/src/transport/codec.cpp\<close>: the JSON codec of method and payload over the JSON library parameter.
\<close>

subsection \<open>Starters\<close>

datatype Phase = PRE_INIT | POST_SYSTEM_INIT | POST_CONFIG | POST_START | PRE_SHUTDOWN | POST_SHUTDOWN

record Starter =
  st_name :: string
  st_order :: int
  st_should_run :: "Phase \<Rightarrow> bool"
  st_execute :: "Phase \<Rightarrow> bool"

definition function_starter :: "string \<Rightarrow> int \<Rightarrow> (Phase \<Rightarrow> bool) \<Rightarrow> Starter" where
  "function_starter name order fn = \<lparr> st_name = name, st_order = order, st_should_run = (\<lambda>_. True), st_execute = fn \<rparr>"

definition register_starter :: "(Starter list \<Rightarrow> Starter list) \<Rightarrow> Starter \<Rightarrow> Starter list \<Rightarrow> Starter list" where
  "register_starter std_sort s starters = std_sort (starters @ [s])"

text \<open>The result of \<open>run_starters\<close> and the starters executed.\<close>

fun run_starters :: "Phase \<Rightarrow> Starter list \<Rightarrow> bool \<times> Starter list" where
  "run_starters phase [] = (True, [])"
| "run_starters phase (s # ss) =
     (if \<not> st_should_run s phase then run_starters phase ss
      else if \<not> st_execute s phase then (False, [s])
      else map_prod id (Cons s) (run_starters phase ss))"

lemma run_starters_effect:
  "case run_starters phase ss of (ok, run) \<Rightarrow>
     (ok \<longleftrightarrow> (\<forall>s \<in> set ss. st_should_run s phase \<longrightarrow> st_execute s phase)) \<and>
     (\<exists>rest. filter (\<lambda>s. st_should_run s phase) ss = run @ rest \<and> (ok \<longrightarrow> rest = [])) \<and>
     (\<forall>s \<in> set (butlast run). st_execute s phase) \<and>
     (\<not> ok \<longrightarrow> run \<noteq> [] \<and> \<not> st_execute (last run) phase)"
proof (induction ss)
  case (Cons s ss)
  obtain ok run where r: "run_starters phase ss = (ok, run)" by fastforce
  with Cons show ?case by (cases run) auto
qed simp

subsection \<open>Handles and the registry\<close>

record 'a ServiceHandle =
  sh_holder :: "'a option"
  sh_name :: string
  sh_is_local :: bool

definition default_handle :: "'a ServiceHandle" where
  "default_handle = \<lparr> sh_holder = None, sh_name = [], sh_is_local = True \<rparr>"

text \<open>The moved-to handle and what is left of the one moved from; a moved-from string is empty.\<close>

definition move_handle :: "'a ServiceHandle \<Rightarrow> 'a ServiceHandle \<times> 'a ServiceHandle" where
  "move_handle h = (h, h\<lparr> sh_holder := None, sh_name := [] \<rparr>)"

definition handle_is_valid :: "('a \<Rightarrow> bool) \<Rightarrow> 'a ServiceHandle \<Rightarrow> bool" where
  "handle_is_valid valid h = (case sh_holder h of Some a \<Rightarrow> valid a | None \<Rightarrow> False)"

definition handle_to_string :: "('a \<Rightarrow> bool) \<Rightarrow> 'a ServiceHandle \<Rightarrow> string" where
  "handle_to_string valid h =
     (if \<not> handle_is_valid valid h then ''shield://invalid'' else ''shield://local/'' @ sh_name h)"

type_synonym 'a ServiceRegistry = "(string, 'a ServiceHandle) umap"

definition register_service :: "string \<Rightarrow> 'a ServiceHandle \<Rightarrow> 'a ServiceRegistry \<Rightarrow> 'a ServiceRegistry \<times> bool" where
  "register_service name h r = umap_emplace name h r"

definition unregister_service :: "string \<Rightarrow> 'a ServiceRegistry \<Rightarrow> 'a ServiceRegistry \<times> bool" where
  "unregister_service name r = (if \<not> umap_contains name r then (r, False) else (umap_erase name r, True))"

definition find_service :: "'a ServiceRegistry \<Rightarrow> string \<Rightarrow> 'a ServiceHandle" where
  "find_service r name = (case umap_find name r of None \<Rightarrow> default_handle | Some h \<Rightarrow> h)"

definition has_service :: "'a ServiceRegistry \<Rightarrow> string \<Rightarrow> bool" where
  "has_service r name = umap_contains name r"

definition list_services :: "'a ServiceRegistry \<Rightarrow> string list" where
  "list_services r = map fst r"

text \<open>A name keeps the handle it was first registered with until it is unregistered.\<close>

lemma register_service_effect:
  "snd (register_service n h r) = (\<not> has_service r n)"
  "find_service (fst (register_service n h r)) k = (if k = n \<and> \<not> has_service r n then h else find_service r k)"
  by (auto simp: register_service_def has_service_def find_service_def)

lemma unregister_service_effect:
  "snd (unregister_service n r) = has_service r n"
  "find_service (fst (unregister_service n r)) k = (if k = n then default_handle else find_service r k)"
  "has_service (fst (unregister_service n r)) k \<longleftrightarrow> k \<noteq> n \<and> has_service r k"
  by (auto simp: unregister_service_def has_service_def find_service_def split: option.splits)

lemma registry_names:
  assumes "umap_wf r"
  shows "distinct (list_services r)" "set (list_services r) = {n. has_service r n}"
proof -
  show "distinct (list_services r)" using assms by (simp add: list_services_def umap_wf_def)
  show "set (list_services r) = {n. has_service r n}"
    using umap_find_iff_mem [OF assms] by (force simp: list_services_def has_service_def)
qed

subsection \<open>The RPC codec\<close>

definition rpc_encode :: "'j json_api \<Rightarrow> string \<Rightarrow> string \<Rightarrow> string + bytes" where
  "rpc_encode J meth payload =
     js_dump J (js_set J (js_set J (js_object J) ''method'' (js_of_string J meth)) ''payload'' (js_of_string J payload))"

text \<open>
  The result and the two output strings; an exception ends the function with what was assigned so far.
\<close>

definition rpc_decode :: "'j json_api \<Rightarrow> bytes \<Rightarrow> string \<times> string \<Rightarrow> bool \<times> string \<times> string" where
  "rpc_decode J data out =
     (case js_parse J data of
        Inl _ \<Rightarrow> (False, out)
      | Inr j \<Rightarrow>
          (case (if js_contains J j ''method'' then js_get_string J (js_at J j ''method'') else Inr (fst out)) of
             Inl _ \<Rightarrow> (False, out)
           | Inr meth \<Rightarrow>
               (case (if js_contains J j ''payload'' then js_get_string J (js_at J j ''payload'') else Inr (snd out)) of
                  Inl _ \<Rightarrow> (False, meth, snd out)
                | Inr payload \<Rightarrow> (True, meth, payload))))"

definition create_codec :: "string \<Rightarrow> bool" where
  "create_codec name \<longleftrightarrow> name = ''json''"

lemma rpc_roundtrip:
  assumes "json_laws J"
    and "json_stable J (js_set J (js_set J (js_object J) ''method'' (js_of_string J meth)) ''payload'' (js_of_string J payload))"
  shows "\<exists>b. rpc_encode J meth payload = Inr b \<and> rpc_decode J b out = (True, meth, payload)"
proof -
  from assms(2) obtain b where b: "rpc_encode J meth payload = Inr b"
    "js_parse J b = Inr (js_set J (js_set J (js_object J) ''method'' (js_of_string J meth)) ''payload'' (js_of_string J payload))"
    by (auto simp: json_stable_def rpc_encode_def)
  then have "rpc_decode J b out = (True, meth, payload)" by (simp add: rpc_decode_def json_rules [OF assms(1)])
  with b(1) show ?thesis by blast
qed

subsection \<open>Properties\<close>

definition by_order :: "(Starter list \<Rightarrow> Starter list) \<Rightarrow> bool" where
  "by_order std_sort \<longleftrightarrow> (\<forall>ss. mset (std_sort ss) = mset ss \<and> sorted (map st_order (std_sort ss)))"

text \<open>
  C39. Starters run in the order of their numbers whatever order they were registered in: what a phase
  runs is a prefix of the starters that ask for it, in ascending order in every phase, those of the shutdown
  included; it is all of them when every one succeeds, and else it ends with the first that fails, after
  which nothing is run or undone.
\<close>

theorem starters_run_in_order:
  assumes "by_order std_sort" "foldl (\<lambda>r s. register_starter std_sort s r) [] registered = starters"
    and "run_starters phase starters = (ok, run)"
  shows "mset starters = mset registered \<and> sorted (map st_order run) \<and>
    (\<exists>rest. filter (\<lambda>s. st_should_run s phase) starters = run @ rest) \<and>
    (ok \<longleftrightarrow> (\<forall>s \<in> set registered. st_should_run s phase \<longrightarrow> st_execute s phase)) \<and>
    (ok \<longrightarrow> mset run = filter_mset (\<lambda>s. st_should_run s phase) (mset registered)) \<and>
    (\<forall>s \<in> set (butlast run). st_execute s phase) \<and> (\<not> ok \<longrightarrow> run \<noteq> [] \<and> \<not> st_execute (last run) phase)"
proof -
  have "mset (foldl (\<lambda>r s. register_starter std_sort s r) r ss) = mset r + mset ss \<and>
      (sorted (map st_order r) \<longrightarrow> sorted (map st_order (foldl (\<lambda>r s. register_starter std_sort s r) r ss)))" for r ss
    using assms(1) by (induction ss arbitrary: r) (simp_all add: register_starter_def by_order_def)
  from this [of "[]" registered] assms(2) have m: "mset starters = mset registered" and s: "sorted (map st_order starters)"
    by auto
  from run_starters_effect [where phase = phase and ss = starters] assms(3) obtain rest where
    r: "filter (\<lambda>s. st_should_run s phase) starters = run @ rest" "ok \<longrightarrow> rest = []"
    and e: "ok \<longleftrightarrow> (\<forall>s \<in> set starters. st_should_run s phase \<longrightarrow> st_execute s phase)"
    "\<forall>s \<in> set (butlast run). st_execute s phase" "\<not> ok \<longrightarrow> run \<noteq> [] \<and> \<not> st_execute (last run) phase"
    by auto
  have "sorted (map st_order (run @ rest))" using sorted_filter [OF s, of "\<lambda>s. st_should_run s phase"] r(1) by simp
  moreover have "set starters = set registered" using mset_eq_setD [OF m] .
  moreover have "mset run = filter_mset (\<lambda>s. st_should_run s phase) (mset registered)" if ok
    using r that m by (metis append_Nil2 mset_filter)
  ultimately show ?thesis using m e r(1) by (auto simp: sorted_append)
qed

theorem starters_run_in_order_witness:
  "map st_name (snd (run_starters POST_START (foldl (\<lambda>r s. register_starter (sort_key st_order) s r) []
     [function_starter ''net'' 200 (\<lambda>_. False), function_starter ''log'' 10 (\<lambda>_. True)]))) = [''log'', ''net''] \<and>
   \<not> fst (run_starters POST_START (foldl (\<lambda>r s. register_starter (sort_key st_order) s r) []
     [function_starter ''net'' 200 (\<lambda>_. False), function_starter ''log'' 10 (\<lambda>_. True)]))"
proof -
  let ?reg = "[function_starter ''net'' 200 (\<lambda>_. False), function_starter ''log'' 10 (\<lambda>_. True)]"
  let ?ss = "foldl (\<lambda>r s. register_starter (sort_key st_order) s r) [] ?reg"
  have "by_order (sort_key st_order)" by (simp add: by_order_def)
  from starters_run_in_order [OF this refl, where registered = ?reg and phase = POST_START
      and ok = "fst (run_starters POST_START ?ss)" and run = "snd (run_starters POST_START ?ss)"]
  have "\<not> fst (run_starters POST_START ?ss)" by (simp add: function_starter_def)
  moreover have "map st_name (snd (run_starters POST_START ?ss)) = [''log'', ''net'']" by code_simp
  ultimately show ?thesis by blast
qed

end
