(* ===== verification/Base64url.thy ===== *)
theory Base64url
  imports Shield_Prelude
begin

section \<open>The base64url codec of the token plugin\<close>

text \<open>
  \<open>b64url_encode\<close> and \<open>b64url_decode\<close> of \<open>plugins/auth_jwt/shield_auth_jwt.cpp\<close>, loop for loop: \<open>val\<close> is
  the 32-bit accumulator, whose high bits are shifted out, and \<open>valb\<close> the number of the bit that the next
  character or byte ends at.  The decoder skips every character outside the alphabet.
\<close>

definition b64url_table :: string where
  "b64url_table = ''ABCDEFGHIJKLMNOPQRSTUVWXYZabcdefghijklmnopqrstuvwxyz0123456789-_''"

text \<open>The character for six bits of the accumulator from \<open>shift\<close> on.\<close>

definition b64url_char :: "u32 \<Rightarrow> int \<Rightarrow> char" where
  "b64url_char val shift = b64url_table ! unat (signed_drop_bit (nat shift) val AND 0x3F)"

function b64url_flush :: "u32 \<Rightarrow> int \<Rightarrow> string \<times> int" where
  "b64url_flush val valb =
     (if 0 \<le> valb then map_prod ((#) (b64url_char val valb)) id (b64url_flush val (valb - 6)) else ([], valb))"
  by pat_completeness auto
termination by (relation "measure (\<lambda>(_, valb). nat (valb + 6))") auto

declare b64url_flush.simps [simp del]

fun b64url_encode_loop :: "u32 \<Rightarrow> int \<Rightarrow> bytes \<Rightarrow> string" where
  "b64url_encode_loop val valb [] = (if valb > -6 then [b64url_char (push_bit 8 val) (valb + 8)] else [])"
| "b64url_encode_loop val valb (b # bs) =
     (let val' = push_bit 8 val OR ucast b; (out, valb') = b64url_flush val' (valb + 8) in
      out @ b64url_encode_loop val' valb' bs)"

definition b64url_encode :: "bytes \<Rightarrow> string" where
  "b64url_encode data = b64url_encode_loop 0 (-6) data"

definition b64url_val :: "char \<Rightarrow> int" where
  "b64url_val c =
     (let n = of_char c in
      if 65 \<le> n \<and> n \<le> 90 then n - 65
      else if 97 \<le> n \<and> n \<le> 122 then n - 97 + 26
      else if 48 \<le> n \<and> n \<le> 57 then n - 48 + 52
      else if c = CHR ''-'' then 62
      else if c = CHR ''_'' then 63
      else -1)"

fun b64url_decode_loop :: "u32 \<Rightarrow> int \<Rightarrow> string \<Rightarrow> bytes" where
  "b64url_decode_loop val valb [] = []"
| "b64url_decode_loop val valb (c # cs) =
     (let d = b64url_val c in
      if d < 0 then b64url_decode_loop val valb cs
      else
        let val' = push_bit 6 val OR word_of_int d; valb' = valb + 6 in
        if 0 \<le> valb' then ucast (signed_drop_bit (nat valb') val' AND 0xFF) # b64url_decode_loop val' (valb' - 8) cs
        else b64url_decode_loop val' valb' cs)"

definition b64url_decode :: "string \<Rightarrow> bytes" where
  "b64url_decode s = b64url_decode_loop 0 (-8) s"

subsection \<open>Characters and their values\<close>

lemma b64url_table_length: "length b64url_table = 64"
  by (simp add: b64url_table_def)

lemma b64url_val_table: "i < 64 \<Longrightarrow> b64url_val (b64url_table ! i) = int i"
proof -
  have "map b64url_val b64url_table = map int [0..<64]" by code_simp
  then have "map b64url_val b64url_table ! i = map int [0..<64] ! i" by simp
  then show "b64url_val (b64url_table ! i) = int i" if "i < 64"
    using that by (simp add: b64url_table_length)
qed

lemma and_63: "(w :: u32) AND 63 = take_bit 6 w"
  by (simp add: take_bit_eq_mask mask_eq_exp_minus_1)

lemma sextet_less: "unat ((w :: u32) AND 63) < 64"
  using take_bit_nat_less_exp [of 6 "unat w"] by (simp add: and_63 unsigned_take_bit_eq)

lemma b64url_val_char: "b64url_val (b64url_char val k) = int (unat (signed_drop_bit (nat k) val AND 63))"
  by (simp add: b64url_char_def b64url_val_table sextet_less)

lemma decode_char:
  "b64url_decode_loop v b (b64url_char val k # cs) =
     (let v' = push_bit 6 v OR (signed_drop_bit (nat k) val AND 63) in
      if 0 \<le> b + 6 then ucast (signed_drop_bit (nat (b + 6)) v' AND 0xFF) # b64url_decode_loop v' (b - 2) cs
      else b64url_decode_loop v' (b + 6) cs)"
  by (simp add: b64url_val_char Let_def)

lemma flush_steps:
  "b64url_flush val 2 = ([b64url_char val 2], -4)"
  "b64url_flush val 4 = ([b64url_char val 4], -2)"
  "b64url_flush val 6 = ([b64url_char val 6, b64url_char val 0], -6)"
  by (simp_all add: b64url_flush.simps [of val] )

subsection \<open>Three bytes are four characters\<close>

text \<open>
  The accumulators keep bits of earlier groups, so the groups are stated for any accumulator: three bytes
  go to four characters and back, and a last group of one or two bytes to two or three.
\<close>

lemma u8_bit_beyond: "8 \<le> n \<Longrightarrow> \<not> bit (x :: u8) n"
  using bit_imp_le_length [of x n] by auto

lemma group_bytes:
  fixes v w :: u32 and a b c :: u8
  defines "a' \<equiv> push_bit 8 w OR ucast a"
  defines "b' \<equiv> push_bit 8 a' OR ucast b"
  defines "c' \<equiv> push_bit 8 b' OR ucast c"
  defines "v1 \<equiv> push_bit 6 v OR (signed_drop_bit 2 a' AND 63)"
  defines "v2 \<equiv> push_bit 6 v1 OR (signed_drop_bit 4 b' AND 63)"
  defines "v3 \<equiv> push_bit 6 v2 OR (signed_drop_bit 6 c' AND 63)"
  defines "v4 \<equiv> push_bit 6 v3 OR (c' AND 63)"
  defines "e2 \<equiv> push_bit 6 v1 OR (signed_drop_bit 4 (push_bit 8 a') AND 63)"
  defines "e3 \<equiv> push_bit 6 v2 OR (signed_drop_bit 6 (push_bit 8 b') AND 63)"
  shows "ucast (signed_drop_bit 4 v2) = a"
    and "ucast (signed_drop_bit 2 v3) = b"
    and "ucast (v4) = c"
    and "ucast (signed_drop_bit 4 e2) = a"
    and "ucast (signed_drop_bit 2 e3) = b"
proof -
  have cases8: "P n" if "n < LENGTH(8)" "P 0" "P 1" "P 2" "P 3" "P 4" "P 5" "P 6" "P 7" for P :: "nat \<Rightarrow> bool" and n
    using that by (auto simp: less_Suc_eq numeral_eq_Suc)
  note bits = and_63 bit_simps bit_signed_drop_bit_iff u8_bit_beyond a'_def b'_def c'_def v1_def v2_def v3_def v4_def e2_def e3_def
  show "ucast (signed_drop_bit 4 v2) = a"
    by (rule bit_word_eqI, erule cases8) (simp_all add: bits)
  show "ucast (signed_drop_bit 2 v3) = b"
    by (rule bit_word_eqI, erule cases8) (simp_all add: bits)
  show "ucast (v4) = c"
    by (rule bit_word_eqI, erule cases8) (simp_all add: bits)
  show "ucast (signed_drop_bit 4 e2) = a"
    by (rule bit_word_eqI, erule cases8) (simp_all add: bits)
  show "ucast (signed_drop_bit 2 e3) = b"
    by (rule bit_word_eqI, erule cases8) (simp_all add: bits)
qed

fun triples :: "'a list \<Rightarrow> nat" where
  "triples (a # b # c # xs) = Suc (triples xs)"
| "triples xs = 0"

lemma b64url_loops_inverse: "b64url_decode_loop v (-8) (b64url_encode_loop w (-6) bs) = bs"
proof (induction bs arbitrary: v w rule: triples.induct)
  case (1 a b c xs)
  then show ?case
    by (simp add: flush_steps decode_char Let_def group_bytes
        del: push_bit_or push_bit_push_bit b64url_decode_loop.simps(2))
qed (simp_all add: flush_steps decode_char Let_def group_bytes
    del: push_bit_or push_bit_push_bit b64url_decode_loop.simps(2))

lemma b64url_decode_encode: "b64url_decode (b64url_encode data) = data"
  by (simp add: b64url_decode_def b64url_encode_def b64url_loops_inverse)

end
