(* ===== verification/Auth_Jwt.thy ===== *)
theory Auth_Jwt
  imports Base64url Plugin_Json
begin

section \<open>The token plugin\<close>

text \<open>
  \<open>plugins/auth_jwt/shield_auth_jwt.cpp\<close>: tokens signed with HMAC-SHA256, their verification and the
  operations of the \<open>shield.auth.v1\<close> table.  The HMAC of OpenSSL is a parameter (\<open>None\<close>: it fails) and so
  is the clock.  Times are 64-bit; \<open>None\<close> is a signed overflow, which is undefined behaviour.
\<close>

definition INT64_MAX :: int where
  "INT64_MAX = 9223372036854775807"

definition i64 :: "int \<Rightarrow> int option" where
  "i64 i = (if - INT64_MAX - 1 \<le> i \<and> i \<le> INT64_MAX then Some i else None)"

definition to_string_int :: "int \<Rightarrow> string" where
  "to_string_int i = (if i < 0 then CHR ''-'' # to_string_nat (nat (- i)) else to_string_nat (nat i))"

type_synonym hmac_fn = "string \<Rightarrow> string \<Rightarrow> bytes option"

definition hmac_sha256 :: "hmac_fn \<Rightarrow> string \<Rightarrow> string \<Rightarrow> bytes" where
  "hmac_sha256 H key msg = (case H key msg of None \<Rightarrow> [] | Some md \<Rightarrow> md)"

definition ct_equal :: "bytes \<Rightarrow> bytes \<Rightarrow> bool" where
  "ct_equal a b = (if length a \<noteq> length b then False else a = b)"

definition auth_escape_char :: "char \<Rightarrow> string" where
  "auth_escape_char c =
     (if c = CHR 0x08 then [CHR 0x5C, CHR ''b'']
      else if c = CHR 0x0C then [CHR 0x5C, CHR ''f'']
      else escape_char c)"

definition auth_json_escape :: "string \<Rightarrow> string" where
  "auth_json_escape s = concat (map auth_escape_char s)"

definition auth_json_get_int :: "string \<Rightarrow> string \<Rightarrow> int option" where
  "auth_json_get_int j key =
     (case key_value j key of
        None \<Rightarrow> Some 0
      | Some s \<Rightarrow>
          let neg = (s \<noteq> [] \<and> hd s = CHR ''-'') in
          map_option (\<lambda>(v, found). if found then (if neg then - v else v) else 0)
            (read_digits INT64_MAX 0 False (if neg then tl s else s)))"

record auth_config =
  ac_secret :: string
  ac_issuer :: string
  ac_audience :: string
  ac_token_ttl_seconds :: int
  ac_leeway_seconds :: int

definition default_auth_config :: auth_config where
  "default_auth_config =
     \<lparr> ac_secret = [], ac_issuer = [], ac_audience = [], ac_token_ttl_seconds = 3600, ac_leeway_seconds = 60 \<rparr>"

definition auth_get_int :: "string \<Rightarrow> string \<Rightarrow> int \<Rightarrow> int option" where
  "auth_get_int s key def = map_option (\<lambda>v. if v \<noteq> 0 then to_int32 v else def) (auth_json_get_int s key)"

definition parse_auth_config :: "string option \<Rightarrow> auth_config option" where
  "parse_auth_config config_json =
     (case config_json of
        None \<Rightarrow> Some default_auth_config
      | Some s \<Rightarrow>
          Option.bind (auth_get_int s ''token_ttl_seconds'' (ac_token_ttl_seconds default_auth_config)) (\<lambda>ttl.
          Option.bind (auth_get_int s ''leeway_seconds'' (ac_leeway_seconds default_auth_config)) (\<lambda>leeway.
          Some \<lparr> ac_secret = json_get_string s ''secret'', ac_issuer = json_get_string s ''issuer'',
                 ac_audience = json_get_string s ''audience'', ac_token_ttl_seconds = ttl,
                 ac_leeway_seconds = leeway \<rparr>)))"

record auth_instance =
  ai_instance_id :: string
  ai_cfg :: auth_config
  ai_blacklist :: "string set"

text \<open>\<open>auth_create\<close>: \<open>Inl\<close> is the error code and message.\<close>

definition auth_create :: "string option \<Rightarrow> string option \<Rightarrow> (string \<times> string + auth_instance) option" where
  "auth_create instance_id config_json =
     map_option (\<lambda>cfg.
       if ac_secret cfg = [] then Inl (''plugin.config.invalid'', ''auth.jwt: '' @ [CHR 0x27] @ ''secret'' @ [CHR 0x27] @ '' is required'')
       else Inr \<lparr> ai_instance_id = (case instance_id of None \<Rightarrow> [] | Some i \<Rightarrow> i), ai_cfg = cfg, ai_blacklist = {} \<rparr>)
     (parse_auth_config config_json)"

subsection \<open>Tokens\<close>

definition jwt_header_json :: string where
  "jwt_header_json = ''{'' @ dquoted ''alg'' @ '':'' @ dquoted ''HS256'' @ '','' @ dquoted ''typ'' @ '':'' @ dquoted ''JWT'' @ ''}''"

definition jwt_payload :: "auth_config \<Rightarrow> int \<Rightarrow> int \<Rightarrow> string \<Rightarrow> string" where
  "jwt_payload cfg iat expiry user_id =
     ''{'' @ dquoted ''sub'' @ '':'' @ dquoted (auth_json_escape user_id)
     @ '','' @ dquoted ''iat'' @ '':'' @ to_string_int iat
     @ '','' @ dquoted ''exp'' @ '':'' @ to_string_int expiry
     @ (if ac_issuer cfg \<noteq> [] then '','' @ dquoted ''iss'' @ '':'' @ dquoted (auth_json_escape (ac_issuer cfg)) else [])
     @ (if ac_audience cfg \<noteq> [] then '','' @ dquoted ''aud'' @ '':'' @ dquoted (auth_json_escape (ac_audience cfg)) else [])
     @ ''}''"

definition create_jwt :: "hmac_fn \<Rightarrow> auth_config \<Rightarrow> int \<Rightarrow> string \<Rightarrow> string option" where
  "create_jwt H cfg now user_id =
     map_option (\<lambda>expiry.
       let header_b64 = b64url_encode (map of_char jwt_header_json);
           payload_b64 = b64url_encode (map of_char (jwt_payload cfg now expiry user_id));
           signing_input = header_b64 @ ''.'' @ payload_b64;
           sig_b64 = b64url_encode (hmac_sha256 H (ac_secret cfg) signing_input) in
       signing_input @ ''.'' @ sig_b64)
     (i64 (now + ac_token_ttl_seconds cfg))"

text \<open>The two dots of a token: what is signed, the payload and the signature.\<close>

definition split_token :: "string \<Rightarrow> (string \<times> string \<times> string) option" where
  "split_token token =
     (case find_pos (\<lambda>c. c = CHR ''.'') token of
        None \<Rightarrow> None
      | Some dot1 \<Rightarrow>
          (case find_pos (\<lambda>c. c = CHR ''.'') (drop (dot1 + 1) token) of
             None \<Rightarrow> None
           | Some n \<Rightarrow>
               let dot2 = dot1 + 1 + n in
               Some (take dot2 token, take (dot2 - dot1 - 1) (drop (dot1 + 1) token), drop (dot2 + 1) token)))"

text \<open>The claims of a payload at time \<open>now\<close>: the first that fails, or the subject.\<close>

definition check_claims :: "auth_config \<Rightarrow> int \<Rightarrow> string \<Rightarrow> (string + string) option" where
  "check_claims cfg now payload =
     Option.bind (auth_json_get_int payload ''exp'') (\<lambda>expiry.
     Option.bind (if expiry = 0 then Some False else map_option (\<lambda>t. now > t) (i64 (expiry + ac_leeway_seconds cfg))) (\<lambda>expired.
     if expired then Some (Inl ''token_expired'')
     else
       Option.bind (auth_json_get_int payload ''iat'') (\<lambda>iat.
       Option.bind (if iat = 0 then Some False else map_option (\<lambda>t. t < iat) (i64 (now + ac_leeway_seconds cfg))) (\<lambda>early.
       Some
         (if early then Inl ''token_not_yet_valid''
          else if ac_issuer cfg \<noteq> [] \<and> json_get_string payload ''iss'' \<noteq> ac_issuer cfg then Inl ''invalid_issuer''
          else if ac_audience cfg \<noteq> [] \<and> json_get_string payload ''aud'' \<noteq> ac_audience cfg then Inl ''invalid_audience''
          else let user_id = json_get_string payload ''sub'' in
               if user_id = [] then Inl ''missing_subject'' else Inr user_id)))))"

definition verify_jwt :: "hmac_fn \<Rightarrow> auth_config \<Rightarrow> int \<Rightarrow> string \<Rightarrow> (string + string) option" where
  "verify_jwt H cfg now token =
     (case split_token token of
        None \<Rightarrow> Some (Inl ''invalid_token_format'')
      | Some (signing_input, payload_b64, sig_b64) \<Rightarrow>
          if \<not> ct_equal (hmac_sha256 H (ac_secret cfg) signing_input) (b64url_decode sig_b64)
          then Some (Inl ''invalid_signature'')
          else check_claims cfg now (map (\<lambda>b. char_of (unat b)) (b64url_decode payload_b64)))"

subsection \<open>The operations of the table\<close>

record auth_result =
  ar_success :: int
  ar_error_code :: "string option"
  ar_error_msg :: "string option"
  ar_user_id :: "string option"
  ar_token :: "string option"
  ar_token_expiry_ms :: int
  ar_roles_json :: "string option"
  ar_extra_json :: "string option"

text \<open>\<open>dup_cstr\<close> copies up to the first NUL.\<close>

definition dup_cstr :: "string \<Rightarrow> string option" where
  "dup_cstr s = Some (takeWhile (\<lambda>c. c \<noteq> CHR 0x00) s)"

definition authenticate ::
  "hmac_fn \<Rightarrow> int \<Rightarrow> auth_instance \<Rightarrow> string option \<Rightarrow> auth_result \<Rightarrow> (int \<times> auth_result) option" where
  "authenticate H now inst token out =
     (case token of
        None \<Rightarrow> Some (-1, out)
      | Some t \<Rightarrow>
          if t \<in> ai_blacklist inst then
            Some (-1, out\<lparr> ar_success := 0, ar_error_code := dup_cstr ''token_revoked'',
                           ar_error_msg := dup_cstr ''token has been invalidated'' \<rparr>)
          else
            map_option (\<lambda>r. case r of
                Inr user_id \<Rightarrow>
                  (0, \<lparr> ar_success = 1, ar_error_code = None, ar_error_msg = None, ar_user_id = dup_cstr user_id,
                        ar_token = None, ar_token_expiry_ms = 0, ar_roles_json = None, ar_extra_json = None \<rparr>)
              | Inl err \<Rightarrow>
                  (-1, \<lparr> ar_success = 0, ar_error_code = dup_cstr err, ar_error_msg = dup_cstr err, ar_user_id = None,
                         ar_token = None, ar_token_expiry_ms = 0, ar_roles_json = None, ar_extra_json = None \<rparr>))
            (verify_jwt H (ai_cfg inst) now t))"

text \<open>\<open>authorize\<close> allows everything; the result is the flag and no reason.\<close>

definition authorize :: "string \<Rightarrow> string \<Rightarrow> string \<Rightarrow> int \<times> int \<times> string option" where
  "authorize user_id resource action = (0, 1, None)"

text \<open>The clock is read three times: by the verification, for the new token and for its expiry.\<close>

definition refresh_token ::
  "hmac_fn \<Rightarrow> int \<Rightarrow> int \<Rightarrow> int \<Rightarrow> auth_instance \<Rightarrow> string option \<Rightarrow> auth_result \<Rightarrow> (int \<times> auth_result) option" where
  "refresh_token H now1 now2 now3 inst token out =
     (case token of
        None \<Rightarrow> Some (-1, out)
      | Some t \<Rightarrow>
          Option.bind (verify_jwt H (ai_cfg inst) now1 t) (\<lambda>r.
          case r of
            Inl err \<Rightarrow> Some (-1, out\<lparr> ar_success := 0, ar_error_code := dup_cstr err, ar_error_msg := dup_cstr err \<rparr>)
          | Inr user_id \<Rightarrow>
              Option.bind (create_jwt H (ai_cfg inst) now2 user_id) (\<lambda>new_token.
              Option.bind (i64 (now3 + ac_token_ttl_seconds (ai_cfg inst))) (\<lambda>e.
              Option.bind (i64 (e * 1000)) (\<lambda>expiry_ms.
              Some (0, \<lparr> ar_success = 1, ar_error_code = None, ar_error_msg = None, ar_user_id = dup_cstr user_id,
                         ar_token = dup_cstr new_token, ar_token_expiry_ms = expiry_ms, ar_roles_json = None,
                         ar_extra_json = None \<rparr>))))))"

definition invalidate :: "auth_instance \<Rightarrow> string option \<Rightarrow> int \<times> auth_instance" where
  "invalidate inst token =
     (case token of
        None \<Rightarrow> (-1, inst)
      | Some t \<Rightarrow> (0, inst\<lparr> ai_blacklist := insert t (ai_blacklist inst) \<rparr>))"

subsection \<open>Searching a text for a key\<close>

lemma has_prefix_separator: "c \<notin> set pat \<Longrightarrow> has_prefix pat (A @ c # B) = has_prefix pat A"
proof (induction pat A rule: has_prefix.induct)
  case (2 x xs)
  then show ?case by (cases "x = c") auto
qed auto

lemma has_prefix_self: "has_prefix pat (pat @ B)"
  by (induction pat) auto

lemma after_first_skip:
  assumes "c \<notin> set pat" "pat \<noteq> []" "\<not> contains_substring pat A"
  shows "after_first pat (A @ c # B) = after_first pat B"
  using assms
proof (induction A)
  case Nil
  have "\<not> has_prefix pat (c # B)"
    using Nil has_prefix_separator [of c pat "[]" B] by (cases pat) auto
  then show ?case by simp
next
  case (Cons x A)
  then show ?case using has_prefix_separator [of c pat "x # A" B] by simp
qed

lemma after_first_hit: "pat \<noteq> [] \<Longrightarrow> after_first pat (pat @ B) = Some B"
  using has_prefix_self [of pat B] by (cases pat) auto

lemma contains_substring_separator:
  assumes "c \<notin> set pat" "pat \<noteq> []"
  shows "contains_substring pat (A @ c # B) \<longleftrightarrow> contains_substring pat A \<or> contains_substring pat B"
proof (induction A)
  case Nil
  have "\<not> has_prefix pat (c # B)"
    using assms has_prefix_separator [of c pat "[]" B] by (cases pat) auto
  then show ?case using assms by simp
next
  case (Cons x A)
  then show ?case using has_prefix_separator [of c pat "x # A" B] assms by simp
qed

lemma contains_substring_subset: "contains_substring pat A \<Longrightarrow> set pat \<subseteq> set A"
  by (auto simp: contains_substring_iff)

lemma key_value_after:
  assumes "\<not> contains_substring (dquoted k) A" "c \<notin> set (dquoted k)"
  shows "key_value (A @ c # dquoted k @ CHR '':'' # V) k = Some (dropWhile space_or_tab V)"
proof -
  have "dquoted k \<noteq> []" by (simp add: dquoted_def)
  then have "after_first (dquoted k) (A @ c # dquoted k @ CHR '':'' # V) = Some (CHR '':'' # V)"
    using assms by (simp add: after_first_skip after_first_hit)
  then show ?thesis by (simp add: key_value_def)
qed

text \<open>A quoted text without inner quotes holds a quoted key only when it is that key.\<close>

lemma dquoted_in_dquoted:
  assumes "CHR 0x22 \<notin> set s" "contains_substring (dquoted k) (dquoted s)"
  shows "s = k"
proof -
  obtain us vs where eq: "dquoted s = us @ dquoted k @ vs"
    using assms(2) by (auto simp: contains_substring_iff)
  let ?q = "\<lambda>xs. length (filter (\<lambda>c. c = CHR 0x22) xs)"
  have "?q (dquoted s) = 2" using assms(1) by (auto simp: dquoted_def filter_empty_conv)
  moreover have "?q (dquoted k) \<ge> 2" by (simp add: dquoted_def)
  moreover have "?q (dquoted s) = ?q us + ?q (dquoted k) + ?q vs" using eq by simp
  ultimately have none: "?q us = 0" "?q vs = 0" by linarith+
  have "us = []"
  proof (cases us)
    case (Cons u us')
    then have "u = CHR 0x22" using eq by (simp add: dquoted_def)
    then show ?thesis using none Cons by simp
  qed simp
  moreover have "vs = []"
  proof (rule ccontr)
    assume "vs \<noteq> []"
    then have "last vs = CHR 0x22" using arg_cong [OF eq, of last] by (simp add: dquoted_def)
    then have "CHR 0x22 \<in> set vs" using \<open>vs \<noteq> []\<close> last_in_set by metis
    then show False using none by (auto simp: filter_empty_conv)
  qed
  ultimately show ?thesis using eq by (simp add: dquoted_def)
qed

subsection \<open>Numbers and escaped texts\<close>

lemma read_digits_stop: "cs = [] \<or> \<not> (48 \<le> (of_char (hd cs) :: nat) \<and> (of_char (hd cs) :: nat) \<le> 57) \<Longrightarrow> read_digits hi v f cs = Some (v, f)"
  by (cases cs) auto

lemma digit_char: "k < 10 \<Longrightarrow> (of_char (char_of (48 + k) :: char) :: nat) = 48 + k" for k :: nat
  by simp

lemma digit_char_int: "k < 10 \<Longrightarrow> (of_char (char_of (48 + k) :: char) :: int) = 48 + int k" for k :: nat
  using digit_char [of k] by (metis of_nat_add of_nat_numeral of_nat_of_char)

lemma read_digit_step:
  "k < 10 \<Longrightarrow> w * 10 + int k \<le> hi \<Longrightarrow>
   read_digits hi w f (char_of (48 + k) # cs) = read_digits hi (w * 10 + int k) True cs" for k :: nat
  using digit_char [of k] digit_char_int [of k] by simp

lemma read_digits_nat:
  assumes "0 \<le> v" "v * 10 ^ length (to_string_nat n) + int n \<le> hi"
  shows "read_digits hi v f (to_string_nat n @ cs) = read_digits hi (v * 10 ^ length (to_string_nat n) + int n) True cs"
  using assms
proof (induction n arbitrary: v f cs rule: to_string_nat.induct)
  case (1 n)
  show ?case
  proof (cases "n < 10")
    case True
    then have digits: "to_string_nat n = [char_of (48 + n)]" by (simp add: to_string_nat.simps)
    then show ?thesis using 1(3) True by (simp add: digit_char digit_char_int)
  next
    case False
    let ?m = "n div 10" and ?d = "n mod 10"
    let ?w = "v * 10 ^ length (to_string_nat ?m) + int ?m"
    have digits: "to_string_nat n = to_string_nat ?m @ [char_of (48 + ?d)]"
      using False by (subst to_string_nat.simps) simp
    have n: "int n = int ?m * 10 + int ?d"
      by (metis div_mult_mod_eq of_nat_add of_nat_mult of_nat_numeral)
    have total: "v * 10 ^ length (to_string_nat n) + int n = ?w * 10 + int ?d"
      using n by (simp add: digits algebra_simps)
    have up: "0 \<le> w \<Longrightarrow> w \<le> w * 10 + int ?d" for w :: int by linarith
    have "0 \<le> ?w" using 1(2) by simp
    then have "?w \<le> hi" using 1(3) total up [of ?w] by (metis order_trans)
    then have "read_digits hi v f (to_string_nat ?m @ (char_of (48 + ?d) # cs))
        = read_digits hi ?w True (char_of (48 + ?d) # cs)"
      using 1(1) [OF False 1(2)] by blast
    moreover have "read_digits hi ?w True (char_of (48 + ?d) # cs) = read_digits hi (?w * 10 + int ?d) True cs"
      using 1(3) total by (intro read_digit_step) simp_all
    ultimately have "read_digits hi v f (to_string_nat ?m @ (char_of (48 + ?d) # cs)) = read_digits hi (?w * 10 + int ?d) True cs"
      by (rule trans)
    then show ?thesis unfolding total unfolding digits by (simp only: append_assoc append_Cons append_Nil)
  qed
qed

lemma to_string_nat_hd:
  "to_string_nat n \<noteq> [] \<and> 48 \<le> (of_char (hd (to_string_nat n)) :: nat) \<and> (of_char (hd (to_string_nat n)) :: nat) \<le> 57"
proof (induction n rule: to_string_nat.induct)
  case (1 n)
  then show ?case by (subst (1 2 3) to_string_nat.simps) (auto simp: digit_char)
qed

lemma auth_json_get_int_found:
  assumes key: "key_value j k = Some (dropWhile space_or_tab (to_string_int i @ c # rest))"
    and i: "0 \<le> i" "i \<le> INT64_MAX" and stop: "c = CHR '','' \<or> c = CHR ''}''"
  shows "auth_json_get_int j k = Some i"
proof -
  let ?ds = "to_string_nat (nat i)"
  obtain d ds where ds: "?ds = d # ds" using to_string_nat_hd [of "nat i"] by (cases ?ds) auto
  then have d: "48 \<le> (of_char d :: nat)" using to_string_nat_hd [of "nat i"] by simp
  then have nospace: "\<not> space_or_tab d" "d \<noteq> CHR ''-''" by (auto simp: space_or_tab_def)
  then have val: "key_value j k = Some (?ds @ c # rest)"
    using key i(1) ds by (simp add: to_string_int_def)
  have "read_digits INT64_MAX 0 False (?ds @ c # rest) = read_digits INT64_MAX i True (c # rest)"
    using read_digits_nat [of 0 "nat i" INT64_MAX False "c # rest"] i by simp
  also have "\<dots> = Some (i, True)" using stop by (intro read_digits_stop) auto
  finally show ?thesis using val ds nospace(2) by (auto simp: auth_json_get_int_def)
qed

text \<open>Identifiers of printable characters other than the quote.\<close>

definition plain_id :: "string \<Rightarrow> bool" where
  "plain_id s \<longleftrightarrow> (\<forall>c \<in> set s. 32 \<le> (of_char c :: nat) \<and> c \<noteq> CHR 0x22)"

lemma auth_escape_plain:
  assumes "32 \<le> (of_char c :: nat)" "c \<noteq> CHR 0x22"
  shows "auth_escape_char c = (if c = CHR 0x5C then [c, c] else [c])"
  using assms by (auto simp: auth_escape_char_def escape_char_def)

lemma escape_no_quote: "plain_id s \<Longrightarrow> CHR 0x22 \<notin> set (auth_json_escape s)"
  by (induction s) (auto simp: plain_id_def auth_json_escape_def auth_escape_plain)

lemma string_body_step: "c \<noteq> CHR 0x22 \<Longrightarrow> c \<noteq> CHR 0x5C \<Longrightarrow> string_body (c # r) = c # string_body r"
  by (cases r) auto

lemma string_body_quote [simp]: "string_body (CHR 0x22 # r) = []"
  by (cases r) auto

lemma string_body_escape: "plain_id s \<Longrightarrow> string_body (auth_json_escape s @ CHR 0x22 # r) = s"
  by (induction s) (auto simp: plain_id_def auth_json_escape_def auth_escape_plain string_body_step)

lemma string_body_plain: "plain_text k \<Longrightarrow> string_body (k @ CHR 0x22 # r) = k"
  by (induction k) (auto simp: plain_text_def string_body_step)

lemma escape_not_key: "plain_id s \<Longrightarrow> plain_text k \<Longrightarrow> s \<noteq> k \<Longrightarrow> auth_json_escape s \<noteq> k"
  using string_body_escape [of s "[]"] string_body_plain [of k "[]"] by metis

lemma dquoted_escape_free:
  assumes "plain_id s" "plain_text k" "s \<noteq> k"
  shows "\<not> contains_substring (dquoted k) (dquoted (auth_json_escape s))"
  using dquoted_in_dquoted [OF escape_no_quote [OF assms(1)]] escape_not_key [OF assms] by blast

lemma json_get_string_found:
  assumes "key_value j k = Some (dropWhile space_or_tab (dquoted (auth_json_escape s) @ rest))" "plain_id s"
  shows "json_get_string j k = s"
  using assms string_body_escape [of s rest] by (simp add: json_get_string_def dquoted_def space_or_tab_def)

lemma number_free: "\<not> contains_substring (dquoted k) (to_string_int i)"
proof
  assume "contains_substring (dquoted k) (to_string_int i)"
  then have "CHR 0x22 \<in> set (to_string_int i)"
    using contains_substring_subset by (force simp: dquoted_def)
  then show False
    using to_string_nat_plain by (auto simp: to_string_int_def plain_text_def split: if_splits)
qed

subsection \<open>The claims of a payload\<close>

text \<open>The members of a payload after the first, each after its comma.\<close>

definition claims :: "(string \<times> string) list \<Rightarrow> string" where
  "claims kvs = concat (map (\<lambda>(k, v). CHR '','' # dquoted k @ CHR '':'' # v) kvs)"

definition key_text :: "string \<Rightarrow> bool" where
  "key_text k \<longleftrightarrow> plain_text k \<and> CHR '','' \<notin> set k \<and> CHR '':'' \<notin> set k \<and> CHR ''{'' \<notin> set k"

lemma key_text_separators:
  "key_text k \<Longrightarrow> dquoted k \<noteq> []" "key_text k \<Longrightarrow> CHR '','' \<notin> set (dquoted k)"
  "key_text k \<Longrightarrow> CHR '':'' \<notin> set (dquoted k)" "key_text k \<Longrightarrow> CHR ''{'' \<notin> set (dquoted k)"
  by (auto simp: key_text_def dquoted_def)

lemma other_key_free: "key_text k' \<Longrightarrow> k' \<noteq> k \<Longrightarrow> \<not> contains_substring (dquoted k) (dquoted k')"
  using dquoted_in_dquoted [of k' k] by (auto simp: key_text_def plain_text_def)

lemma claims_free:
  assumes "key_text k" "\<not> contains_substring (dquoted k) A"
    and "\<forall>(k', v) \<in> set kvs. key_text k' \<and> k' \<noteq> k \<and> \<not> contains_substring (dquoted k) v"
  shows "\<not> contains_substring (dquoted k) (A @ claims kvs)"
  using assms(2,3)
proof (induction kvs arbitrary: A)
  case (Cons kv kvs)
  obtain k' v where kv: "kv = (k', v)" by fastforce
  have "\<not> contains_substring (dquoted k) (A @ CHR '','' # dquoted k' @ CHR '':'' # v)"
    using Cons.prems kv assms(1) other_key_free [of k' k]
    by (simp add: contains_substring_separator key_text_separators)
  from Cons.IH [OF this] Cons.prems show ?case by (simp add: kv claims_def)
qed (simp add: claims_def)

lemma claims_lookup:
  assumes "key_text k" "\<not> contains_substring (dquoted k) A"
    and "\<forall>(k', v) \<in> set kvs. key_text k' \<and> k' \<noteq> k \<and> \<not> contains_substring (dquoted k) v"
  shows "key_value (A @ claims (kvs @ [(k, v)]) @ T) k = Some (dropWhile space_or_tab (v @ T))"
  using key_value_after [OF claims_free [OF assms] key_text_separators(2) [OF assms(1)], of "v @ T"]
  by (simp add: claims_def)

lemma claims_append: "claims (xs @ ys) = claims xs @ claims ys"
  by (simp add: claims_def)

lemma claims_end: "\<exists>c r. claims kvs @ ''}'' = c # r \<and> (c = CHR '','' \<or> c = CHR ''}'')"
  by (cases kvs) (auto simp: claims_def)

lemma claim_int_found:
  assumes "key_value j k = Some (dropWhile space_or_tab (to_string_int i @ claims kvs @ ''}''))" "0 \<le> i" "i \<le> INT64_MAX"
  shows "auth_json_get_int j k = Some i"
  using assms claims_end [of kvs] auth_json_get_int_found [of j k i] by auto

lemma jwt_payload_claims:
  assumes user: "plain_id user" "user \<notin> {''exp'', ''iat'', ''iss'', ''aud''}"
    and issuer: "plain_id (ac_issuer cfg)" "ac_issuer cfg \<noteq> ''aud''"
    and audience: "plain_id (ac_audience cfg)"
    and times: "0 \<le> iat" "iat \<le> INT64_MAX" "0 \<le> e" "e \<le> INT64_MAX"
  defines "P \<equiv> jwt_payload cfg iat e user"
  shows "json_get_string P ''sub'' = user"
    and "auth_json_get_int P ''iat'' = Some iat"
    and "auth_json_get_int P ''exp'' = Some e"
    and "ac_issuer cfg \<noteq> [] \<Longrightarrow> json_get_string P ''iss'' = ac_issuer cfg"
    and "ac_audience cfg \<noteq> [] \<Longrightarrow> json_get_string P ''aud'' = ac_audience cfg"
proof -
  let ?text = "\<lambda>s. dquoted (auth_json_escape s)"
  define sub where "sub = CHR ''{'' # dquoted ''sub'' @ CHR '':'' # ?text user"
  let ?times = "[(''iat'', to_string_int iat), (''exp'', to_string_int e)]"
  define iss where "iss = (if ac_issuer cfg \<noteq> [] then [(''iss'', ?text (ac_issuer cfg))] else [])"
  define aud where "aud = (if ac_audience cfg \<noteq> [] then [(''aud'', ?text (ac_audience cfg))] else [])"
  have P: "P = sub @ claims (?times @ iss @ aud) @ ''}''"
    by (simp add: P_def jwt_payload_def sub_def iss_def aud_def claims_def)
  have keys: "key_text ''sub''" "key_text ''exp''" "key_text ''iat''" "key_text ''iss''" "key_text ''aud''"
    by (simp_all add: key_text_def plain_text_def)
  have sub_free: "\<not> contains_substring (dquoted k) sub" if "key_text k" "k \<noteq> ''sub''" "user \<noteq> k" for k
  proof -
    have "plain_text k" using that(1) by (simp add: key_text_def)
    then have "\<not> contains_substring (dquoted k) (?text user)"
      using dquoted_escape_free [OF user(1)] that(3) by blast
    moreover have "\<not> contains_substring (dquoted k) (CHR ''{'' # dquoted ''sub'')"
      using contains_substring_separator [of "CHR ''{''" "dquoted k" "[]" "dquoted ''sub''"]
        other_key_free [OF keys(1)] that key_text_separators [OF that(1)] by auto
    ultimately show ?thesis
      using contains_substring_separator [of "CHR '':''" "dquoted k" "CHR ''{'' # dquoted ''sub''" "?text user"]
        key_text_separators [OF that(1)] by (simp add: sub_def)
  qed
  show "json_get_string P ''sub'' = user"
    using key_value_after [of "''sub''" "[]" "CHR ''{''" "?text user @ claims (?times @ iss @ aud) @ ''}''"]
      key_text_separators [OF keys(1)]
    by (intro json_get_string_found [OF _ user(1)]) (simp add: P sub_def key_value_def dquoted_def)
  have "key_value (sub @ claims ([] @ [(''iat'', to_string_int iat)]) @ claims ((''exp'', to_string_int e) # iss @ aud) @ ''}'') ''iat''
      = Some (dropWhile space_or_tab (to_string_int iat @ claims ((''exp'', to_string_int e) # iss @ aud) @ ''}''))"
    using user(2) keys by (intro claims_lookup sub_free) simp_all
  from claim_int_found [OF this times(1,2)] show "auth_json_get_int P ''iat'' = Some iat"
    by (simp add: P claims_def)
  have "key_value (sub @ claims ([(''iat'', to_string_int iat)] @ [(''exp'', to_string_int e)]) @ claims (iss @ aud) @ ''}'') ''exp''
      = Some (dropWhile space_or_tab (to_string_int e @ claims (iss @ aud) @ ''}''))"
    using user(2) keys by (intro claims_lookup sub_free) (simp_all add: number_free)
  from claim_int_found [OF this times(3,4)] show "auth_json_get_int P ''exp'' = Some e"
    by (simp add: P claims_def)
  have "key_value (sub @ claims (?times @ [(''iss'', ?text (ac_issuer cfg))]) @ claims aud @ ''}'') ''iss''
      = Some (dropWhile space_or_tab (?text (ac_issuer cfg) @ claims aud @ ''}''))"
    using user(2) keys by (intro claims_lookup sub_free) (simp_all add: number_free)
  from json_get_string_found [OF this issuer(1)]
  show "json_get_string P ''iss'' = ac_issuer cfg" if "ac_issuer cfg \<noteq> []"
    using that by (simp add: P claims_def iss_def)
  have "\<not> contains_substring (dquoted ''aud'') (?text (ac_issuer cfg))"
    using issuer by (intro dquoted_escape_free) (simp_all add: plain_text_def)
  then have "key_value (sub @ claims ((?times @ iss) @ [(''aud'', ?text (ac_audience cfg))]) @ ''}'') ''aud''
      = Some (dropWhile space_or_tab (?text (ac_audience cfg) @ ''}''))"
    using user(2) keys by (intro claims_lookup sub_free) (auto simp: number_free iss_def)
  from json_get_string_found [OF this audience]
  show "json_get_string P ''aud'' = ac_audience cfg" if "ac_audience cfg \<noteq> []"
    using that by (simp add: P claims_def aud_def)
qed

subsection \<open>The parts of a token\<close>

lemma b64url_char_no_dot: "b64url_char v k \<noteq> CHR ''.''"
proof -
  have "b64url_char v k \<in> set b64url_table"
    unfolding b64url_char_def by (rule nth_mem) (simp add: b64url_table_length sextet_less)
  then show ?thesis by (auto simp: b64url_table_def)
qed

lemma b64url_flush_no_dot: "CHR ''.'' \<notin> set (fst (b64url_flush v b))"
proof (induction v b rule: b64url_flush.induct)
  case (1 v b)
  then show ?case using b64url_char_no_dot [of v b] by (subst b64url_flush.simps) auto
qed

lemma b64url_encode_no_dot: "CHR ''.'' \<notin> set (b64url_encode data)"
proof -
  have "CHR ''.'' \<notin> set (b64url_encode_loop v b data)" for v b
  proof (induction data arbitrary: v b)
    case Nil
    then show ?case using b64url_char_no_dot [symmetric] by simp
  next
    case (Cons x data)
    then show ?case
      using b64url_flush_no_dot [of "push_bit 8 v OR ucast x" "b + 8"]
      by (simp add: Let_def split_beta)
  qed
  then show ?thesis by (simp add: b64url_encode_def)
qed

lemma find_pos_dot: "CHR ''.'' \<notin> set h \<Longrightarrow> find_pos (\<lambda>c. c = CHR ''.'') (h @ CHR ''.'' # t) = Some (length h)"
  by (induction h) auto

lemma split_token_parts:
  assumes "CHR ''.'' \<notin> set h" "CHR ''.'' \<notin> set p"
  shows "split_token (h @ CHR ''.'' # p @ CHR ''.'' # sg) = Some (h @ CHR ''.'' # p, p, sg)"
  using find_pos_dot [OF assms(1), of "p @ CHR ''.'' # sg"] find_pos_dot [OF assms(2), of sg]
  by (simp add: split_token_def Let_def)

lemma split_token_Some:
  assumes "split_token token = Some (si, p, sg)"
  shows "\<exists>h. si = h @ CHR ''.'' # p \<and> token = si @ CHR ''.'' # sg \<and> CHR ''.'' \<notin> set h \<and> CHR ''.'' \<notin> set p"
proof -
  obtain i where i: "find_pos (\<lambda>c. c = CHR ''.'') token = Some i"
    and "split_token token \<noteq> None" using assms by (auto simp: split_token_def split: option.splits)
  then obtain n where n: "find_pos (\<lambda>c. c = CHR ''.'') (drop (i + 1) token) = Some n"
    by (auto simp: split_token_def split: option.splits)
  let ?h = "take i token" and ?r = "drop (i + 1) token"
  have h: "token = ?h @ CHR ''.'' # ?r" "CHR ''.'' \<notin> set ?h"
    using find_pos_Some [OF i] id_take_nth_drop [of i token] by auto
  have r: "?r = take n ?r @ CHR ''.'' # drop (n + 1) ?r" "CHR ''.'' \<notin> set (take n ?r)"
    using find_pos_Some [OF n] id_take_nth_drop [of n ?r] by auto
  have "token = ?h @ CHR ''.'' # take n ?r @ CHR ''.'' # drop (n + 1) ?r" using h(1) r(1) by metis
  then have "split_token token = Some (?h @ CHR ''.'' # take n ?r, take n ?r, drop (n + 1) ?r)"
    using split_token_parts [OF h(2) r(2)] by metis
  then show ?thesis using assms h r by auto
qed

lemma chars_of_bytes: "map (\<lambda>b. char_of (unat b)) (map of_char s :: bytes) = s"
proof -
  have "char_of (unat (of_char c :: u8)) = c" for c :: char
  proof -
    have "(of_char c :: nat) < 2 ^ 8" by simp
    then have "unat (of_nat (of_char c) :: u8) = of_char c"
      by (simp add: unsigned_of_nat take_bit_nat_eq_self)
    moreover have "(of_char c :: u8) = of_nat (of_char c)" by (simp add: of_char_def)
    ultimately show ?thesis by simp
  qed
  then show ?thesis by (simp add: map_idI)
qed

subsection \<open>Properties\<close>

lemma verify_signed:
  assumes "create_jwt H cfg t user = Some token"
  shows "verify_jwt H cfg now token = check_claims cfg now (jwt_payload cfg t (t + ac_token_ttl_seconds cfg) user)"
proof -
  let ?h = "b64url_encode (map of_char jwt_header_json)"
  let ?p = "b64url_encode (map of_char (jwt_payload cfg t (t + ac_token_ttl_seconds cfg) user))"
  let ?s = "b64url_encode (hmac_sha256 H (ac_secret cfg) (?h @ CHR ''.'' # ?p))"
  have "token = ?h @ CHR ''.'' # ?p @ CHR ''.'' # ?s"
    using assms by (auto simp: create_jwt_def i64_def Let_def split: if_splits)
  then have "split_token token = Some (?h @ CHR ''.'' # ?p, ?p, ?s)"
    using split_token_parts [OF b64url_encode_no_dot b64url_encode_no_dot] by metis
  then show ?thesis
    by (simp add: verify_jwt_def ct_equal_def b64url_decode_encode chars_of_bytes del: map_map)
qed

lemma check_claims_ok:
  assumes "auth_json_get_int P ''exp'' = Some e" "i64 (e + ac_leeway_seconds cfg) = Some e'" "now \<le> e'"
    and "auth_json_get_int P ''iat'' = Some i" "i64 (now + ac_leeway_seconds cfg) = Some n'" "i \<le> n'"
    and "ac_issuer cfg = [] \<or> json_get_string P ''iss'' = ac_issuer cfg"
    and "ac_audience cfg = [] \<or> json_get_string P ''aud'' = ac_audience cfg"
    and "json_get_string P ''sub'' = user" "user \<noteq> []"
  shows "check_claims cfg now P = Some (Inr user)"
  using assms by (auto simp: check_claims_def)

text \<open>
  C14. A token the plugin creates verifies to the user it was created for, whatever the HMAC is, from the
  leeway before its creation to the leeway after its expiry, when the user and the configured issuer and
  audience are printable texts without quotes, the user is not named like a claim and the issuer not
  like the audience claim.
\<close>

theorem token_roundtrip:
  assumes "create_jwt H cfg t user = Some token"
    and "user \<noteq> []" "plain_id user" "user \<notin> {''exp'', ''iat'', ''iss'', ''aud''}"
    and "plain_id (ac_issuer cfg)" "ac_issuer cfg \<noteq> ''aud''" "plain_id (ac_audience cfg)"
    and "0 \<le> t" "t \<le> INT64_MAX" "0 \<le> t + ac_token_ttl_seconds cfg"
    and "0 \<le> now" "t \<le> now + ac_leeway_seconds cfg" "now \<le> t + ac_token_ttl_seconds cfg + ac_leeway_seconds cfg"
    and "now + ac_leeway_seconds cfg \<le> INT64_MAX" "t + ac_token_ttl_seconds cfg + ac_leeway_seconds cfg \<le> INT64_MAX"
  shows "verify_jwt H cfg now token = Some (Inr user)"
proof -
  let ?e = "t + ac_token_ttl_seconds cfg"
  have e: "?e \<le> INT64_MAX" using assms(1) by (auto simp: create_jwt_def i64_def split: if_splits)
  note found = jwt_payload_claims [OF assms(3-9) assms(10) e]
  have "i64 (?e + ac_leeway_seconds cfg) = Some (?e + ac_leeway_seconds cfg)"
    and "i64 (now + ac_leeway_seconds cfg) = Some (now + ac_leeway_seconds cfg)"
    using assms by (simp_all add: i64_def INT64_MAX_def)
  then have "check_claims cfg now (jwt_payload cfg t ?e user) = Some (Inr user)"
    using assms(2,12,13) found by (intro check_claims_ok) auto
  then show ?thesis using verify_signed [OF assms(1)] by simp
qed

definition sample_hmac :: hmac_fn where
  "sample_hmac key msg = Some [of_nat (length key + length msg), 7]"

definition sample_auth :: auth_config where
  "sample_auth =
     \<lparr> ac_secret = ''k'', ac_issuer = ''shield'', ac_audience = [], ac_token_ttl_seconds = 60, ac_leeway_seconds = 5 \<rparr>"

lemma sample_created: "\<exists>token. create_jwt sample_hmac sample_auth 1000 user = Some token"
  by (simp add: create_jwt_def sample_auth_def i64_def INT64_MAX_def)

theorem token_roundtrip_witness:
  "\<exists>token. create_jwt sample_hmac sample_auth 1000 ''ann'' = Some token
     \<and> verify_jwt sample_hmac sample_auth 1030 token = Some (Inr ''ann'')"
proof -
  obtain token where "create_jwt sample_hmac sample_auth 1000 ''ann'' = Some token"
    using sample_created by blast
  moreover from token_roundtrip [OF this, of 1030] have "verify_jwt sample_hmac sample_auth 1030 token = Some (Inr ''ann'')"
    by (simp add: sample_auth_def plain_id_def INT64_MAX_def)
  ultimately show ?thesis by blast
qed

lemma check_claims_Inr:
  assumes "check_claims cfg now P = Some (Inr user)"
  shows "user = json_get_string P ''sub'' \<and> user \<noteq> [] \<and>
    (\<exists>e. auth_json_get_int P ''exp'' = Some e \<and> (e = 0 \<or> now \<le> e + ac_leeway_seconds cfg)) \<and>
    (\<exists>i. auth_json_get_int P ''iat'' = Some i \<and> (i = 0 \<or> i \<le> now + ac_leeway_seconds cfg)) \<and>
    (ac_issuer cfg = [] \<or> json_get_string P ''iss'' = ac_issuer cfg) \<and>
    (ac_audience cfg = [] \<or> json_get_string P ''aud'' = ac_audience cfg)"
proof -
  obtain e x where e: "auth_json_get_int P ''exp'' = Some e"
    "(if e = 0 then Some False else map_option (\<lambda>t. now > t) (i64 (e + ac_leeway_seconds cfg))) = Some x" "\<not> x"
    using assms by (auto simp: check_claims_def bind_eq_Some_conv split: if_splits)
  obtain i y where i: "auth_json_get_int P ''iat'' = Some i"
    "(if i = 0 then Some False else map_option (\<lambda>t. t < i) (i64 (now + ac_leeway_seconds cfg))) = Some y"
    and rest: "(if y then Inl ''token_not_yet_valid''
          else if ac_issuer cfg \<noteq> [] \<and> json_get_string P ''iss'' \<noteq> ac_issuer cfg then Inl ''invalid_issuer''
          else if ac_audience cfg \<noteq> [] \<and> json_get_string P ''aud'' \<noteq> ac_audience cfg then Inl ''invalid_audience''
          else let user_id = json_get_string P ''sub'' in
               if user_id = [] then Inl ''missing_subject'' else Inr user_id) = Inr user"
    using assms e unfolding check_claims_def by (simp only: bind.simps if_False bind_eq_Some_conv option.inject) blast
  have "e = 0 \<or> now \<le> e + ac_leeway_seconds cfg" using e by (auto simp: i64_def split: if_splits)
  moreover have "i = 0 \<or> i \<le> now + ac_leeway_seconds cfg" if "\<not> y" using i that by (auto simp: i64_def split: if_splits)
  ultimately show ?thesis using e(1) i(1) rest by (simp add: Let_def split: if_splits)
qed

text \<open>
  C15. A token that verifies carries the HMAC of everything before its last part, a subject, and claims that
  hold: it has not expired, was not issued in the future and names the configured issuer and audience.
\<close>

theorem verify_jwt_sound:
  assumes "verify_jwt H cfg now token = Some (Inr user)"
  shows "\<exists>signed sig header body e i.
      token = signed @ ''.'' @ sig \<and> signed = header @ ''.'' @ body \<and>
      b64url_decode sig = hmac_sha256 H (ac_secret cfg) signed \<and>
      (let payload = map (\<lambda>b. char_of (unat b)) (b64url_decode body) in
       user = json_get_string payload ''sub'' \<and> user \<noteq> [] \<and>
       auth_json_get_int payload ''exp'' = Some e \<and> (e = 0 \<or> now \<le> e + ac_leeway_seconds cfg) \<and>
       auth_json_get_int payload ''iat'' = Some i \<and> (i = 0 \<or> i \<le> now + ac_leeway_seconds cfg) \<and>
       (ac_issuer cfg = [] \<or> json_get_string payload ''iss'' = ac_issuer cfg) \<and>
       (ac_audience cfg = [] \<or> json_get_string payload ''aud'' = ac_audience cfg))"
proof -
  obtain si p sg where parts: "split_token token = Some (si, p, sg)"
    and sig: "ct_equal (hmac_sha256 H (ac_secret cfg) si) (b64url_decode sg)"
    and claims: "check_claims cfg now (map (\<lambda>b. char_of (unat b)) (b64url_decode p)) = Some (Inr user)"
    using assms by (auto simp: verify_jwt_def split: option.splits if_splits)
  obtain h where "si = h @ CHR ''.'' # p" "token = si @ CHR ''.'' # sg" using split_token_Some [OF parts] by blast
  moreover have "b64url_decode sg = hmac_sha256 H (ac_secret cfg) si"
    using sig by (simp add: ct_equal_def split: if_splits)
  moreover obtain e i where "auth_json_get_int (map (\<lambda>b. char_of (unat b)) (b64url_decode p)) ''exp'' = Some e"
    and "e = 0 \<or> now \<le> e + ac_leeway_seconds cfg"
    and "auth_json_get_int (map (\<lambda>b. char_of (unat b)) (b64url_decode p)) ''iat'' = Some i"
    and "i = 0 \<or> i \<le> now + ac_leeway_seconds cfg"
    using check_claims_Inr [OF claims] by blast
  ultimately show ?thesis
    using check_claims_Inr [OF claims] unfolding Let_def
    by - (rule exI [of _ si], rule exI [of _ sg], rule exI [of _ h], rule exI [of _ p],
        rule exI [of _ e], rule exI [of _ i], auto)
qed

theorem verify_jwt_sound_witness:
  "\<exists>token signed sig. create_jwt sample_hmac sample_auth 1000 ''ann'' = Some token \<and> token = signed @ ''.'' @ sig \<and>
     b64url_decode sig = hmac_sha256 sample_hmac (ac_secret sample_auth) signed"
proof -
  obtain token where made: "create_jwt sample_hmac sample_auth 1000 ''ann'' = Some token"
    using sample_created by blast
  have "check_claims sample_auth 1030 (jwt_payload sample_auth 1000 (1000 + ac_token_ttl_seconds sample_auth) ''ann'') = Some (Inr ''ann'')"
    by code_simp
  then have "verify_jwt sample_hmac sample_auth 1030 token = Some (Inr ''ann'')"
    using verify_signed [OF made] by simp
  from verify_jwt_sound [OF this] made show ?thesis by blast
qed

text \<open>The refresh does not look at the blacklist, so a revoked token still gives a new one.\<close>

lemma refresh_ignores_blacklist:
  "refresh_token H t1 t2 t3 (snd (invalidate inst tok)) t out = refresh_token H t1 t2 t3 inst t out"
  by (simp add: refresh_token_def invalidate_def split: option.splits)

text \<open>
  C24. \<open>authenticate\<close> refuses a token that was invalidated as revoked, whatever was invalidated before and
  after it, and writes only \<open>success\<close> and the two error texts of the result. The blacklist is all that
  \<open>invalidate\<close> changes, and \<open>refresh_token\<close> does not look at it: it answers every token, the revoked
  one too, as if nothing had been invalidated.
\<close>

theorem revoked_token_rejected:
  assumes "Some t \<in> set ts"
  shows "authenticate H now (fold (\<lambda>tok inst. snd (invalidate inst tok)) ts inst) (Some t) out =
    Some (-1, out\<lparr> ar_success := 0, ar_error_code := Some ''token_revoked'',
                   ar_error_msg := Some ''token has been invalidated'' \<rparr>) \<and>
    refresh_token H t1 t2 t3 (fold (\<lambda>tok inst. snd (invalidate inst tok)) ts inst) tok out =
    refresh_token H t1 t2 t3 inst tok out"
proof -
  have refresh: "refresh_token H t1 t2 t3 (fold (\<lambda>tok inst. snd (invalidate inst tok)) us i) tok out =
      refresh_token H t1 t2 t3 i tok out" for us i
    by (induction us arbitrary: i) (simp_all add: refresh_ignores_blacklist)
  have keep: "x \<in> ai_blacklist i \<Longrightarrow> x \<in> ai_blacklist (fold (\<lambda>tok inst. snd (invalidate inst tok)) us i)" for x us i
    by (induction us arbitrary: i) (auto simp: invalidate_def split: option.splits)
  have "t \<in> ai_blacklist (fold (\<lambda>tok inst. snd (invalidate inst tok)) ts inst)"
    using assms
  proof (induction ts arbitrary: inst)
    case (Cons u ts)
    show ?case
    proof (cases "u = Some t")
      case True
      have "t \<in> ai_blacklist (snd (invalidate inst (Some t)))" by (simp add: invalidate_def)
      then show ?thesis using True by (simp add: keep)
    qed (use Cons in simp)
  qed simp
  then show ?thesis using refresh by (simp add: authenticate_def dup_cstr_def)
qed

theorem revoked_token_rejected_witness:
  "fst (the (authenticate sample_hmac 0
      (fold (\<lambda>tok inst. snd (invalidate inst tok)) [Some ''a'', None, Some ''b'']
        \<lparr> ai_instance_id = [], ai_cfg = sample_auth, ai_blacklist = {} \<rparr>)
      (Some ''a'') \<lparr> ar_success = 1, ar_error_code = None, ar_error_msg = None, ar_user_id = None, ar_token = None,
                     ar_token_expiry_ms = 0, ar_roles_json = None, ar_extra_json = None \<rparr>)) = -1"
  by (subst conjunct1 [OF revoked_token_rejected]) simp_all

text \<open>
  When the HMAC cannot be computed its text is empty, and a token with an empty signature passes the check.
\<close>

lemma failed_hmac_accepts_unsigned:
  assumes "split_token token = Some (signing_input, payload, sig)"
    and "H (ac_secret cfg) signing_input = None" "b64url_decode sig = []"
  shows "verify_jwt H cfg now token = check_claims cfg now (map (\<lambda>b. char_of (unat b)) (b64url_decode payload))"
  using assms by (simp add: verify_jwt_def hmac_sha256_def ct_equal_def)

text \<open>
  The decoder skips characters outside the alphabet, so every valid token has variants that are valid and not
  revoked with it.
\<close>

lemma decode_skips: "b64url_val c < 0 \<Longrightarrow> b64url_decode (s @ [c]) = b64url_decode s"
proof -
  assume "b64url_val c < 0"
  then have "b64url_decode_loop v b (s @ [c]) = b64url_decode_loop v b s" for v b
    by (induction s arbitrary: v b) (simp_all add: Let_def)
  then show ?thesis by (simp add: b64url_decode_def)
qed

lemma token_variants_verify:
  assumes "verify_jwt H cfg now token = Some (Inr user)" "b64url_val c < 0"
  shows "verify_jwt H cfg now (token @ [c]) = Some (Inr user)"
proof -
  obtain si p sg where parts: "split_token token = Some (si, p, sg)"
    using assms by (auto simp: verify_jwt_def split: option.splits)
  obtain h where "si = h @ CHR ''.'' # p" "token = si @ CHR ''.'' # sg" "CHR ''.'' \<notin> set h" "CHR ''.'' \<notin> set p"
    using split_token_Some [OF parts] by blast
  then have "split_token (token @ [c]) = Some (si, p, sg @ [c])"
    using split_token_parts [of h p "sg @ [c]"] by simp
  then show ?thesis using assms parts by (simp add: verify_jwt_def decode_skips)
qed

text \<open>A control character is escaped by a letter and read back as that letter.\<close>

lemma control_character_changes_user:
  assumes "create_jwt sample_hmac sample_auth 1000 (''admi'' @ [CHR 0x0A]) = Some token"
  shows "verify_jwt sample_hmac sample_auth 1030 token = Some (Inr ''admin'')"
  unfolding verify_signed [OF assms] by code_simp

text \<open>A user with the name of a claim is found in its place: the issuer check reads the wrong member.\<close>

lemma claim_name_rejected:
  assumes "create_jwt sample_hmac sample_auth 1000 ''iss'' = Some token"
  shows "verify_jwt sample_hmac sample_auth 1030 token = Some (Inl ''invalid_issuer'')"
  unfolding verify_signed [OF assms] by code_simp

end
