(* ===== verification/Listener.thy ===== *)
theory Listener
  imports Session Json_Sample
begin

section \<open>The listener and its table of sessions\<close>

text \<open>
  \<open>TcpListener\<close> of \<open>src/include/shield/net/listener.hpp\<close> and \<open>src/src/net/listener.cpp\<close> on top of the
  sessions of theory \<open>Session\<close>.

  Sessions are shared pointers: \<open>tl_store\<close> holds every session that was created, under its id, and
  \<open>tl_sessions\<close> the ids in the table \<open>sessions_\<close>.  Handlers of several threads interleave, so an operation
  is cut at its critical sections and calls: \<open>tl_accept\<close> is the point the accept handler has reached (one
  accept is outstanding at a time; \<open>start\<close> is called once), \<open>tl_to_close\<close> the sessions that \<open>kick_session\<close>
  and \<open>stop\<close> have taken out of the table and still have to close, \<open>tl_closed\<close> the sessions whose
  \<open>on_disconnect\<close> has been called and has not yet entered \<open>on_session_close\<close>, and \<open>tl_to_send\<close> the sends
  of a \<open>broadcast\<close> that are left.  Only the accept handler starts a session; its other actions may come at
  any time.  The counter of ids is shared by the listeners of the process: \<open>OtherListener\<close> is an id taken by
  another one.
\<close>

datatype accept_stage = AcceptIdle | AcceptWait | AcceptAddress | AcceptCreate RemoteAddress | AcceptStart u64

record 'j listener =
  tl_listening :: bool
  tl_max_connections :: nat
  tl_max_per_ip :: nat
  tl_max_frame_size :: nat
  tl_max_send_queue :: nat
  tl_read_idle_timeout_ms :: u32
  tl_next_session_id :: u64
  tl_sessions :: "u64 list"
  tl_ip_counts :: "(string, nat) umap"
  tl_last_rejection :: string
  tl_accept :: accept_stage
  tl_store :: "(u64, 'j session) umap"
  tl_to_close :: "(u64 \<times> string) list"
  tl_closed :: "u64 list"
  tl_to_send :: "(u64 \<times> bytes) list"

text \<open>The constructor; \<open>opened\<close> says that the acceptor was opened, bound and is listening.\<close>

definition new_listener :: "bool \<Rightarrow> 'j listener" where
  "new_listener opened =
     \<lparr> tl_listening = opened, tl_max_connections = 0, tl_max_per_ip = 0, tl_max_frame_size = 0,
       tl_max_send_queue = 0, tl_read_idle_timeout_ms = 0, tl_next_session_id = 1, tl_sessions = [],
       tl_ip_counts = [], tl_last_rejection = [], tl_accept = AcceptIdle, tl_store = [], tl_to_close = [],
       tl_closed = [], tl_to_send = [] \<rparr>"

definition set_limits :: "nat \<Rightarrow> nat \<Rightarrow> nat \<Rightarrow> nat \<Rightarrow> u32 \<Rightarrow> 'j listener \<Rightarrow> 'j listener" where
  "set_limits connections per_ip frame_size send_queue idle l =
     l\<lparr> tl_max_connections := connections, tl_max_per_ip := per_ip, tl_max_frame_size := frame_size,
        tl_max_send_queue := send_queue, tl_read_idle_timeout_ms := idle \<rparr>"

definition listener_start :: "'j listener \<Rightarrow> 'j listener" where
  "listener_start l = (if \<not> tl_listening l then l else l\<lparr> tl_accept := AcceptWait \<rparr>)"

definition session_count :: "'j listener \<Rightarrow> nat" where
  "session_count l = length (tl_sessions l)"

definition find_session :: "u64 \<Rightarrow> 'j listener \<Rightarrow> 'j session option" where
  "find_session i l = (if i \<in> set (tl_sessions l) then umap_find i (tl_store l) else None)"

definition update_session :: "u64 \<Rightarrow> ('j session \<Rightarrow> 'j session) \<Rightarrow> 'j listener \<Rightarrow> 'j listener" where
  "update_session i f l =
     (case umap_find i (tl_store l) of None \<Rightarrow> l | Some st \<Rightarrow> l\<lparr> tl_store := umap_put i (f st) (tl_store l) \<rparr>)"

subsection \<open>Accepting\<close>

text \<open>
  The accept handler: an error ends the chain of accepts; else the connection limit is checked, then the
  limit of the address, then the session is created and stored, and at last started.  \<open>None\<close> for the
  address is the exception of \<open>remote_endpoint\<close> on a connection that is already gone; it leaves the
  handler, and no further accept is posted.
\<close>

definition accept_connection :: "bool \<Rightarrow> 'j listener \<Rightarrow> 'j listener" where
  "accept_connection ok l =
     (if \<not> ok then l\<lparr> tl_accept := AcceptIdle \<rparr>
      else if 0 < tl_max_connections l \<and> tl_max_connections l \<le> length (tl_sessions l)
      then l\<lparr> tl_last_rejection := ''connection_limit'', tl_accept := AcceptWait \<rparr>
      else l\<lparr> tl_accept := AcceptAddress \<rparr>)"

definition accept_address :: "RemoteAddress option \<Rightarrow> 'j listener \<Rightarrow> 'j listener" where
  "accept_address remote l =
     (case remote of
        None \<Rightarrow> l\<lparr> tl_accept := AcceptIdle \<rparr>
      | Some addr \<Rightarrow>
          if 0 < tl_max_per_ip l \<and>
             (case umap_find (ra_ip addr) (tl_ip_counts l) of None \<Rightarrow> False | Some n \<Rightarrow> tl_max_per_ip l \<le> n)
          then l\<lparr> tl_last_rejection := ''ip_limit'', tl_accept := AcceptWait \<rparr>
          else l\<lparr> tl_accept := AcceptCreate addr \<rparr>)"

text \<open>\<open>++ip_counts_[remote_ip]\<close>.\<close>

definition count_ip :: "string \<Rightarrow> (string, nat) umap \<Rightarrow> (string, nat) umap" where
  "count_ip ip m = umap_put ip (Suc (case umap_find ip m of None \<Rightarrow> 0 | Some n \<Rightarrow> n)) m"

text \<open>The constructor of the session asks for the address once more and may throw like the handler.\<close>

definition accept_create :: "bool \<Rightarrow> ProtocolPipeline option \<Rightarrow> RemoteAddress \<Rightarrow> 'j listener \<Rightarrow> 'j listener" where
  "accept_create ok pipeline addr l =
     (let i = tl_next_session_id l; l' = l\<lparr> tl_next_session_id := i + 1 \<rparr> in
      if \<not> ok then l'\<lparr> tl_accept := AcceptIdle \<rparr>
      else l'\<lparr> tl_store := umap_put i (new_session i addr pipeline (tl_max_frame_size l) (tl_max_send_queue l)
                                        (tl_read_idle_timeout_ms l)) (tl_store l),
               tl_sessions := List.insert i (tl_sessions l),
               tl_ip_counts := count_ip (ra_ip addr) (tl_ip_counts l),
               tl_accept := AcceptStart i \<rparr>)"

definition accept_start :: "u64 \<Rightarrow> 'j listener \<Rightarrow> 'j listener" where
  "accept_start i l = (update_session i start_session l)\<lparr> tl_accept := AcceptWait \<rparr>"

subsection \<open>Removing, closing and sending\<close>

definition uncount_ip :: "string \<Rightarrow> (string, nat) umap \<Rightarrow> (string, nat) umap" where
  "uncount_ip ip m =
     (case umap_find ip m of
        None \<Rightarrow> m
      | Some n \<Rightarrow> if 1 < n then umap_put ip (n - 1) m else umap_erase ip m)"

definition remove_session_locked :: "u64 \<Rightarrow> 'j listener \<Rightarrow> 'j listener" where
  "remove_session_locked i l =
     (case find_session i l of
        None \<Rightarrow> l
      | Some st \<Rightarrow>
          l\<lparr> tl_ip_counts := uncount_ip (ra_ip (ss_remote_addr st)) (tl_ip_counts l),
             tl_sessions := remove1 i (tl_sessions l) \<rparr>)"

definition on_session_close :: "u64 \<Rightarrow> 'j listener \<Rightarrow> 'j listener" where
  "on_session_close i l = remove_session_locked i l"

text \<open>The critical section of \<open>kick_session\<close> and its result; the close is left.\<close>

definition kick_session :: "u64 \<Rightarrow> string \<Rightarrow> 'j listener \<Rightarrow> bool \<times> 'j listener" where
  "kick_session i reason l =
     (case find_session i l of
        None \<Rightarrow> (False, l)
      | Some _ \<Rightarrow> (True, (remove_session_locked i l)\<lparr> tl_to_close := tl_to_close l @ [(i, reason)] \<rparr>))"

definition listener_stop :: "'j listener \<Rightarrow> 'j listener" where
  "listener_stop l =
     l\<lparr> tl_listening := False, tl_to_close := tl_to_close l @ map (\<lambda>i. (i, ''listener shutdown'')) (tl_sessions l),
        tl_sessions := [], tl_ip_counts := [] \<rparr>"

definition broadcast :: "bytes \<Rightarrow> 'j listener \<Rightarrow> 'j listener" where
  "broadcast data l = l\<lparr> tl_to_send := tl_to_send l @ map (\<lambda>i. (i, data)) (tl_sessions l) \<rparr>"

text \<open>
  The liveness check of \<open>broadcast\<close> and the one in \<open>send\<close> are one action: \<open>alive_\<close> never becomes true again, so
  a session closed between them is passed over here as \<open>send\<close> would refuse it.
\<close>

definition send_if_alive :: "bytes \<Rightarrow> 'j session \<Rightarrow> 'j session" where
  "send_if_alive data st = (if ss_alive st then enter_send (send_check data st) st else st)"

subsection \<open>Atomic actions\<close>

datatype 'j listener_action =
    ListenerStart
  | AcceptConnection bool
  | AcceptEndpoint "RemoteAddress option"
  | AcceptSession bool "ProtocolPipeline option"
  | AcceptRun
  | SessionAction u64 "'j action"
  | SessionClosed nat
  | Kick u64 string
  | Stop
  | CloseOne
  | Broadcast bytes
  | SendOne
  | OtherListener

fun listener_act :: "'j json_api \<Rightarrow> 'j listener_action \<Rightarrow> 'j listener \<Rightarrow> 'j listener option" where
  "listener_act J ListenerStart l = (if tl_accept l = AcceptIdle then Some (listener_start l) else None)"
| "listener_act J (AcceptConnection ok) l =
     (if tl_accept l = AcceptWait then Some (accept_connection ok l) else None)"
| "listener_act J (AcceptEndpoint remote) l =
     (if tl_accept l = AcceptAddress then Some (accept_address remote l) else None)"
| "listener_act J (AcceptSession ok pipeline) l =
     (case tl_accept l of AcceptCreate addr \<Rightarrow> Some (accept_create ok pipeline addr l) | _ \<Rightarrow> None)"
| "listener_act J AcceptRun l = (case tl_accept l of AcceptStart i \<Rightarrow> Some (accept_start i l) | _ \<Rightarrow> None)"
| "listener_act J (SessionAction i a) l =
     (case umap_find i (tl_store l) of
        None \<Rightarrow> None
      | Some st \<Rightarrow>
          (case (if a = StartSession then None else session_act J a st) of
             None \<Rightarrow> None
           | Some st' \<Rightarrow>
               Some (l\<lparr> tl_store := umap_put i st' (tl_store l),
                        tl_closed := tl_closed l @ (if a = ClosePost then [i] else []) \<rparr>)))"
| "listener_act J (SessionClosed n) l =
     (if n < length (tl_closed l)
      then Some (on_session_close (tl_closed l ! n) (l\<lparr> tl_closed := remove_nth n (tl_closed l) \<rparr>))
      else None)"
| "listener_act J (Kick i reason) l = Some (snd (kick_session i reason l))"
| "listener_act J Stop l = Some (listener_stop l)"
| "listener_act J CloseOne l =
     (case tl_to_close l of
        [] \<Rightarrow> None
      | (i, reason) # rest \<Rightarrow> Some (update_session i (close_session reason) (l\<lparr> tl_to_close := rest \<rparr>)))"
| "listener_act J (Broadcast data) l = Some (broadcast data l)"
| "listener_act J SendOne l =
     (case tl_to_send l of
        [] \<Rightarrow> None
      | (i, data) # rest \<Rightarrow> Some (update_session i (send_if_alive data) (l\<lparr> tl_to_send := rest \<rparr>)))"
| "listener_act J OtherListener l = Some (l\<lparr> tl_next_session_id := tl_next_session_id l + 1 \<rparr>)"

fun listener_run :: "'j json_api \<Rightarrow> 'j listener_action list \<Rightarrow> 'j listener \<Rightarrow> 'j listener option" where
  "listener_run J [] l = Some l"
| "listener_run J (a # as) l = (case listener_act J a l of None \<Rightarrow> None | Some l' \<Rightarrow> listener_run J as l')"

subsection \<open>What an action of a session keeps\<close>

lemmas session_op_defs = start_session_def do_receive_def enter_send_def reserve_slot_def release_slots_def
  run_send_frame_def run_send_message_def enqueue_frame_def do_async_write_def drop_queue_def run_job_def
  write_completed_def end_write_def pop_written_def handle_error_def close_session_def wait_completed_def
  deliver_result_def Let_def

text \<open>An action keeps the address, revives no session, and no action but \<open>ClosePost\<close> forgets a close.\<close>

definition session_kept :: "'j session \<Rightarrow> 'j session \<Rightarrow> bool" where
  "session_kept st st' \<longleftrightarrow>
     ss_remote_addr st' = ss_remote_addr st \<and> (ss_alive st' \<longrightarrow> ss_alive st) \<and>
     (\<not> ss_alive st' \<and> ss_closing st' = [] \<longrightarrow> \<not> ss_alive st \<and> ss_closing st = [])"

lemma read_completed_kept: "read_completed J r st = Some st' \<Longrightarrow> session_kept st st'"
  by (auto simp: session_kept_def read_completed_def receive_packets_def receive_frames_def session_op_defs
      split: read_result.splits option.splits prod.splits if_splits)

lemma handler_step_kept: "handler_step J st = Some st' \<Longrightarrow> session_kept st st'"
  by (auto simp: session_kept_def handler_step_def session_op_defs
      split: handler.splits list.splits option.splits prod.splits if_splits)

lemma run_job_kept: "run_job J job st = Some st' \<Longrightarrow> session_kept st st'"
  by (auto simp: session_kept_def session_op_defs split: job.splits if_splits option.splits sum.splits prod.splits)

lemma kept_upd: "session_kept (st\<lparr> ss_strand := js \<rparr>) st' = session_kept st st'" "session_kept (st\<lparr> ss_reading := n \<rparr>) st' = session_kept st st'"
  by (simp_all add: session_kept_def)

lemma session_act_kept:
  assumes "session_act J a st = Some st'" "a \<noteq> ClosePost"
  shows "session_kept st st'"
proof (cases a)
  case (CompleteRead r)
  then show ?thesis using assms(1) by (auto simp: kept_upd split: if_splits dest!: read_completed_kept)
next
  case RunHandler
  then show ?thesis using assms(1) handler_step_kept by auto
next
  case RunStrand
  then show ?thesis using assms(1) by (auto simp: kept_upd split: if_splits list.splits dest!: run_job_kept)
qed (use assms in \<open>auto simp: session_kept_def session_op_defs split: if_splits sum.splits write_result.splits\<close>)

lemma session_act_address: "session_act J a st = Some st' \<Longrightarrow> ss_remote_addr st' = ss_remote_addr st"
  using session_act_kept [of J a st st'] by (cases "a = ClosePost") (auto simp: session_kept_def split: list.splits)

lemma session_act_alive: "session_act J a st = Some st' \<Longrightarrow> ss_alive st' \<Longrightarrow> ss_alive st"
  using session_act_kept [of J a st st'] by (cases "a = ClosePost") (auto simp: session_kept_def split: list.splits)

lemma session_act_closing:
  "session_act J a st = Some st' \<Longrightarrow> a \<noteq> ClosePost \<Longrightarrow> \<not> ss_alive st' \<Longrightarrow> ss_closing st' = [] \<Longrightarrow>
   \<not> ss_alive st \<and> ss_closing st = []"
  using session_act_kept [of J a st st'] by (simp add: session_kept_def)

subsection \<open>The invariant of the listener\<close>

text \<open>The address a session was created with, and the sessions of the table from one address.\<close>

definition session_ip :: "'j listener \<Rightarrow> u64 \<Rightarrow> string option" where
  "session_ip l i = map_option (\<lambda>st. ra_ip (ss_remote_addr st)) (umap_find i (tl_store l))"

definition ip_sessions :: "string \<Rightarrow> 'j listener \<Rightarrow> nat" where
  "ip_sessions ip l = length (filter (\<lambda>i. session_ip l i = Some ip) (tl_sessions l))"

text \<open>
  The table holds created sessions, once each; ids are not reused; the counter of an address is the number
  of its sessions in the table, and an address without one has no entry.
\<close>

definition table_inv :: "'j listener \<Rightarrow> bool" where
  "table_inv l \<longleftrightarrow>
     distinct (tl_sessions l) \<and>
     (\<forall>i \<in> set (tl_sessions l). umap_find i (tl_store l) \<noteq> None) \<and>
     (\<forall>i st. umap_find i (tl_store l) = Some st \<longrightarrow> unat i < unat (tl_next_session_id l) \<and> session_inv st) \<and>
     (\<forall>ip. umap_find ip (tl_ip_counts l) = (if ip_sessions ip l = 0 then None else Some (ip_sessions ip l)))"

text \<open>The limits hold, and a connection that has passed a check still fits when it is stored.\<close>

definition limits_inv :: "'j listener \<Rightarrow> bool" where
  "limits_inv l \<longleftrightarrow>
     (0 < tl_max_connections l \<longrightarrow>
        length (tl_sessions l) \<le> tl_max_connections l \<and>
        (case tl_accept l of
           AcceptAddress \<Rightarrow> length (tl_sessions l) < tl_max_connections l
         | AcceptCreate _ \<Rightarrow> length (tl_sessions l) < tl_max_connections l
         | _ \<Rightarrow> True)) \<and>
     (0 < tl_max_per_ip l \<longrightarrow>
        (\<forall>ip. ip_sessions ip l \<le> tl_max_per_ip l) \<and>
        (case tl_accept l of AcceptCreate addr \<Rightarrow> ip_sessions (ra_ip addr) l < tl_max_per_ip l | _ \<Rightarrow> True))"

text \<open>
  No session is lost: a live one is in the table or about to be closed, and a closed one in the table is
  about to be taken out; only closed sessions are taken out because of their close.
\<close>

definition life_inv :: "'j listener \<Rightarrow> bool" where
  "life_inv l \<longleftrightarrow>
     (\<forall>i st. umap_find i (tl_store l) = Some st \<longrightarrow>
        (ss_alive st \<longrightarrow> i \<in> set (tl_sessions l) \<or> i \<in> fst ` set (tl_to_close l)) \<and>
        (\<not> ss_alive st \<longrightarrow> i \<in> set (tl_sessions l) \<longrightarrow> ss_closing st \<noteq> [] \<or> i \<in> set (tl_closed l))) \<and>
     (\<forall>i \<in> set (tl_closed l). \<exists>st. umap_find i (tl_store l) = Some st \<and> \<not> ss_alive st)"

definition listener_inv :: "'j listener \<Rightarrow> bool" where
  "listener_inv l \<longleftrightarrow> table_inv l \<and> limits_inv l \<and> life_inv l"

lemmas listener_inv_defs = listener_inv_def table_inv_def limits_inv_def life_inv_def ip_sessions_def session_ip_def

lemma new_listener_inv: "listener_inv (set_limits c p f q t (new_listener opened))"
  by (simp add: listener_inv_defs set_limits_def new_listener_def)

text \<open>Actions that change a session in place.\<close>

lemma session_ip_put:
  assumes "umap_find i (tl_store l) = Some st" "ss_remote_addr st' = ss_remote_addr st" "tl_store l' = umap_put i st' (tl_store l)"
  shows "session_ip l' = session_ip l"
  using assms by (auto simp: session_ip_def)

text \<open>The limits survive every step that adds no session and passes no check.\<close>

lemma limits_inv_mono:
  assumes "limits_inv l" "tl_max_connections l' = tl_max_connections l" "tl_max_per_ip l' = tl_max_per_ip l"
    and len: "length (tl_sessions l') \<le> length (tl_sessions l)"
    and ips: "\<And>ip. ip_sessions ip l' \<le> ip_sessions ip l"
    and stage: "tl_accept l' = tl_accept l \<or> tl_accept l' \<in> {AcceptWait, AcceptIdle}"
  shows "limits_inv l'"
proof -
  have "ip_sessions ip l' \<le> m" if "ip_sessions ip l \<le> m" for ip m using ips [of ip] that by (rule order_trans)
  moreover have "ip_sessions ip l' < m" if "ip_sessions ip l < m" for ip m using ips [of ip] that by (rule order_le_less_trans)
  ultimately show ?thesis
    using assms(1-3) len stage unfolding limits_inv_def by (cases "tl_accept l") auto
qed

lemma session_step_inv:
  assumes inv: "listener_inv l" and st: "umap_find i (tl_store l) = Some st" and act: "session_act J a st = Some st'"
    and sel: "tl_store l' = umap_put i st' (tl_store l)" "tl_closed l' = tl_closed l @ (if a = ClosePost then [i] else [])"
      "tl_sessions l' = tl_sessions l" "tl_ip_counts l' = tl_ip_counts l" "tl_next_session_id l' = tl_next_session_id l"
      "tl_max_connections l' = tl_max_connections l" "tl_max_per_ip l' = tl_max_per_ip l"
    and tc: "\<And>k. k \<noteq> i \<or> ss_alive st' \<Longrightarrow> k \<in> fst ` set (tl_to_close l) \<Longrightarrow> k \<in> fst ` set (tl_to_close l')"
    and stage: "tl_accept l' = tl_accept l \<or> tl_accept l' \<in> {AcceptWait, AcceptIdle}"
  shows "listener_inv l'"
proof -
  have "session_ip l' = session_ip l" using session_ip_put [OF st session_act_address [OF act] sel(1)] .
  then have ips: "ip_sessions ip l' = ip_sessions ip l" for ip by (simp add: ip_sessions_def sel)
  have parts: "table_inv l" "limits_inv l" "life_inv l" using inv by (simp_all add: listener_inv_def)
  have ok: "session_inv st" using parts(1) st by (simp add: table_inv_def)
  then have "session_inv st'" using act by (rule session_act_inv)
  then have "table_inv l'" using parts(1) st unfolding table_inv_def sel ips by simp
  moreover have "limits_inv l'"
    by (rule limits_inv_mono [of l]) (use parts stage in \<open>auto simp: sel ips\<close>)
  moreover have "life_inv l'"
    unfolding life_inv_def sel
  proof (intro conjI allI impI ballI)
    fix k sk
    assume k: "umap_find k (umap_put i st' (tl_store l)) = Some sk"
    consider "k = i" "sk = st'" | "k \<noteq> i" "umap_find k (tl_store l) = Some sk" using k by (auto split: if_splits)
    note cases = this
    {
      assume "ss_alive sk"
      with cases show "k \<in> set (tl_sessions l) \<or> k \<in> fst ` set (tl_to_close l')"
      proof cases
        case 1
        then show ?thesis using parts(3) st session_act_alive [OF act] \<open>ss_alive sk\<close> tc [of i] by (auto simp: life_inv_def)
      next
        case 2
        then show ?thesis using parts(3) \<open>ss_alive sk\<close> tc [of k] unfolding life_inv_def by blast
      qed
    next
      assume "\<not> ss_alive sk" "k \<in> set (tl_sessions l)"
      with cases show "ss_closing sk \<noteq> [] \<or> k \<in> set (tl_closed l @ (if a = ClosePost then [i] else []))"
      proof cases
        case 1
        then show ?thesis
          using session_act_closing [OF act] \<open>\<not> ss_alive sk\<close> \<open>k \<in> set (tl_sessions l)\<close> parts(3) st
          by (auto simp: life_inv_def)
      next
        case 2
        then show ?thesis using parts(3) \<open>\<not> ss_alive sk\<close> \<open>k \<in> set (tl_sessions l)\<close> by (auto simp: life_inv_def)
      qed
    }
  next
    fix k
    assume k: "k \<in> set (tl_closed l @ (if a = ClosePost then [i] else []))"
    have dead: "\<not> ss_alive st'" if "k = i"
    proof (cases "a = ClosePost")
      case True
      then show ?thesis using act ok by (auto simp: session_inv_def close_ok_def split: list.splits if_splits)
    next
      case False
      then show ?thesis using k that parts(3) st session_act_alive [OF act] by (auto simp: life_inv_def)
    qed
    then show "\<exists>sk. umap_find k (umap_put i st' (tl_store l)) = Some sk \<and> \<not> ss_alive sk"
      using k parts(3) by (auto simp: life_inv_def split: if_splits)
  qed
  ultimately show ?thesis by (simp add: listener_inv_def)
qed

lemma update_session_inv:
  assumes "listener_inv l" "\<And>st. session_act J a st = Some (f st)" "a \<noteq> ClosePost"
    and "l1 = l\<lparr> tl_to_close := tc, tl_to_send := ts \<rparr>"
    and "\<And>k st. k \<noteq> i \<or> ss_alive (f st) \<Longrightarrow> k \<in> fst ` set (tl_to_close l) \<Longrightarrow> k \<in> fst ` set tc"
    and "s = tl_accept l \<or> s \<in> {AcceptWait, AcceptIdle}"
  shows "listener_inv ((update_session i f l1)\<lparr> tl_accept := s \<rparr>)"
proof (cases "umap_find i (tl_store l)")
  case None
  have life: "life_inv (l\<lparr> tl_to_close := tc, tl_to_send := ts, tl_accept := s \<rparr>)"
    unfolding life_inv_def
  proof (intro conjI allI impI)
    fix k sk
    assume k: "umap_find k (tl_store (l\<lparr> tl_to_close := tc, tl_to_send := ts, tl_accept := s \<rparr>)) = Some sk" "ss_alive sk"
    then have "k \<noteq> i" using None by auto
    then have "k \<in> fst ` set (tl_to_close l) \<Longrightarrow> k \<in> fst ` set tc" using assms(5) by blast
    then show "k \<in> set (tl_sessions (l\<lparr> tl_to_close := tc, tl_to_send := ts, tl_accept := s \<rparr>)) \<or>
        k \<in> fst ` set (tl_to_close (l\<lparr> tl_to_close := tc, tl_to_send := ts, tl_accept := s \<rparr>))"
      using k assms(1) by (auto simp: listener_inv_def life_inv_def)
  qed (use assms(1) in \<open>auto simp: listener_inv_def life_inv_def\<close>)
  have "limits_inv (l\<lparr> tl_to_close := tc, tl_to_send := ts, tl_accept := s \<rparr>)"
    by (rule limits_inv_mono [of l]) (use assms in \<open>auto simp: listener_inv_def ip_sessions_def session_ip_def\<close>)
  moreover have "table_inv (l\<lparr> tl_to_close := tc, tl_to_send := ts, tl_accept := s \<rparr>)"
    using assms(1) by (simp add: listener_inv_def table_inv_def ip_sessions_def session_ip_def)
  ultimately show ?thesis using life None by (simp add: update_session_def assms(4) listener_inv_def)
next
  case (Some st)
  show ?thesis
  proof (rule session_step_inv [OF assms(1) Some assms(2)])
    show "k \<in> fst ` set (tl_to_close ((update_session i f l1)\<lparr> tl_accept := s \<rparr>))"
      if "k \<noteq> i \<or> ss_alive (f st)" "k \<in> fst ` set (tl_to_close l)" for k
      using assms(5) [OF that] Some by (simp add: update_session_def assms(4))
  qed (use Some assms(3,6) in \<open>simp_all add: update_session_def assms(4)\<close>)
qed

subsection \<open>Taking sessions out of the table\<close>

lemma filter_remove1_length:
  "distinct xs \<Longrightarrow> i \<in> set xs \<Longrightarrow>
   length (filter P (remove1 i xs)) = length (filter P xs) - (if P i then 1 else 0)"
  by (simp add: filter_remove1 length_remove1)

lemma remove_session_ips:
  assumes "table_inv l" "find_session i l = Some st"
  shows "ip_sessions ip (remove_session_locked i l) =
    ip_sessions ip l - (if ra_ip (ss_remote_addr st) = ip then 1 else 0)"
proof -
  have "i \<in> set (tl_sessions l)" "umap_find i (tl_store l) = Some st"
    using assms(2) by (auto simp: find_session_def split: if_splits)
  then show ?thesis
    using assms filter_remove1_length [of "tl_sessions l" i "\<lambda>k. session_ip l k = Some ip"]
    by (simp add: ip_sessions_def remove_session_locked_def session_ip_def table_inv_def)
qed

lemma remove_session_table:
  assumes "table_inv l"
  shows "table_inv (remove_session_locked i l)"
proof (cases "find_session i l")
  case None
  then show ?thesis using assms by (simp add: remove_session_locked_def)
next
  case (Some st)
  let ?l = "remove_session_locked i l" and ?ip = "ra_ip (ss_remote_addr st)"
  have sel: "tl_sessions ?l = remove1 i (tl_sessions l)" "tl_store ?l = tl_store l"
    "tl_next_session_id ?l = tl_next_session_id l" "tl_ip_counts ?l = uncount_ip ?ip (tl_ip_counts l)"
    using Some by (simp_all add: remove_session_locked_def)
  have "umap_find ip (tl_ip_counts ?l) = (if ip_sessions ip ?l = 0 then None else Some (ip_sessions ip ?l))" for ip
    using assms remove_session_ips [OF assms Some, of ip]
    by (auto simp: table_inv_def sel uncount_ip_def split: option.splits if_splits)
  then show ?thesis using assms unfolding table_inv_def sel by (auto simp: distinct_remove1 dest: set_remove1_subset [THEN subsetD])
qed

lemma remove_session_limits:
  assumes "table_inv l" "limits_inv l"
  shows "limits_inv (remove_session_locked i l)"
proof (cases "find_session i l")
  case None
  then show ?thesis using assms by (simp add: remove_session_locked_def)
next
  case (Some st)
  show ?thesis
  proof (rule limits_inv_mono [OF assms(2)])
    show "ip_sessions ip (remove_session_locked i l) \<le> ip_sessions ip l" for ip
      using remove_session_ips [OF assms(1) Some, of ip] by simp
  qed (use Some in \<open>auto simp: remove_session_locked_def length_remove1\<close>)
qed

lemma remove_session_sel [simp]:
  "tl_store (remove_session_locked i l) = tl_store l"
  "tl_closed (remove_session_locked i l) = tl_closed l"
  "tl_to_close (remove_session_locked i l) = tl_to_close l"
  "tl_accept (remove_session_locked i l) = tl_accept l"
  "tl_next_session_id (remove_session_locked i l) = tl_next_session_id l"
  by (simp_all add: remove_session_locked_def split: option.splits)

lemma remove_session_set:
  assumes "table_inv l"
  shows "set (tl_sessions (remove_session_locked i l)) = set (tl_sessions l) - {i}"
proof (cases "find_session i l")
  case None
  then have "i \<notin> set (tl_sessions l)" using assms by (auto simp: find_session_def table_inv_def split: if_splits)
  then show ?thesis using None by (simp add: remove_session_locked_def)
next
  case (Some st)
  then show ?thesis using assms by (simp add: remove_session_locked_def table_inv_def set_remove1_eq)
qed

text \<open>The table and the limits do not read the lists of pending calls.\<close>

lemma pending_irrelevant [simp]:
  "table_inv (l\<lparr> tl_to_close := tc \<rparr>) = table_inv l" "limits_inv (l\<lparr> tl_to_close := tc \<rparr>) = limits_inv l"
  "table_inv (l\<lparr> tl_closed := cs \<rparr>) = table_inv l" "limits_inv (l\<lparr> tl_closed := cs \<rparr>) = limits_inv l"
  "table_inv (l\<lparr> tl_to_send := ts \<rparr>) = table_inv l" "limits_inv (l\<lparr> tl_to_send := ts \<rparr>) = limits_inv l"
  "life_inv (l\<lparr> tl_to_send := ts \<rparr>) = life_inv l"
  by (simp_all add: table_inv_def limits_inv_def life_inv_def ip_sessions_def session_ip_def cong: accept_stage.case_cong)

lemma kick_session_inv:
  assumes "listener_inv l"
  shows "listener_inv (snd (kick_session i reason l))"
proof -
  have parts: "table_inv l" "limits_inv l" "life_inv l" using assms by (simp_all add: listener_inv_def)
  have "life_inv ((remove_session_locked i l)\<lparr> tl_to_close := tl_to_close l @ [(i, reason)] \<rparr>)"
    using parts(3) by (auto simp: life_inv_def remove_session_set [OF parts(1)])
  then show ?thesis
    using assms parts remove_session_table [OF parts(1)] remove_session_limits [OF parts(1,2)]
    by (simp add: kick_session_def listener_inv_def split: option.splits)
qed

lemma remove_nth_other: "k \<in> set xs \<Longrightarrow> k \<noteq> xs ! n \<Longrightarrow> n < length xs \<Longrightarrow> k \<in> set (remove_nth n xs)"
  using id_take_nth_drop [of n xs] by (auto simp: remove_nth_def) (metis Un_iff set_ConsD set_append)

lemma session_closed_inv:
  assumes "listener_inv l" "n < length (tl_closed l)"
  shows "listener_inv (on_session_close (tl_closed l ! n) (l\<lparr> tl_closed := remove_nth n (tl_closed l) \<rparr>))"
proof -
  let ?i = "tl_closed l ! n" and ?l = "l\<lparr> tl_closed := remove_nth n (tl_closed l) \<rparr>"
  have parts: "table_inv ?l" "limits_inv ?l" "life_inv l" using assms by (simp_all add: listener_inv_def)
  obtain sd where dead: "umap_find ?i (tl_store l) = Some sd" "\<not> ss_alive sd"
    using parts(3) nth_mem [OF assms(2)] unfolding life_inv_def by blast
  have sel: "set (tl_sessions (remove_session_locked ?i ?l)) = set (tl_sessions l) - {?i}"
    using remove_session_set [OF parts(1), of ?i] by simp
  have "life_inv (remove_session_locked ?i ?l)"
    unfolding life_inv_def sel
  proof (intro conjI allI impI ballI)
    fix k sk
    assume k: "umap_find k (tl_store (remove_session_locked ?i ?l)) = Some sk"
    {
      assume "ss_alive sk"
      then have "k \<noteq> ?i" using dead k by auto
      then show "k \<in> set (tl_sessions l) - {?i} \<or> k \<in> fst ` set (tl_to_close (remove_session_locked ?i ?l))"
        using parts(3) k \<open>ss_alive sk\<close> by (auto simp: life_inv_def)
    next
      assume "\<not> ss_alive sk" "k \<in> set (tl_sessions l) - {?i}"
      then show "ss_closing sk \<noteq> [] \<or> k \<in> set (tl_closed (remove_session_locked ?i ?l))"
        using parts(3) k remove_nth_other [OF _ _ assms(2), of k] by (auto simp: life_inv_def)
    }
  next
    fix k
    assume "k \<in> set (tl_closed (remove_session_locked ?i ?l))"
    then have "k \<in> set (tl_closed l)" by (auto dest: remove_nth_set)
    then show "\<exists>st. umap_find k (tl_store (remove_session_locked ?i ?l)) = Some st \<and> \<not> ss_alive st"
      using parts(3) by (simp add: life_inv_def)
  qed
  then show ?thesis
    using remove_session_table [OF parts(1)] remove_session_limits [OF parts(1,2)]
    by (simp add: on_session_close_def listener_inv_def)
qed

lemma listener_stop_inv:
  assumes "listener_inv l"
  shows "listener_inv (listener_stop l)"
proof -
  have parts: "table_inv l" "limits_inv l" "life_inv l" using assms by (simp_all add: listener_inv_def)
  have "limits_inv (listener_stop l)"
    by (rule limits_inv_mono [OF parts(2)]) (simp_all add: listener_stop_def ip_sessions_def)
  moreover have "table_inv (listener_stop l)"
    using parts(1) by (simp add: table_inv_def listener_stop_def ip_sessions_def)
  moreover have "life_inv (listener_stop l)"
    using parts(3) unfolding life_inv_def by (auto simp: listener_stop_def image_Un image_image)
  ultimately show ?thesis by (simp add: listener_inv_def)
qed

subsection \<open>Accepting keeps the limits\<close>

lemma stage_irrelevant [simp]:
  "table_inv (l\<lparr> tl_accept := s \<rparr>) = table_inv l" "life_inv (l\<lparr> tl_accept := s \<rparr>) = life_inv l"
  "table_inv (l\<lparr> tl_last_rejection := r \<rparr>) = table_inv l" "life_inv (l\<lparr> tl_last_rejection := r \<rparr>) = life_inv l"
  "limits_inv (l\<lparr> tl_last_rejection := r \<rparr>) = limits_inv l"
  by (simp_all add: table_inv_def life_inv_def limits_inv_def ip_sessions_def session_ip_def cong: accept_stage.case_cong)

lemma ip_sessions_stage [simp]:
  "ip_sessions ip (l\<lparr> tl_accept := s \<rparr>) = ip_sessions ip l"
  "ip_sessions ip (l\<lparr> tl_last_rejection := r \<rparr>) = ip_sessions ip l"
  by (simp_all add: ip_sessions_def session_ip_def)

lemma accept_back_inv: "listener_inv l \<Longrightarrow> s \<in> {AcceptWait, AcceptIdle} \<Longrightarrow> listener_inv (l\<lparr> tl_accept := s \<rparr>)"
  using limits_inv_mono [of l "l\<lparr> tl_accept := s \<rparr>"] by (simp add: listener_inv_def)

lemma rejection_inv [simp]: "listener_inv (l\<lparr> tl_last_rejection := r \<rparr>) = listener_inv l"
  by (simp add: listener_inv_def)

lemma accept_connection_inv: "listener_inv l \<Longrightarrow> listener_inv (accept_connection ok l)"
  using accept_back_inv [of "l\<lparr> tl_last_rejection := ''connection_limit'' \<rparr>" AcceptWait] accept_back_inv [of l AcceptIdle]
  by (auto simp: accept_connection_def listener_inv_def limits_inv_def)

lemma accept_address_inv:
  assumes "listener_inv l" "tl_accept l = AcceptAddress"
  shows "listener_inv (accept_address remote l)"
proof (cases remote)
  case None
  then show ?thesis using accept_back_inv [OF assms(1), of AcceptIdle] by (simp add: accept_address_def)
next
  case (Some addr)
  let ?full = "0 < tl_max_per_ip l \<and>
             (case umap_find (ra_ip addr) (tl_ip_counts l) of None \<Rightarrow> False | Some n \<Rightarrow> tl_max_per_ip l \<le> n)"
  show ?thesis
  proof (cases ?full)
    case True
    then show ?thesis
      using Some accept_back_inv [of "l\<lparr> tl_last_rejection := ''ip_limit'' \<rparr>" AcceptWait] assms(1)
      by (simp add: accept_address_def)
  next
    case False
    then have "0 < tl_max_per_ip l \<Longrightarrow> ip_sessions (ra_ip addr) l < tl_max_per_ip l"
      using assms(1) by (auto simp: listener_inv_def table_inv_def split: if_splits)
    then have "limits_inv (l\<lparr> tl_accept := AcceptCreate addr \<rparr>)"
      using assms by (auto simp: listener_inv_def limits_inv_def)
    moreover have "accept_address remote l = l\<lparr> tl_accept := AcceptCreate addr \<rparr>"
      using False Some by (auto simp: accept_address_def)
    ultimately show ?thesis using assms(1) by (simp add: listener_inv_def)
  qed
qed

lemma unat_next: "unat (i :: u64) + 1 < 2 ^ 64 \<Longrightarrow> unat (i + 1) = unat i + 1"
  using unat_of_nat_u64 [of "unat i + 1"] by (simp add: add.commute)

lemma next_id_inv:
  assumes "listener_inv l" "unat (tl_next_session_id l) + 1 < 2 ^ 64"
  shows "listener_inv (l\<lparr> tl_next_session_id := tl_next_session_id l + 1 \<rparr>)" (is "listener_inv ?l")
proof -
  have parts: "table_inv l" "limits_inv l" "life_inv l" using assms(1) by (simp_all add: listener_inv_def)
  have ips: "ip_sessions ip ?l = ip_sessions ip l" for ip by (simp add: ip_sessions_def session_ip_def)
  have "limits_inv ?l" by (rule limits_inv_mono [OF parts(2)]) (simp_all add: ips)
  moreover have "table_inv ?l"
    using parts(1) unat_next [OF assms(2)] unfolding table_inv_def ips by (auto simp: less_Suc_eq)
  moreover have "life_inv ?l" using parts(3) by (simp add: life_inv_def)
  ultimately show ?thesis by (simp add: listener_inv_def)
qed

lemma accept_create_inv:
  assumes "listener_inv l" "tl_accept l = AcceptCreate addr" "unat (tl_next_session_id l) + 1 < 2 ^ 64"
  shows "listener_inv (accept_create ok pipeline addr l)"
proof -
  let ?i = "tl_next_session_id l" and ?l = "accept_create ok pipeline addr l"
  have parts: "table_inv l" "limits_inv l" "life_inv l" using assms(1) by (simp_all add: listener_inv_def)
  have nxt: "unat (?i + 1) = unat ?i + 1" by (rule unat_next [OF assms(3)])
  have fresh: "umap_find ?i (tl_store l) = None"
    using parts(1) by (cases "umap_find ?i (tl_store l)") (auto simp: table_inv_def)
  then have new: "?i \<notin> set (tl_sessions l)" using parts(1) by (auto simp: table_inv_def)
  show ?thesis
  proof (cases ok)
    case False
    then have l: "?l = l\<lparr> tl_next_session_id := ?i + 1, tl_accept := AcceptIdle \<rparr>" by (simp add: accept_create_def Let_def)
    then show ?thesis using accept_back_inv [OF next_id_inv [OF assms(1,3)], of AcceptIdle] by simp
  next
    case True
    let ?st = "new_session ?i addr pipeline (tl_max_frame_size l) (tl_max_send_queue l) (tl_read_idle_timeout_ms l)"
    have sel: "tl_sessions ?l = ?i # tl_sessions l" "tl_store ?l = umap_put ?i ?st (tl_store l)"
      "tl_next_session_id ?l = ?i + 1" "tl_ip_counts ?l = count_ip (ra_ip addr) (tl_ip_counts l)"
      "tl_closed ?l = tl_closed l" "tl_to_close ?l = tl_to_close l" "tl_accept ?l = AcceptStart ?i"
      "tl_max_connections ?l = tl_max_connections l" "tl_max_per_ip ?l = tl_max_per_ip l"
      using True new by (simp_all add: accept_create_def Let_def)
    have "session_ip ?l k = session_ip l k" if "k \<in> set (tl_sessions l)" for k
      using that new by (auto simp: session_ip_def sel)
    then have "filter (\<lambda>k. session_ip ?l k = Some ip) (tl_sessions l) = filter (\<lambda>k. session_ip l k = Some ip) (tl_sessions l)" for ip
      by (intro filter_cong) simp_all
    moreover have "session_ip ?l ?i = Some (ra_ip addr)" by (simp add: session_ip_def sel new_session_def)
    ultimately have ips: "ip_sessions ip ?l = (if ip = ra_ip addr then Suc (ip_sessions ip l) else ip_sessions ip l)" for ip
      by (auto simp: ip_sessions_def sel)
    have "umap_find ip (tl_ip_counts ?l) = (if ip_sessions ip ?l = 0 then None else Some (ip_sessions ip ?l))" for ip
      using parts(1) by (auto simp: table_inv_def sel ips count_ip_def)
    then have "table_inv ?l"
      using parts(1) new nxt new_session_inv unfolding table_inv_def sel by (auto simp: less_Suc_eq split: if_splits)
    moreover have "limits_inv ?l"
      using parts(2) assms(2) unfolding limits_inv_def sel by (auto simp: ips Suc_le_eq)
    moreover have "life_inv ?l"
      using parts(3) fresh unfolding life_inv_def sel by (auto simp: new_session_def split: if_splits)
    ultimately show ?thesis by (simp add: listener_inv_def)
  qed
qed

subsection \<open>Every interleaving\<close>

lemma listener_act_inv:
  assumes inv: "listener_inv l" and act: "listener_act J a l = Some l'"
    and ids: "unat (tl_next_session_id l) + 1 < 2 ^ 64"
  shows "listener_inv l'"
proof (cases a)
  case ListenerStart
  then show ?thesis
    using act inv accept_back_inv [OF inv, of AcceptWait] by (auto simp: listener_start_def split: if_splits)
next
  case (AcceptConnection ok)
  then show ?thesis using act accept_connection_inv [OF inv] by (auto split: if_splits)
next
  case (AcceptEndpoint remote)
  then show ?thesis using act accept_address_inv [OF inv] by (auto split: if_splits)
next
  case (AcceptSession ok pipeline)
  then show ?thesis using act accept_create_inv [OF inv _ ids] by (auto split: accept_stage.splits)
next
  case AcceptRun
  then obtain i where "l' = accept_start i l" using act by (auto split: accept_stage.splits)
  moreover have "listener_inv (accept_start i l)"
    unfolding accept_start_def
    by (rule update_session_inv [OF inv, where a = StartSession and J = J and tc = "tl_to_close l" and ts = "tl_to_send l"]) simp_all
  ultimately show ?thesis by simp
next
  case (SessionAction i b)
  then obtain st st' where "umap_find i (tl_store l) = Some st" "session_act J b st = Some st'"
    and "l' = l\<lparr> tl_store := umap_put i st' (tl_store l), tl_closed := tl_closed l @ (if b = ClosePost then [i] else []) \<rparr>"
    using act by (auto split: option.splits if_splits)
  then show ?thesis by (intro session_step_inv [OF inv]) simp_all
next
  case (SessionClosed n)
  then show ?thesis using act session_closed_inv [OF inv] by (auto split: if_splits)
next
  case (Kick i reason)
  then show ?thesis using act kick_session_inv [OF inv] by auto
next
  case Stop
  then show ?thesis using act listener_stop_inv [OF inv] by auto
next
  case CloseOne
  then obtain i reason rest where to_close: "tl_to_close l = (i, reason) # rest"
    and l': "l' = update_session i (close_session reason) (l\<lparr> tl_to_close := rest \<rparr>)"
    using act by (auto split: list.splits)
  have "listener_inv ((update_session i (close_session reason) (l\<lparr> tl_to_close := rest, tl_to_send := tl_to_send l \<rparr>))
      \<lparr> tl_accept := tl_accept l \<rparr>)"
    by (rule update_session_inv [OF inv, where a = "CloseExchange reason" and J = J and tc = rest and ts = "tl_to_send l"])
       (auto simp: to_close close_session_def split: if_splits)
  moreover have "(update_session i (close_session reason) (l\<lparr> tl_to_close := rest, tl_to_send := tl_to_send l \<rparr>))
      \<lparr> tl_accept := tl_accept l \<rparr> = l'"
    by (simp add: l' update_session_def split: option.splits)
  ultimately show ?thesis by simp
next
  case (Broadcast data)
  then show ?thesis using act inv by (auto simp: broadcast_def listener_inv_def)
next
  case SendOne
  then obtain i data rest where
    l': "l' = update_session i (send_if_alive data) (l\<lparr> tl_to_send := rest \<rparr>)"
    using act by (auto split: list.splits)
  have "listener_inv ((update_session i (send_if_alive data) (l\<lparr> tl_to_close := tl_to_close l, tl_to_send := rest \<rparr>))
      \<lparr> tl_accept := tl_accept l \<rparr>)"
    by (rule update_session_inv [OF inv, where a = "EnterSend data" and J = J and tc = "tl_to_close l" and ts = rest])
       (auto simp: send_if_alive_def enter_send_def send_check_def)
  moreover have "(update_session i (send_if_alive data) (l\<lparr> tl_to_close := tl_to_close l, tl_to_send := rest \<rparr>))
      \<lparr> tl_accept := tl_accept l \<rparr> = l'"
    by (simp add: l' update_session_def split: option.splits)
  ultimately show ?thesis by simp
next
  case OtherListener
  then show ?thesis using act next_id_inv [OF inv ids] by auto
qed

lemma listener_act_next:
  assumes "listener_act J a l = Some l'" "unat (tl_next_session_id l) + 1 < 2 ^ 64"
  shows "unat (tl_next_session_id l') \<le> unat (tl_next_session_id l) + 1"
  using assms unat_next [OF assms(2)]
  by (cases a) (auto simp: listener_start_def accept_connection_def accept_address_def accept_create_def
      accept_start_def update_session_def on_session_close_def kick_session_def listener_stop_def broadcast_def Let_def
      split: if_splits option.splits accept_stage.splits list.splits)

lemma listener_act_limits:
  assumes "listener_act J a l = Some l'"
  shows "tl_max_connections l' = tl_max_connections l \<and> tl_max_per_ip l' = tl_max_per_ip l"
  using assms
  by (cases a) (auto simp: listener_start_def accept_connection_def accept_address_def accept_create_def
      accept_start_def update_session_def on_session_close_def remove_session_locked_def kick_session_def
      listener_stop_def broadcast_def Let_def
      split: if_splits option.splits accept_stage.splits list.splits)

lemma listener_run_inv:
  "listener_run J as l = Some l' \<Longrightarrow> listener_inv l \<Longrightarrow> unat (tl_next_session_id l) + length as < 2 ^ 64 \<Longrightarrow>
   listener_inv l' \<and> tl_max_connections l' = tl_max_connections l \<and> tl_max_per_ip l' = tl_max_per_ip l"
proof (induction as arbitrary: l)
  case (Cons a as)
  then obtain m where m: "listener_act J a l = Some m" "listener_run J as m = Some l'" by (auto split: option.splits)
  have "unat (tl_next_session_id l) + 1 < 2 ^ 64" using Cons.prems(3) by simp
  then show ?case
    using Cons.IH [OF m(2) listener_act_inv [OF Cons.prems(2) m(1)]] listener_act_next [OF m(1)]
      listener_act_limits [OF m(1)] Cons.prems(3) by simp
qed simp

subsection \<open>Properties\<close>

text \<open>
  C20. Whatever the interleaving of the accept handler with kicks, closes, a stop and the actions of the
  sessions, the table never holds more sessions than the configured maximum nor more from one address than
  the maximum per address, and the counter of an address is exactly the number of its sessions: it has no
  entry when there is none.  (Ids are 64-bit; the run creates fewer sessions than there are ids.)
\<close>

theorem listener_limits:
  assumes "listener_run J as (set_limits c p f q t (new_listener opened)) = Some l" "length as < 2 ^ 64 - 1"
  shows "(0 < c \<longrightarrow> session_count l \<le> c) \<and> (0 < p \<longrightarrow> ip_sessions ip l \<le> p) \<and>
    umap_find ip (tl_ip_counts l) = (if ip_sessions ip l = 0 then None else Some (ip_sessions ip l))"
proof -
  have "listener_inv l \<and> tl_max_connections l = c \<and> tl_max_per_ip l = p"
    using listener_run_inv [OF assms(1) new_listener_inv] assms(2) by (simp add: set_limits_def new_listener_def)
  then have inv: "table_inv l" "limits_inv l" and c: "tl_max_connections l = c" and p: "tl_max_per_ip l = p"
    by (simp_all add: listener_inv_def)
  have "0 < c \<longrightarrow> session_count l \<le> c" using inv(2) by (simp add: limits_inv_def session_count_def c)
  moreover have "0 < p \<longrightarrow> ip_sessions ip l \<le> p" using inv(2) by (simp add: limits_inv_def p)
  ultimately show ?thesis using inv(1) by (simp add: table_inv_def)
qed

definition sample_accepts :: "RemoteAddress \<Rightarrow> 'j listener_action list" where
  "sample_accepts addr =
     [AcceptConnection True, AcceptEndpoint (Some addr), AcceptSession True None, AcceptRun]"

definition sample_addr :: "RemoteAddress" where
  "sample_addr = \<lparr> ra_ip = ''10.0.0.1'', ra_port = 4000 \<rparr>"

theorem listener_limits_witness:
  "\<exists>l. listener_run (sample_api []) (ListenerStart # sample_accepts sample_addr @
        [AcceptConnection True, AcceptEndpoint (Some sample_addr)]) (set_limits 5 1 0 0 0 (new_listener True)) = Some l \<and>
     session_count l \<le> 5 \<and> ip_sessions ''10.0.0.1'' l \<le> 1 \<and> tl_last_rejection l = ''ip_limit''"
proof -
  let ?as = "ListenerStart # sample_accepts sample_addr @ [AcceptConnection True, AcceptEndpoint (Some sample_addr)]"
  have "map_option tl_last_rejection (listener_run (sample_api []) ?as (set_limits 5 1 0 0 0 (new_listener True))) = Some ''ip_limit''"
    by code_simp
  then obtain l where l: "listener_run (sample_api []) ?as (set_limits 5 1 0 0 0 (new_listener True)) = Some l"
    and "tl_last_rejection l = ''ip_limit''" by auto
  moreover from listener_limits [OF l] have "session_count l \<le> 5 \<and> ip_sessions ''10.0.0.1'' l \<le> 1"
    by (simp add: sample_accepts_def)
  ultimately show ?thesis by blast
qed

text \<open>
  C21. No session is lost and none stays behind: once the closes that were started have run to their end,
  the sessions \<open>find_session\<close> knows are exactly the sessions that are alive.
\<close>

theorem listener_table_exact:
  assumes "listener_run J as (set_limits c p f q t (new_listener opened)) = Some l" "length as < 2 ^ 64 - 1"
    and "tl_to_close l = []" "tl_closed l = []"
    and "\<And>k sk. umap_find k (tl_store l) = Some sk \<Longrightarrow> ss_closing sk = []"
  shows "find_session i l = Some st \<longleftrightarrow> umap_find i (tl_store l) = Some st \<and> ss_alive st"
proof -
  have inv: "listener_inv l"
    using listener_run_inv [OF assms(1) new_listener_inv] assms(2) by (simp add: set_limits_def new_listener_def)
  have "ss_alive st \<longleftrightarrow> i \<in> set (tl_sessions l)" if "umap_find i (tl_store l) = Some st"
    using inv that assms(3,4) assms(5) [OF that] by (auto simp: listener_inv_def life_inv_def)
  then show ?thesis by (auto simp: find_session_def split: if_splits)
qed

theorem listener_table_exact_witness:
  "\<exists>l. listener_run (sample_api []) (ListenerStart # sample_accepts sample_addr @
        [SessionAction 1 (CloseExchange ''bye''), SessionAction 1 ClosePost, SessionClosed 0])
        (set_limits 0 0 0 0 0 (new_listener True)) = Some l \<and> find_session 1 l = None"
proof -
  let ?as = "ListenerStart # sample_accepts sample_addr @
        [SessionAction 1 (CloseExchange ''bye''), SessionAction 1 ClosePost, SessionClosed 0]"
  have "map_option (\<lambda>l. (tl_to_close l, tl_closed l, map (\<lambda>(k, st). (k, ss_alive st, ss_closing st)) (tl_store l)))
      (listener_run (sample_api []) ?as (set_limits 0 0 0 0 0 (new_listener True))) = Some ([], [], [(1, False, [])])"
    by code_simp
  then obtain l st where l: "listener_run (sample_api []) ?as (set_limits 0 0 0 0 0 (new_listener True)) = Some l"
    and store: "tl_store l = [(1, st)]" "\<not> ss_alive st" "ss_closing st = []"
    and rest: "tl_to_close l = []" "tl_closed l = []"
    by auto
  have known: "find_session 1 l = Some sk \<longleftrightarrow> umap_find 1 (tl_store l) = Some sk \<and> ss_alive sk" for sk
    by (rule listener_table_exact [OF l _ rest]) (auto simp: sample_accepts_def store umap_find_def split: if_splits)
  have "find_session 1 l \<noteq> Some sk" for sk using store known [of sk] by (auto simp: umap_find_def)
  then have "find_session 1 l = None" by (metis not_Some_eq)
  with l show ?thesis by blast
qed

text \<open>
  A stop that comes while the accept handler is between its checks and the creation of the session misses
  it: the session is stored and started after the table was cleared, and nothing closes it.
\<close>

lemma stop_misses_accepted_session:
  "map_option (\<lambda>l. (tl_listening l, session_count l, tl_to_close l, map_option ss_alive (find_session 1 l)))
     (listener_run (sample_api [])
       [ListenerStart, AcceptConnection True, AcceptEndpoint (Some sample_addr), Stop, AcceptSession True None, AcceptRun]
       (new_listener True)) = Some (False, 1, [], Some True)"
  by code_simp

text \<open>An accepted connection whose address cannot be read any more ends the accepting.\<close>

lemma lost_peer_stops_accepting:
  "tl_accept l = AcceptAddress \<Longrightarrow> listener_act J (AcceptEndpoint None) l = Some l' \<Longrightarrow>
   tl_accept l' = AcceptIdle \<and> tl_listening l' = tl_listening l"
  by (auto simp: accept_address_def)

end
