(* ===== verification/Lua_Pack.thy ===== *)
theory Lua_Pack
  imports Byte_Order
begin

section \<open>LuaPack\<close>

text \<open>
  \<open>LuaPackEncoder\<close> and \<open>LuaPackDecoder\<close> of \<open>src/src/lua/lua_runtime.cpp\<close>: the binary form of Lua values.

  A table is the list of its entries in the order \<open>lua_next\<close> visits them, which Lua leaves open; it has no
  metatable.  The floating point numbers and what sol2 answers about them (\<open>is<int>\<close>, \<open>as<int>\<close>) are the
  parameter \<open>double_api\<close>.  A failed encoding leaves the bytes written so far in the buffer of the caller,
  which the model does not return.  \<open>Undefined\<close> is undefined behaviour of the source, \<open>LuaRaise\<close> an error
  raised by Lua when a table is indexed with nil or NaN.
\<close>

datatype 'd lua =
    LNil
  | LBool bool
  | LInteger int
  | LNumber 'd
  | LString bytes
  | LTable "('d lua \<times> 'd lua) list"
  | LHandle bytes
  | LOther

datatype pack_error = Failed string | Undefined | LuaRaise

text \<open>
  \<open>da_of_int\<close> and \<open>da_to_int\<close> are the casts between \<open>int64_t\<close> and \<open>double\<close> (\<open>None\<close>: out of range), \<open>da_eq\<close> the
  comparison, \<open>da_bits\<close> and \<open>da_of_bits\<close> the copies to and from the bits, \<open>da_key\<close> the integer a float is
  turned into as a table key.
\<close>

record 'd double_api =
  da_of_int :: "int \<Rightarrow> 'd"
  da_to_int :: "'d \<Rightarrow> int option"
  da_eq :: "'d \<Rightarrow> 'd \<Rightarrow> bool"
  da_bits :: "'d \<Rightarrow> u64"
  da_of_bits :: "u64 \<Rightarrow> 'd"
  da_is_int :: "'d \<Rightarrow> bool"
  da_as_int :: "'d \<Rightarrow> int"
  da_key :: "'d \<Rightarrow> int option"
  da_is_nan :: "'d \<Rightarrow> bool"

record pack_config =
  pc_max_nesting_depth :: nat
  pc_max_string_length :: nat
  pc_max_array_length :: nat
  pc_max_map_entries :: nat

definition default_pack_config :: pack_config where
  "default_pack_config =
     \<lparr> pc_max_nesting_depth = 64, pc_max_string_length = 1048576, pc_max_array_length = 1000000,
       pc_max_map_entries = 100000 \<rparr>"

datatype TypeTag = TagNil | TagFalse | TagTrue | TagInteger | TagNumber | TagShortString | TagString | TagArray | TagMap
  | TagServiceHandle | TagExtension

definition tag_byte :: "TypeTag \<Rightarrow> u8" where
  "tag_byte t =
     (case t of TagNil \<Rightarrow> 0x00 | TagFalse \<Rightarrow> 0x01 | TagTrue \<Rightarrow> 0x02 | TagInteger \<Rightarrow> 0x03 | TagNumber \<Rightarrow> 0x04
      | TagShortString \<Rightarrow> 0x05 | TagString \<Rightarrow> 0x06 | TagArray \<Rightarrow> 0x07 | TagMap \<Rightarrow> 0x08 | TagServiceHandle \<Rightarrow> 0x10
      | TagExtension \<Rightarrow> 0xFF)"

text \<open>The loops that push the low byte and shift; bits shifted in from above are never written.\<close>

fun push_le :: "nat \<Rightarrow> u64 \<Rightarrow> bytes" where
  "push_le 0 v = []"
| "push_le (Suc n) v = ucast (v AND 0xFF) # push_le n (drop_bit 8 v)"

subsection \<open>Encoding\<close>

definition encode_number :: "'d double_api \<Rightarrow> 'd \<Rightarrow> pack_error + bytes" where
  "encode_number D d =
     (case da_to_int D d of
        None \<Rightarrow> Inl Undefined
      | Some as_int \<Rightarrow>
          if da_eq D (da_of_int D as_int) d then Inr (tag_byte TagInteger # push_le 8 (word_of_int as_int))
          else Inr (tag_byte TagNumber # push_le 8 (da_bits D d)))"

definition encode_string :: "pack_config \<Rightarrow> bytes \<Rightarrow> pack_error + bytes" where
  "encode_string cfg str =
     (if 256 \<le> length str then
        if pc_max_string_length cfg < length str then Inl (Failed ''string too long'')
        else Inr (tag_byte TagString # push_le 4 (of_nat (length str)) @ str)
      else Inr (tag_byte TagShortString # of_nat (length str) # str))"

fun is_int_key :: "'d double_api \<Rightarrow> 'd lua \<Rightarrow> bool" where
  "is_int_key D (LInteger i) = True"
| "is_int_key D (LNumber d) = da_is_int D d"
| "is_int_key D _ = False"

fun as_int_key :: "'d double_api \<Rightarrow> 'd lua \<Rightarrow> int" where
  "as_int_key D (LInteger i) = to_int32 i"
| "as_int_key D (LNumber d) = to_int32 (da_as_int D d)"
| "as_int_key D _ = 0"

text \<open>The loop over the keys: whether all are positive integers, the largest, and the entries it visited.\<close>

fun scan_keys :: "'d double_api \<Rightarrow> nat \<Rightarrow> nat \<Rightarrow> ('d lua \<times> 'd lua) list \<Rightarrow> bool \<times> nat \<times> nat" where
  "scan_keys D max_index entry_count [] = (True, max_index, entry_count)"
| "scan_keys D max_index entry_count ((k, _) # kvs) =
     (if \<not> is_int_key D k then (False, max_index, entry_count + 1)
      else if as_int_key D k \<le> 0 then (False, max_index, entry_count + 1)
      else scan_keys D (max max_index (nat (as_int_key D k))) (entry_count + 1) kvs)"

fun table_get :: "('d lua \<times> 'd lua) list \<Rightarrow> int \<Rightarrow> 'd lua" where
  "table_get [] i = LNil"
| "table_get ((k, v) # kvs) i = (case k of LInteger j \<Rightarrow> if i = j then v else table_get kvs i | _ \<Rightarrow> table_get kvs i)"

definition is_string :: "'d lua \<Rightarrow> bool" where
  "is_string v = (case v of LString _ \<Rightarrow> True | _ \<Rightarrow> False)"

function (sequential) encode_value :: "'d double_api \<Rightarrow> pack_config \<Rightarrow> nat \<Rightarrow> 'd lua \<Rightarrow> pack_error + bytes"
  and encode_elements :: "'d double_api \<Rightarrow> pack_config \<Rightarrow> nat \<Rightarrow> 'd lua list \<Rightarrow> pack_error + bytes"
  and encode_entries :: "'d double_api \<Rightarrow> pack_config \<Rightarrow> nat \<Rightarrow> ('d lua \<times> 'd lua) list \<Rightarrow> pack_error + bytes" where
  "encode_value D cfg depth v =
     (if pc_max_nesting_depth cfg < depth then Inl (Failed ''max nesting depth exceeded'')
      else case v of
        LNil \<Rightarrow> Inr [tag_byte TagNil]
      | LBool b \<Rightarrow> Inr [tag_byte (if b then TagTrue else TagFalse)]
      | LInteger i \<Rightarrow> encode_number D (da_of_int D i)
      | LNumber d \<Rightarrow> encode_number D d
      | LString str \<Rightarrow> encode_string cfg str
      | LTable kvs \<Rightarrow>
          (case scan_keys D 0 0 kvs of (array_like, max_index, entry_count) \<Rightarrow>
             if array_like \<and> max_index = entry_count \<and> max_index \<le> pc_max_array_length cfg then
               attempt (encode_elements D cfg (depth + 1) (map (\<lambda>i. table_get kvs (int i)) [1..<max_index + 1]))
                 (\<lambda>out. Inr (tag_byte TagArray # push_le 4 (of_nat max_index) @ out))
             else if pc_max_map_entries cfg < entry_count then Inl (Failed ''map has too many entries'')
             else
               attempt (encode_entries D cfg (depth + 1) kvs)
                 (\<lambda>out. Inr (tag_byte TagMap # push_le 4 (of_nat entry_count) @ out)))
      | LHandle i \<Rightarrow>
          attempt (encode_value D cfg (depth + 1) (LString i)) (\<lambda>out. Inr (tag_byte TagServiceHandle # out))
      | LOther \<Rightarrow> Inl (Failed ''unsupported type for LuaPack encoding''))"
| "encode_elements D cfg depth [] = Inr []"
| "encode_elements D cfg depth (v # vs) =
     attempt (encode_value D cfg depth v) (\<lambda>b. attempt (encode_elements D cfg depth vs) (\<lambda>bs. Inr (b @ bs)))"
| "encode_entries D cfg depth [] = Inr []"
| "encode_entries D cfg depth ((k, v) # kvs) =
     (if is_string k \<or> is_int_key D k then
        attempt (encode_value D cfg depth k) (\<lambda>a.
        attempt (encode_value D cfg depth v) (\<lambda>b.
        attempt (encode_entries D cfg depth kvs) (\<lambda>bs. Inr (a @ b @ bs))))
      else Inl (Failed ''map keys must be string or integer''))"
  by pat_completeness auto
termination
  by (relation "measures
       [\<lambda>x. case x of
          Inl (_, cfg, depth, _) \<Rightarrow> pc_max_nesting_depth cfg + 1 - depth
        | Inr (Inl (_, cfg, depth, _)) \<Rightarrow> pc_max_nesting_depth cfg + 1 - depth
        | Inr (Inr (_, cfg, depth, _)) \<Rightarrow> pc_max_nesting_depth cfg + 1 - depth,
        \<lambda>x. case x of Inl _ \<Rightarrow> 0 | Inr (Inl (_, _, _, vs)) \<Rightarrow> 1 + length vs | Inr (Inr (_, _, _, kvs)) \<Rightarrow> 1 + length kvs]")
     auto

declare encode_value.simps [simp del]

definition pack_header :: bytes where
  "pack_header = [0x4C, 0x50, 1, 0]"

definition luapack_encode :: "'d double_api \<Rightarrow> pack_config \<Rightarrow> 'd lua \<Rightarrow> pack_error + bytes" where
  "luapack_encode D cfg v = attempt (encode_value D cfg 0 v) (\<lambda>out. Inr (pack_header @ out))"

subsection \<open>Decoding\<close>

text \<open>
  \<open>t[k] = v\<close>: a float key with an integral value becomes an integer, storing nil removes the entry, nil and
  NaN are refused.  A decoded table is a new object, equal to no other key.  The model lists the entries in the
  order they were stored; the order in which \<open>lua_next\<close> visits the real table is Lua's own, so a decoded
  list stands for the table with these entries, and encoding it again is only the code's encoding for that
  order of visits.
\<close>

definition table_key :: "'d double_api \<Rightarrow> 'd lua \<Rightarrow> pack_error + 'd lua" where
  "table_key D k =
     (case k of
        LNil \<Rightarrow> Inl LuaRaise
      | LNumber d \<Rightarrow>
          if da_is_nan D d then Inl LuaRaise
          else (case da_key D d of Some i \<Rightarrow> Inr (LInteger i) | None \<Rightarrow> Inr k)
      | _ \<Rightarrow> Inr k)"

definition same_key :: "'d double_api \<Rightarrow> 'd lua \<Rightarrow> 'd lua \<Rightarrow> bool" where
  "same_key D a b =
     (case (a, b) of
        (LBool x, LBool y) \<Rightarrow> x = y
      | (LInteger x, LInteger y) \<Rightarrow> x = y
      | (LNumber x, LNumber y) \<Rightarrow> da_eq D x y
      | (LString x, LString y) \<Rightarrow> x = y
      | _ \<Rightarrow> False)"

fun table_put :: "'d double_api \<Rightarrow> ('d lua \<times> 'd lua) list \<Rightarrow> 'd lua \<Rightarrow> 'd lua \<Rightarrow> ('d lua \<times> 'd lua) list" where
  "table_put D [] k v = (case v of LNil \<Rightarrow> [] | _ \<Rightarrow> [(k, v)])"
| "table_put D ((k', v') # kvs) k v =
     (if same_key D k' k then (case v of LNil \<Rightarrow> kvs | _ \<Rightarrow> (k', v) # kvs) else (k', v') # table_put D kvs k v)"

definition table_set :: "'d double_api \<Rightarrow> ('d lua \<times> 'd lua) list \<Rightarrow> 'd lua \<Rightarrow> 'd lua \<Rightarrow> pack_error + ('d lua \<times> 'd lua) list" where
  "table_set D kvs k v = attempt (table_key D k) (\<lambda>k'. Inr (table_put D kvs k' v))"

definition read_len :: "bytes \<Rightarrow> u32" where
  "read_len data = ucast (read_uint_le 0 0 (take 4 (drop 1 data)))"

text \<open>
  \<open>size < 5 + len\<close> and \<open>out_consumed = 5 + len\<close> compute in 32 bits; when the sum has wrapped the string is
  read beyond the data.
\<close>

definition decode_long_string :: "bytes \<Rightarrow> pack_error + 'd lua \<times> nat" where
  "decode_long_string data =
     (if length data < 5 then Inl (Failed ''truncated string length'')
      else
        let len = read_len data in
        if length data < unat (5 + len) then Inl (Failed ''truncated string data'')
        else if length data < 5 + unat len then Inl Undefined
        else Inr (LString (take (unat len) (drop 5 data)), unat (5 + len)))"

function (sequential) decode_value :: "'d double_api \<Rightarrow> bytes \<Rightarrow> pack_error + 'd lua \<times> nat"
  and decode_elements ::
    "'d double_api \<Rightarrow> nat \<Rightarrow> nat \<Rightarrow> bytes \<Rightarrow> ('d lua \<times> 'd lua) list \<Rightarrow> nat \<Rightarrow> pack_error + ('d lua \<times> 'd lua) list \<times> nat"
  and decode_entries ::
    "'d double_api \<Rightarrow> nat \<Rightarrow> bytes \<Rightarrow> ('d lua \<times> 'd lua) list \<Rightarrow> nat \<Rightarrow> pack_error + ('d lua \<times> 'd lua) list \<times> nat" where
  "decode_value D data =
     (if data = [] then Inl (Failed ''unexpected end of data'')
      else
        let tag = hd data in
        if tag = tag_byte TagNil then Inr (LNil, 1)
        else if tag = tag_byte TagFalse then Inr (LBool False, 1)
        else if tag = tag_byte TagTrue then Inr (LBool True, 1)
        else if tag = tag_byte TagInteger then
          if length data < 9 then Inl (Failed ''truncated integer'')
          else Inr (LInteger (sint (read_uint_le 0 0 (take 8 (drop 1 data)))), 9)
        else if tag = tag_byte TagNumber then
          if length data < 9 then Inl (Failed ''truncated number'')
          else Inr (LNumber (da_of_bits D (read_uint_le 0 0 (take 8 (drop 1 data)))), 9)
        else if tag = tag_byte TagShortString then
          if length data < 2 then Inl (Failed ''truncated short string'')
          else let len = unat (data ! 1) in
               if length data < 2 + len then Inl (Failed ''truncated short string data'')
               else Inr (LString (take len (drop 2 data)), 2 + len)
        else if tag = tag_byte TagString then decode_long_string data
        else if tag = tag_byte TagArray then
          if length data < 5 then Inl (Failed ''truncated array length'')
          else attempt (decode_elements D 0 (unat (read_len data)) (drop 5 data) [] 5) (\<lambda>(t, c). Inr (LTable t, c))
        else if tag = tag_byte TagMap then
          if length data < 5 then Inl (Failed ''truncated map count'')
          else attempt (decode_entries D (unat (read_len data)) (drop 5 data) [] 5) (\<lambda>(t, c). Inr (LTable t, c))
        else Inl (Failed (''unknown type tag: '' @ to_string_nat (unat tag))))"
| "decode_elements D i n data t c =
     (if n = 0 then Inr (t, c)
      else attempt (decode_value D data) (\<lambda>(v, k).
           attempt (table_set D t (LInteger (int i + 1)) v) (\<lambda>t'.
           decode_elements D (i + 1) (n - 1) (drop k data) t' (c + k))))"
| "decode_entries D n data t c =
     (if n = 0 then Inr (t, c)
      else attempt (decode_value D data) (\<lambda>(key, k1).
           attempt (decode_value D (drop k1 data)) (\<lambda>(v, k2).
           attempt (table_set D t key v) (\<lambda>t'.
           decode_entries D (n - 1) (drop k2 (drop k1 data)) t' (c + k1 + k2)))))"
  by pat_completeness auto
termination
  by (relation "measures
       [\<lambda>x. case x of Inl (_, data) \<Rightarrow> length data | Inr (Inl (_, _, _, data, _, _)) \<Rightarrow> length data
          | Inr (Inr (_, _, data, _, _)) \<Rightarrow> length data,
        \<lambda>x. case x of Inl _ \<Rightarrow> 0 | Inr (Inl (_, _, n, _, _, _)) \<Rightarrow> 1 + n | Inr (Inr (_, n, _, _, _)) \<Rightarrow> 1 + n]")
     auto

declare decode_value.simps [simp del] decode_elements.simps [simp del] decode_entries.simps [simp del]

text \<open>\<open>decode\<close> of the decoder: the value and the bytes it reports as consumed.\<close>

definition luapack_decode :: "'d double_api \<Rightarrow> bytes \<Rightarrow> pack_error + 'd lua \<times> nat" where
  "luapack_decode D bs =
     (if length bs < 4 then Inl (Failed ''invalid LuaPack header: too short'')
      else if bs ! 0 \<noteq> 0x4C \<or> bs ! 1 \<noteq> 0x50 then Inl (Failed ''invalid LuaPack magic bytes'')
      else if bs ! 2 \<noteq> 1 then Inl (Failed ''unsupported LuaPack version'')
      else decode_value D (drop 4 bs))"

subsection \<open>Integers\<close>

lemma push_le_bytes: "push_le n v = map (\<lambda>i. ucast (drop_bit (i * 8) v)) [0..<n]"
proof (induction n arbitrary: v)
  case (Suc n)
  have "map (\<lambda>i. ucast (drop_bit (i * 8) v) :: u8) [0..<Suc n] =
      ucast v # map (\<lambda>i. ucast (drop_bit (i * 8) (drop_bit 8 v))) [0..<n]"
    by (simp add: upt_conv_Cons map_Suc_upt [symmetric] add.commute del: upt_Suc)
  then show ?case using Suc.IH by simp
qed simp

lemma push_le_length [simp]: "length (push_le n v) = n"
  by (simp add: push_le_bytes)

lemma read_push_8: "read_uint_le 0 0 (push_le 8 v) = v"
proof -
  have "take_bit 64 v = v" using take_bit_word_eq_self [of 64 v] by simp
  then show ?thesis using read_uint_le_bytes [of 0 8 v] by (simp add: push_le_bytes)
qed

lemma read_push_4: "n < 2 ^ 32 \<Longrightarrow> unat (ucast (read_uint_le 0 0 (push_le 4 (of_nat n))) :: u32) = n"
proof -
  assume n: "n < 2 ^ 32"
  then have "n < 2 ^ 64" by simp
  then have "unat (of_nat n :: u64) = n" by (rule unat_of_nat_u64)
  moreover have "read_uint_le 0 0 (push_le 4 (of_nat n)) = take_bit 32 (of_nat n :: u64)"
    using read_uint_le_bytes [of 0 4 "of_nat n"] by (simp add: push_le_bytes)
  ultimately show ?thesis
    using n by (simp add: unsigned_ucast_eq unsigned_take_bit_eq take_bit_nat_eq_self)
qed

lemma read_len_pushed: "n < 2 ^ 32 \<Longrightarrow> unat (read_len (tag # push_le 4 (of_nat n) @ rest)) = n"
  by (simp add: read_len_def read_push_4)

subsection \<open>What comes back unchanged\<close>

text \<open>
  The values LuaPack can carry: integers a double holds exactly, numbers that are no integers, strings,
  and tables whose keys are strings or integers when the loop over the keys visits every entry, that is,
  when no key but the last is a string or not positive.  A table it takes for an array has its entries in order.
\<close>

definition plain_key :: "'d lua \<Rightarrow> bool" where
  "plain_key k = (case k of LString _ \<Rightarrow> True | LInteger _ \<Rightarrow> True | _ \<Rightarrow> False)"

inductive packable :: "'d double_api \<Rightarrow> 'd lua \<Rightarrow> bool" for D where
  nil: "packable D LNil"
| bool: "packable D (LBool b)"
| integer: "da_to_int D (da_of_int D i) = Some i \<Longrightarrow> da_eq D (da_of_int D i) (da_of_int D i) \<Longrightarrow>
    - (2 ^ 63) \<le> i \<Longrightarrow> i < 2 ^ 63 \<Longrightarrow> packable D (LInteger i)"
| number: "da_to_int D d = Some i \<Longrightarrow> \<not> da_eq D (da_of_int D i) d \<Longrightarrow> da_of_bits D (da_bits D d) = d \<Longrightarrow>
    packable D (LNumber d)"
| str: "packable D (LString s)"
| tab: "(\<And>k v. (k, v) \<in> set kvs \<Longrightarrow> packable D k) \<Longrightarrow> (\<And>k v. (k, v) \<in> set kvs \<Longrightarrow> packable D v) \<Longrightarrow>
    \<forall>(k, v) \<in> set kvs. plain_key k \<and> v \<noteq> LNil \<Longrightarrow> distinct (map fst kvs) \<Longrightarrow>
    scan_keys D 0 0 kvs = (a, m, length kvs) \<Longrightarrow>
    (a \<and> m = length kvs \<longrightarrow> map fst kvs = map (\<lambda>i. LInteger (int i)) [1..<m + 1]) \<Longrightarrow>
    packable D (LTable kvs)"

inductive_cases packable_simps:
  "packable D (LInteger i)" "packable D (LNumber d)" "packable D (LTable kvs)" "packable D (LHandle h)" "packable D LOther"

definition config_ok :: "pack_config \<Rightarrow> bool" where
  "config_ok cfg \<longleftrightarrow>
     pc_max_string_length cfg < 2 ^ 32 - 5 \<and> pc_max_array_length cfg < 2 ^ 32 \<and> pc_max_map_entries cfg < 2 ^ 32"

lemma tag_bytes: "tag_byte TagNil = 0" "tag_byte TagFalse = 1" "tag_byte TagTrue = 2" "tag_byte TagInteger = 3"
  "tag_byte TagNumber = 4" "tag_byte TagShortString = 5" "tag_byte TagString = 6" "tag_byte TagArray = 7"
  "tag_byte TagMap = 8" "tag_byte TagServiceHandle = 16"
  by (simp_all add: tag_byte_def)

lemma sint_word: "- (2 ^ 63) \<le> i \<Longrightarrow> i < 2 ^ 63 \<Longrightarrow> sint (word_of_int i :: u64) = i"
  using signed_take_bit_int_eq_self [of 63 i] by (simp add: sint_sbintrunc' signed_of_int)

lemma unat_5_add: "unat (x :: u32) < 2 ^ 32 - 5 \<Longrightarrow> unat (5 + x) = 5 + unat x"
proof -
  assume x: "unat x < 2 ^ 32 - 5"
  have "unat (of_nat (5 + unat x) :: u32) = 5 + unat x" using x by (intro unat_of_nat_u32) simp
  then show ?thesis by simp
qed

lemma decode_integer: "- (2 ^ 63) \<le> i \<Longrightarrow> i < 2 ^ 63 \<Longrightarrow>
   decode_value D (tag_byte TagInteger # push_le 8 (word_of_int i) @ rest) = Inr (LInteger i, 9)"
  by (subst decode_value.simps) (simp add: tag_bytes read_push_8 sint_word)

lemma decode_number: "da_of_bits D (da_bits D d) = d \<Longrightarrow>
   decode_value D (tag_byte TagNumber # push_le 8 (da_bits D d) @ rest) = Inr (LNumber d, 9)"
  by (subst decode_value.simps) (simp add: tag_bytes read_push_8)

lemma decode_string:
  assumes "encode_string cfg str = Inr bs" "config_ok cfg"
  shows "decode_value D (bs @ rest) = Inr (LString str, length bs)"
proof (cases "256 \<le> length str")
  case False
  then have bs: "bs = tag_byte TagShortString # of_nat (length str) # str" using assms(1) by (simp add: encode_string_def)
  have "unat (of_nat (length str) :: u8) = length str"
    using False by (simp add: unsigned_of_nat take_bit_nat_eq_self)
  then show ?thesis by (subst decode_value.simps) (simp add: bs tag_bytes)
next
  case True
  then have bs: "bs = tag_byte TagString # push_le 4 (of_nat (length str)) @ str"
    and le: "length str \<le> pc_max_string_length cfg"
    using assms(1) by (auto simp: encode_string_def split: if_splits)
  have len: "length str < 2 ^ 32 - 5" using le assms(2) by (simp add: config_ok_def)
  let ?data = "bs @ rest"
  have n: "unat (read_len ?data) = length str"
    using read_len_pushed [of "length str" "tag_byte TagString" "str @ rest"] len by (simp add: bs)
  have "unat (5 + read_len ?data) = 5 + length str" using unat_5_add [of "read_len ?data"] n len by simp
  then have "decode_long_string ?data = Inr (LString str, length bs)"
    using n by (simp add: decode_long_string_def Let_def) (simp add: bs)
  moreover have "decode_value D ?data = decode_long_string ?data"
    by (subst decode_value.simps) (simp add: bs tag_bytes)
  ultimately show ?thesis by simp
qed

lemma decode_constants:
  "decode_value D (tag_byte TagNil # rest) = Inr (LNil, 1)"
  "decode_value D (tag_byte TagFalse # rest) = Inr (LBool False, 1)"
  "decode_value D (tag_byte TagTrue # rest) = Inr (LBool True, 1)"
  by (simp_all add: decode_value.simps tag_bytes)

lemma decode_array_tag:
  "n < 2 ^ 32 \<Longrightarrow> decode_value D (tag_byte TagArray # push_le 4 (of_nat n) @ data) =
     attempt (decode_elements D 0 n data [] 5) (\<lambda>(t, c). Inr (LTable t, c))"
  using read_len_pushed [of n "tag_byte TagArray" data] by (subst decode_value.simps) (simp add: tag_bytes)

lemma decode_map_tag:
  "n < 2 ^ 32 \<Longrightarrow> decode_value D (tag_byte TagMap # push_le 4 (of_nat n) @ data) =
     attempt (decode_entries D n data [] 5) (\<lambda>(t, c). Inr (LTable t, c))"
  using read_len_pushed [of n "tag_byte TagMap" data] by (subst decode_value.simps) (simp add: tag_bytes)

lemma same_key_plain: "plain_key k' \<Longrightarrow> plain_key k \<Longrightarrow> same_key D k' k \<longleftrightarrow> k' = k"
  by (cases k'; cases k) (auto simp: plain_key_def same_key_def)

lemma table_put_new:
  assumes "v \<noteq> LNil" "plain_key k" "\<forall>k' \<in> fst ` set t. plain_key k' \<and> k' \<noteq> k"
  shows "table_put D t k v = t @ [(k, v)]"
  using assms(3)
proof (induction t)
  case Nil
  then show ?case using assms(1) by (cases v) auto
next
  case (Cons e t)
  then show ?case using assms(2) same_key_plain [of "fst e" k D] by (cases e) simp
qed

lemma table_set_new:
  assumes "v \<noteq> LNil" "plain_key k" "\<forall>k' \<in> fst ` set t. plain_key k' \<and> k' \<noteq> k"
  shows "table_set D t k v = Inr (t @ [(k, v)])"
proof -
  have "table_key D k = Inr k" using assms(2) by (cases k) (simp_all add: table_key_def plain_key_def)
  then show ?thesis using table_put_new [OF assms] by (simp add: table_set_def)
qed

lemma table_get_notin: "LInteger i \<notin> fst ` set kvs \<Longrightarrow> table_get kvs i = LNil"
  by (induction kvs) (auto split: lua.splits)

lemma table_get_in: "distinct (map fst kvs) \<Longrightarrow> (LInteger i, v) \<in> set kvs \<Longrightarrow> table_get kvs i = v"
proof (induction kvs)
  case (Cons e kvs)
  obtain k w where e: "e = (k, w)" by fastforce
  show ?case
  proof (cases "k = LInteger i")
    case True
    then have "(LInteger i, v) \<notin> set kvs" using Cons.prems(1) e by (force simp: image_iff)
    then show ?thesis using Cons.prems e True by simp
  next
    case False
    then have "table_get (e # kvs) i = table_get kvs i" by (cases k) (auto simp: e)
    then show ?thesis using Cons e False by auto
  qed
qed simp

text \<open>The elements of a table in order are the elements the encoder looks up.\<close>

lemma array_elements:
  assumes "map fst kvs = map (\<lambda>i. LInteger (int i)) [1..<m + 1]"
  shows "map (\<lambda>i. table_get kvs (int i)) [1..<m + 1] = map snd kvs"
proof (rule nth_equalityI)
  have len: "length kvs = m" using arg_cong [OF assms, of length] by simp
  then show "length (map (\<lambda>i. table_get kvs (int i)) [1..<m + 1]) = length (map snd kvs)" by simp
  have "distinct (map fst kvs)" unfolding assms by (auto simp: distinct_map inj_on_def)
  note get = table_get_in [OF this]
  fix i
  assume "i < length (map (\<lambda>i. table_get kvs (int i)) [1..<m + 1])"
  then have i: "i < m" by (simp del: upt_Suc)
  then have "fst (kvs ! i) = LInteger (int (i + 1))"
    using arg_cong [OF assms, of "\<lambda>xs. xs ! i"] len by (simp del: upt_Suc)
  then have "(LInteger (int (i + 1)), snd (kvs ! i)) \<in> set kvs"
    using nth_mem [of i kvs] i len by (metis prod.collapse)
  then show "map (\<lambda>i. table_get kvs (int i)) [1..<m + 1] ! i = map snd kvs ! i"
    using get [of "int (i + 1)"] i len by (simp del: upt_Suc)
qed

definition numbered :: "nat \<Rightarrow> 'd lua list \<Rightarrow> ('d lua \<times> 'd lua) list" where
  "numbered i vs = zip (map (\<lambda>j. LInteger (int j)) [i + 1..<i + 1 + length vs]) vs"

lemma numbered_Cons: "numbered i (v # vs) = (LInteger (int i + 1), v) # numbered (i + 1) vs"
  by (simp add: numbered_def upt_conv_Cons add.commute del: upt_Suc)

lemma numbered_kvs: "map fst kvs = map (\<lambda>i. LInteger (int i)) [1..<m + 1] \<Longrightarrow> numbered 0 (map snd kvs) = kvs"
proof -
  assume keys: "map fst kvs = map (\<lambda>i. LInteger (int i)) [1..<m + 1]"
  have "length kvs = m" using arg_cong [OF keys, of length] by simp
  then have "numbered 0 (map snd kvs) = zip (map fst kvs) (map snd kvs)" by (simp add: numbered_def keys)
  then show ?thesis by (simp add: zip_map_fst_snd)
qed

lemma decode_elements_step:
  assumes "decode_value D (b @ rest) = Inr (v, length b)" "v \<noteq> LNil"
    and "\<forall>k' \<in> fst ` set t. plain_key k' \<and> k' \<noteq> LInteger (int i + 1)"
  shows "decode_elements D i (Suc n) (b @ rest) t c =
    decode_elements D (i + 1) n rest (t @ [(LInteger (int i + 1), v)]) (c + length b)"
proof -
  have "plain_key (LInteger (int i + 1) :: 'a lua)" by (simp add: plain_key_def)
  from table_set_new [OF assms(2) this assms(3)] show ?thesis
    by (subst decode_elements.simps) (simp add: assms(1))
qed

lemma decode_entries_step:
  assumes "decode_value D (a @ b @ rest) = Inr (k, length a)" "decode_value D (b @ rest) = Inr (v, length b)"
    and "v \<noteq> LNil" "plain_key k" "\<forall>k' \<in> fst ` set t. plain_key k' \<and> k' \<noteq> k"
  shows "decode_entries D (Suc n) (a @ b @ rest) t c = decode_entries D n rest (t @ [(k, v)]) (c + length a + length b)"
  using table_set_new [OF assms(3,4,5)] by (subst decode_entries.simps) (simp add: assms(1,2))

lemma packable_table:
  assumes "packable D (LTable kvs)"
  obtains a m where "scan_keys D 0 0 kvs = (a, m, length kvs)"
    "\<forall>(k, v) \<in> set kvs. packable D k \<and> packable D v \<and> plain_key k \<and> v \<noteq> LNil" "distinct (map fst kvs)"
    "a \<and> m = length kvs \<longrightarrow> map fst kvs = map (\<lambda>i. LInteger (int i)) [1..<m + 1]"
  using assms
proof (cases rule: packable.cases)
  case (tab a m)
  have "\<forall>(k, v) \<in> set kvs. packable D k \<and> packable D v \<and> plain_key k \<and> v \<noteq> LNil" using tab(1-3) by fast
  then show ?thesis by (rule that [OF tab(5) _ tab(4) tab(6)])
qed

lemma table_decodes:
  assumes enc: "encode_value D cfg depth (LTable kvs) = Inr bs" and pack: "packable D (LTable kvs)" and cfg: "config_ok cfg"
    and elements: "\<And>a m out. scan_keys D 0 0 kvs = (a, m, length kvs) \<Longrightarrow>
      a \<and> m = length kvs \<and> m \<le> pc_max_array_length cfg \<Longrightarrow>
      map (\<lambda>i. table_get kvs (int i)) [1..<m + 1] = map snd kvs \<Longrightarrow>
      encode_elements D cfg (depth + 1) (map snd kvs) = Inr out \<Longrightarrow> \<forall>v \<in> set (map snd kvs). packable D v \<and> v \<noteq> LNil \<Longrightarrow>
      decode_elements D 0 (length kvs) (out @ rest) [] 5 = Inr (numbered 0 (map snd kvs), 5 + length out)"
    and entries: "\<And>a m out. scan_keys D 0 0 kvs = (a, m, length kvs) \<Longrightarrow>
      \<not> (a \<and> m = length kvs \<and> m \<le> pc_max_array_length cfg) \<Longrightarrow> length kvs \<le> pc_max_map_entries cfg \<Longrightarrow>
      encode_entries D cfg (depth + 1) kvs = Inr out \<Longrightarrow>
      \<forall>(k, v) \<in> set kvs. packable D k \<and> packable D v \<and> plain_key k \<and> v \<noteq> LNil \<Longrightarrow> distinct (map fst kvs) \<Longrightarrow>
      decode_entries D (length kvs) (out @ rest) [] 5 = Inr (kvs, 5 + length out)"
  shows "decode_value D (bs @ rest) = Inr (LTable kvs, length bs)"
proof -
  obtain a m where scan: "scan_keys D 0 0 kvs = (a, m, length kvs)"
    and ok: "\<forall>(k, v) \<in> set kvs. packable D k \<and> packable D v \<and> plain_key k \<and> v \<noteq> LNil"
    and keys: "distinct (map fst kvs)" "a \<and> m = length kvs \<longrightarrow> map fst kvs = map (\<lambda>i. LInteger (int i)) [1..<m + 1]"
    using packable_table [OF pack] by blast
  have depth: "\<not> pc_max_nesting_depth cfg < depth"
    using enc by (subst (asm) encode_value.simps) (auto split: if_splits)
  show ?thesis
  proof (cases "a \<and> m = length kvs \<and> m \<le> pc_max_array_length cfg")
    case True
    have vs: "map (\<lambda>i. table_get kvs (int i)) [1..<m + 1] = map snd kvs" using array_elements keys(2) True by blast
    obtain out where out: "encode_elements D cfg (depth + 1) (map snd kvs) = Inr out"
      and bs: "bs = tag_byte TagArray # push_le 4 (of_nat m) @ out"
      using enc depth True scan vs by (auto simp: encode_value.simps attempt_eq_Inr simp del: upt_Suc)
    have "decode_elements D 0 m (out @ rest) [] 5 = Inr (numbered 0 (map snd kvs), 5 + length out)"
      using elements [OF scan True vs out] ok True by (simp add: split_beta)
    moreover have "numbered 0 (map snd kvs) = kvs" using numbered_kvs [of kvs m] keys(2) True by blast
    moreover have "m < 2 ^ 32" using True cfg by (simp add: config_ok_def)
    ultimately show ?thesis using decode_array_tag [of m D "out @ rest"] by (simp add: bs)
  next
    case False
    obtain out where out: "encode_entries D cfg (depth + 1) kvs = Inr out"
      and bs: "bs = tag_byte TagMap # push_le 4 (of_nat (length kvs)) @ out"
      and le: "length kvs \<le> pc_max_map_entries cfg"
      using enc depth False scan by (auto simp: encode_value.simps attempt_eq_Inr split: if_splits)
    have "length kvs < 2 ^ 32" using le cfg by (simp add: config_ok_def)
    then show ?thesis
      using decode_map_tag [of "length kvs" D "out @ rest"] entries [OF scan False le out ok keys(1)] by (simp add: bs)
  qed
qed

text \<open>The three functions of the encoder and of the decoder, each for any bytes that follow.\<close>

lemma encoded_decodes:
  "encode_value D cfg depth v = Inr bs \<Longrightarrow> packable D v \<Longrightarrow> config_ok cfg \<Longrightarrow>
     decode_value D (bs @ rest) = Inr (v, length bs)"
  "encode_elements D cfg depth vs = Inr bs \<Longrightarrow> \<forall>v \<in> set vs. packable D v \<and> v \<noteq> LNil \<Longrightarrow> config_ok cfg \<Longrightarrow>
     \<forall>k \<in> fst ` set t. plain_key k \<and> (\<forall>j > i. k \<noteq> LInteger (int j)) \<Longrightarrow>
     decode_elements D i (length vs) (bs @ rest) t c = Inr (t @ numbered i vs, c + length bs)"
  "encode_entries D cfg depth kvs = Inr bs \<Longrightarrow>
     \<forall>(k, v) \<in> set kvs. packable D k \<and> packable D v \<and> plain_key k \<and> v \<noteq> LNil \<Longrightarrow> config_ok cfg \<Longrightarrow>
     distinct (map fst (t @ kvs)) \<Longrightarrow> \<forall>k \<in> fst ` set t. plain_key k \<Longrightarrow>
     decode_entries D (length kvs) (bs @ rest) t c = Inr (t @ kvs, c + length bs)"
proof (induction D cfg depth v and D cfg depth vs and D cfg depth kvs arbitrary: bs rest and bs rest i t c and bs rest t c
    rule: encode_value_encode_elements_encode_entries.induct)
  case (1 D cfg depth v)
  have depth: "\<not> pc_max_nesting_depth cfg < depth"
    using "1.prems"(1) by (subst (asm) encode_value.simps) (auto split: if_splits)
  show ?case
  proof (cases v)
    case (LInteger i)
    then have "bs = tag_byte TagInteger # push_le 8 (word_of_int i)" "- (2 ^ 63) \<le> i" "i < 2 ^ 63"
      using "1.prems" depth by (auto simp: encode_value.simps encode_number_def elim: packable_simps)
    then show ?thesis using decode_integer [of i D rest] LInteger by simp
  next
    case (LNumber d)
    then have "bs = tag_byte TagNumber # push_le 8 (da_bits D d)" "da_of_bits D (da_bits D d) = d"
      using "1.prems" depth by (auto simp: encode_value.simps encode_number_def elim: packable_simps)
    then show ?thesis using decode_number [of D d rest] LNumber by simp
  next
    case (LString str)
    then show ?thesis using "1.prems" depth decode_string by (simp add: encode_value.simps)
  next
    case (LTable kvs)
    show ?thesis
      unfolding LTable
    proof (rule table_decodes)
      show "decode_elements D 0 (length kvs) (out @ rest) [] 5 = Inr (numbered 0 (map snd kvs), 5 + length out)"
        if "scan_keys D 0 0 kvs = (a, m, length kvs)" "a \<and> m = length kvs \<and> m \<le> pc_max_array_length cfg"
          "map (\<lambda>i. table_get kvs (int i)) [1..<m + 1] = map snd kvs"
          "encode_elements D cfg (depth + 1) (map snd kvs) = Inr out"
          "\<forall>v \<in> set (map snd kvs). packable D v \<and> v \<noteq> LNil" for a m out
        using "1.IH"(1) [OF depth LTable that(1) [symmetric] refl that(2), unfolded that(3), OF that(4,5) "1.prems"(3), of "[]" 0 rest 5]
        by simp
      show "decode_entries D (length kvs) (out @ rest) [] 5 = Inr (kvs, 5 + length out)"
        if "scan_keys D 0 0 kvs = (a, m, length kvs)" "\<not> (a \<and> m = length kvs \<and> m \<le> pc_max_array_length cfg)"
          "length kvs \<le> pc_max_map_entries cfg" "encode_entries D cfg (depth + 1) kvs = Inr out"
          "\<forall>(k, v) \<in> set kvs. packable D k \<and> packable D v \<and> plain_key k \<and> v \<noteq> LNil" "distinct (map fst kvs)" for a m out
        using "1.IH"(2) [OF depth LTable that(1) [symmetric] refl that(2) _ that(4,5) "1.prems"(3), of "[]" rest 5] that(3,6)
        by simp
    qed (use "1.prems" LTable in simp_all)
  qed (use "1.prems" depth in \<open>auto simp: encode_value.simps decode_constants elim: packable_simps\<close>)
next
  case (2 D cfg depth)
  then show ?case by (simp add: decode_elements.simps numbered_def)
next
  case (3 D cfg depth v vs)
  obtain b bs' where b: "encode_value D cfg depth v = Inr b" "encode_elements D cfg depth vs = Inr bs'" "bs = b @ bs'"
    using "3.prems"(1) by (auto simp: attempt_eq_Inr)
  have "decode_value D (b @ bs' @ rest) = Inr (v, length b)" using "3.IH"(1) [OF b(1)] "3.prems" by simp
  moreover have "\<forall>k \<in> fst ` set t. plain_key k \<and> k \<noteq> LInteger (int i + 1)"
    using "3.prems"(4) by (metis lessI of_nat_Suc add.commute)
  ultimately have "decode_elements D i (Suc (length vs)) (b @ bs' @ rest) t c =
      decode_elements D (i + 1) (length vs) (bs' @ rest) (t @ [(LInteger (int i + 1), v)]) (c + length b)"
    using "3.prems"(2) by (intro decode_elements_step) simp_all
  also have "\<dots> = Inr ((t @ [(LInteger (int i + 1), v)]) @ numbered (i + 1) vs, c + length b + length bs')"
    using "3.IH"(2) [OF b(2)] "3.prems" by (auto simp: plain_key_def)
  finally show ?case by (simp add: b numbered_Cons)
next
  case (4 D cfg depth)
  then show ?case by (simp add: decode_entries.simps)
next
  case (5 D cfg depth k v kvs)
  have key: "is_string k \<or> is_int_key D k" using "5.prems"(1) by (auto split: if_splits)
  obtain a b bs' where b: "encode_value D cfg depth k = Inr a" "encode_value D cfg depth v = Inr b"
    "encode_entries D cfg depth kvs = Inr bs'" "bs = a @ b @ bs'"
    using "5.prems"(1) key by (auto simp: attempt_eq_Inr)
  have "decode_value D (a @ b @ bs' @ rest) = Inr (k, length a)" using "5.IH"(1) [OF key b(1)] "5.prems" by simp
  moreover have "decode_value D (b @ bs' @ rest) = Inr (v, length b)" using "5.IH"(2) [OF key b(2)] "5.prems" by simp
  moreover have "\<forall>k' \<in> fst ` set t. plain_key k' \<and> k' \<noteq> k" using "5.prems"(4,5) by auto
  ultimately have "decode_entries D (Suc (length kvs)) (a @ b @ bs' @ rest) t c =
      decode_entries D (length kvs) (bs' @ rest) (t @ [(k, v)]) (c + length a + length b)"
    using "5.prems"(2) by (intro decode_entries_step) simp_all
  also have "\<dots> = Inr ((t @ [(k, v)]) @ kvs, c + length a + length b + length bs')"
    using "5.IH"(3) [OF key b(3)] "5.prems" by auto
  finally show ?case by (simp add: b)
qed

subsection \<open>Properties\<close>

lemma decode_headed: "luapack_decode D (pack_header @ bs) = decode_value D bs"
  by (simp add: luapack_decode_def pack_header_def numeral_2_eq_2)

text \<open>
  C34. LuaPack is faithful on the values it can carry (\<open>packable\<close>): nil, booleans, strings, integers that a
  double holds exactly, numbers that are not whole and come back from their bits, and tables of these with
  string or integer keys, all counted by the classification, and with the keys of an array in order. With
  limits below 2^32 (2^32 - 5 for strings), whatever the encoder accepts of them the decoder gives back,
  whatever bytes follow, and it reports the bytes of the value as consumed (without the header). Other
  integers and whole numbers come back changed (\<open>whole_number_decodes\<close>).
\<close>

theorem luapack_roundtrip:
  assumes "luapack_encode D cfg v = Inr bs" "packable D v" "config_ok cfg"
  shows "luapack_decode D (bs @ rest) = Inr (v, length bs - 4)"
proof -
  obtain out where "encode_value D cfg 0 v = Inr out" "bs = pack_header @ out"
    using assms(1) by (auto simp: luapack_encode_def attempt_eq_Inr)
  then show ?thesis
    using encoded_decodes(1) [of D cfg 0 v out rest] assms(2,3) decode_headed [of D "out @ rest"]
    by (simp add: pack_header_def)
qed

text \<open>
  Every number passes through a double: an integer comes back as the one its double is truncated to, so
  2^53 + 1 comes back as 2^53, and a whole number such as 3.0 comes back as an integer.
\<close>

lemma whole_number_decodes:
  assumes "v = LNumber d \<or> v = LInteger i \<and> d = da_of_int D i"
    and "da_to_int D d = Some j" "da_eq D (da_of_int D j) d" "- (2 ^ 63) \<le> j" "j < 2 ^ 63"
  shows "\<exists>bs. luapack_encode D cfg v = Inr bs \<and> luapack_decode D (bs @ rest) = Inr (LInteger j, length bs - 4)"
proof -
  let ?b = "tag_byte TagInteger # push_le 8 (word_of_int j)"
  have "encode_value D cfg 0 v = Inr ?b" using assms by (auto simp: encode_value.simps encode_number_def)
  then have "luapack_encode D cfg v = Inr (pack_header @ ?b)" by (simp add: luapack_encode_def)
  moreover have "decode_value D (?b @ rest) = Inr (LInteger j, 9)"
    using decode_integer [OF assms(4,5), of D rest] by simp
  ultimately show ?thesis using decode_headed [of D "?b @ rest"] by (intro exI [of _ "pack_header @ ?b"]) (simp add: pack_header_def)
qed

text \<open>A concrete number type: half integers, with the bits of twice the value.\<close>

definition sample_double :: "int double_api" where
  "sample_double =
     \<lparr> da_of_int = (\<lambda>i. 2 * i), da_to_int = (\<lambda>d. Some (d div 2)), da_eq = (=), da_bits = word_of_int,
       da_of_bits = sint, da_is_int = (\<lambda>_. True), da_as_int = (\<lambda>d. d div 2),
       da_key = (\<lambda>d. if even d then Some (d div 2) else None), da_is_nan = (\<lambda>_. False) \<rparr>"

definition sample_pack_config :: pack_config where
  "sample_pack_config =
     \<lparr> pc_max_nesting_depth = 4, pc_max_string_length = 9, pc_max_array_length = 9, pc_max_map_entries = 9 \<rparr>"

definition sample_value :: "int lua" where
  "sample_value =
     LTable [(LInteger 1, LString [104, 105]), (LInteger 2, LTable [(LString [120], LNumber 7)]), (LInteger 3, LBool True)]"

lemma sample_packable: "packable sample_double sample_value"
proof -
  have ints: "packable sample_double (LInteger i)" if "- (2 ^ 63) \<le> i" "i < 2 ^ 63" for i
    using that by (intro packable.integer) (simp_all add: sample_double_def)
  have "packable sample_double (LNumber 7)"
    by (rule packable.number [of _ _ 3]) (simp_all add: sample_double_def)
  then have "packable sample_double (LTable [(LString [120], LNumber 7)])"
    by (intro packable.tab [where a = False and m = 0]) (auto intro: packable.str simp: plain_key_def)
  then show ?thesis
    unfolding sample_value_def
    by (intro packable.tab [where a = True and m = 3])
       (auto intro: packable.str packable.bool ints simp: plain_key_def to_int32_def upt_conv_Cons)
qed

theorem luapack_roundtrip_witness:
  "\<exists>bs. luapack_encode sample_double sample_pack_config sample_value = Inr bs \<and>
     luapack_decode sample_double (bs @ [9]) = Inr (sample_value, length bs - 4)"
proof -
  have "case luapack_encode sample_double sample_pack_config sample_value of Inl _ \<Rightarrow> False | Inr _ \<Rightarrow> True"
    by code_simp
  then obtain bs where bs: "luapack_encode sample_double sample_pack_config sample_value = Inr bs"
    by (auto split: sum.splits)
  have "config_ok sample_pack_config" by (simp add: config_ok_def sample_pack_config_def)
  with luapack_roundtrip [OF bs sample_packable] bs show ?thesis by blast
qed

lemma long_string_bounds:
  assumes "decode_long_string data = Inr (v, c)" "length data < 2 ^ 32"
  shows "1 \<le> c \<and> c \<le> length data"
proof -
  let ?n = "read_len data"
  have c: "c = unat (5 + ?n)" and size: "5 + unat ?n \<le> length data"
    using assms(1) by (auto simp: decode_long_string_def Let_def split: if_splits)
  then have "unat (5 + ?n) = 5 + unat ?n" using assms(2) by (intro unat_5_add) simp
  then show ?thesis using c size by simp
qed

lemma decode_bounds:
  "decode_value D data = Inr (v, c) \<Longrightarrow> length data < 2 ^ 32 \<Longrightarrow> 1 \<le> c \<and> c \<le> length data"
  "decode_elements D i n data t c0 = Inr (t', c) \<Longrightarrow> length data < 2 ^ 32 \<Longrightarrow> c0 + n \<le> c \<and> c \<le> c0 + length data"
  "decode_entries D n data t c0 = Inr (t', c) \<Longrightarrow> length data < 2 ^ 32 \<Longrightarrow> c0 + 2 * n \<le> c \<and> c \<le> c0 + length data"
proof (induction D data and D i n data t c0 and D n data t c0 arbitrary: v c and t' c and t' c
    rule: decode_value_decode_elements_decode_entries.induct)
  case (1 D data)
  consider "data \<noteq> []" "c = 1" | "9 \<le> length data" "c = 9" | len where "c = 2 + len" "2 + len \<le> length data"
    | "decode_long_string data = Inr (v, c)"
    | t where "5 \<le> length data" "data \<noteq> []" "hd data = tag_byte TagArray"
        "decode_elements D 0 (unat (read_len data)) (drop 5 data) [] 5 = Inr (t, c)"
    | t where "5 \<le> length data" "data \<noteq> []" "hd data = tag_byte TagMap"
        "decode_entries D (unat (read_len data)) (drop 5 data) [] 5 = Inr (t, c)"
    using "1.prems"(1) unfolding decode_value.simps [of D data] Let_def
    by (auto simp: attempt_eq_Inr not_less split: if_splits)
  then show ?case
  proof cases
    case 4
    then show ?thesis using long_string_bounds "1.prems"(2) by blast
  next
    case (5 t)
    have "length (drop 5 data) < 2 ^ 32" using "1.prems"(2) by simp
    then have "5 + unat (read_len data) \<le> c \<and> c \<le> 5 + length (drop 5 data)"
      using "1.IH"(1) [of "hd data" t c] 5 by (simp add: tag_bytes)
    then show ?thesis using 5 by simp
  next
    case (6 t)
    have "length (drop 5 data) < 2 ^ 32" using "1.prems"(2) by simp
    then have "5 + 2 * unat (read_len data) \<le> c \<and> c \<le> 5 + length (drop 5 data)"
      using "1.IH"(2) [of "hd data" t c] 6 by (simp add: tag_bytes)
    then show ?thesis using 6 by simp
  qed (auto simp: Suc_le_eq)
next
  case (2 D i n data t c0)
  show ?case
  proof (cases "n = 0")
    case False
    then obtain v k t1 where v: "decode_value D data = Inr (v, k)"
      and rest: "decode_elements D (i + 1) (n - 1) (drop k data) t1 (c0 + k) = Inr (t', c)"
      using "2.prems"(1) by (subst (asm) decode_elements.simps) (auto simp: attempt_eq_Inr)
    have "1 \<le> k \<and> k \<le> length data" using "2.IH"(1) [OF False v "2.prems"(2)] .
    moreover have "c0 + k + (n - 1) \<le> c \<and> c \<le> c0 + k + length (drop k data)"
      using "2.IH"(2) [OF False rest] "2.prems"(2) by simp
    ultimately show ?thesis using False unfolding length_drop by linarith
  qed (use "2.prems" in \<open>simp add: decode_elements.simps\<close>)
next
  case (3 D n data t c0)
  show ?case
  proof (cases "n = 0")
    case False
    then obtain key k1 v k2 t1 where key: "decode_value D data = Inr (key, k1)"
      and v: "decode_value D (drop k1 data) = Inr (v, k2)"
      and rest: "decode_entries D (n - 1) (drop k2 (drop k1 data)) t1 (c0 + k1 + k2) = Inr (t', c)"
      using "3.prems"(1) by (subst (asm) decode_entries.simps) (auto simp: attempt_eq_Inr)
    have "1 \<le> k1 \<and> k1 \<le> length data" using "3.IH"(1) [OF False key "3.prems"(2)] .
    moreover have "1 \<le> k2 \<and> k2 \<le> length (drop k1 data)" using "3.IH"(2) [OF False v] "3.prems"(2) by simp
    moreover have "c0 + k1 + k2 + 2 * (n - 1) \<le> c \<and> c \<le> c0 + k1 + k2 + length (drop k2 (drop k1 data))"
      using "3.IH"(3) [OF False rest] "3.prems"(2) by simp
    ultimately show ?thesis using False unfolding length_drop by linarith
  qed (use "3.prems" in \<open>simp add: decode_entries.simps\<close>)
qed

text \<open>
  C35. The decoder never claims bytes it was not given: on success it has consumed at least the tag and at
  most the data after the header.  (For messages of less than 4 GiB.)
\<close>

theorem luapack_decode_bounds:
  assumes "luapack_decode D bs = Inr (v, c)" "length bs < 2 ^ 32"
  shows "1 \<le> c \<and> c + 4 \<le> length bs"
proof -
  have "4 \<le> length bs" "decode_value D (drop 4 bs) = Inr (v, c)"
    using assms(1) by (auto simp: luapack_decode_def split: if_splits)
  then have "1 \<le> c \<and> c \<le> length bs - 4" using decode_bounds(1) [of D "drop 4 bs" v c] assms(2) by simp
  then show ?thesis using \<open>4 \<le> length bs\<close> by linarith
qed

theorem luapack_decode_bounds_witness:
  "luapack_decode sample_double (pack_header @ [2, 7]) = Inr (LBool True, 1) \<and> (1::nat) + 4 \<le> 6"
proof -
  have dec: "luapack_decode sample_double (pack_header @ [2, 7]) = Inr (LBool True, 1)" by code_simp
  from luapack_decode_bounds [OF dec] dec show ?thesis by (simp add: pack_header_def)
qed

text \<open>A length near \<open>2 ^ 32\<close> passes the bounds check.\<close>

lemma string_length_wraps: "luapack_decode D (pack_header @ [6, 0xFF, 0xFF, 0xFF, 0xFF]) = Inl Undefined"
proof -
  have "decode_value D [6, 0xFF, 0xFF, 0xFF, 0xFF] = decode_long_string [6, 0xFF, 0xFF, 0xFF, 0xFF]"
    by (subst decode_value.simps) (simp add: tag_bytes)
  also have "\<dots> = Inl Undefined"
  proof -
    have "read_len [6, 0xFF, 0xFF, 0xFF, 0xFF] = 0xFFFFFFFF" by code_simp
    then show ?thesis by (simp add: decode_long_string_def)
  qed
  finally show ?thesis by (simp add: decode_headed)
qed

text \<open>
  The number of entries of a map is counted by the loop that stops at the first key that is no positive
  integer, while all entries are written: a map of two named members comes back with one.
\<close>

lemma map_count_wrong:
  "attempt (luapack_encode sample_double sample_pack_config
       (LTable [(LString [97], LBool True), (LString [98], LBool False)])) (luapack_decode sample_double)
     = Inr (LTable [(LString [97], LBool True)], 9)"
  by code_simp

text \<open>A service handle is written with a tag the decoder does not know.\<close>

lemma handle_not_decoded:
  "attempt (luapack_encode sample_double sample_pack_config (LHandle [115])) (luapack_decode sample_double)
     = Inl (Failed ''unknown type tag: 16'')"
  by code_simp

end
