(* ===== verification/Spec2Isabelle.thy ===== *)
theory Spec2Isabelle
  imports Shield_Prelude Byte_Order Stream_Scan Frame Protocol_Types Named_Table Route_Table Envelope
    Json_Api Json_Sample Body_Codec Pipeline Xmldef Pipeline_Config Session
    Topo_Order Schema_Validator Plugin_Manifest Plugin_Host Plugin_Lifecycle
    Cluster Matchmaking Byte_Buffer Encryption Plugin_Json Health Metrics Core_Services
    Base64url Auth_Jwt Listener Lua_Pack
begin

text \<open>
  \<^bold>\<open>Verification of the shield game-server runtime.\<close>  Shield is a C++ runtime for game servers.  A client connects over TCP; \<open>TcpListener\<close> accepts the
  connection and creates a \<open>TcpSession\<close>; the session feeds what it reads into a \<open>ProtocolPipeline\<close>, which
  cuts the stream into packets (envelope), finds the route of each packet (route table), decodes its body
  (body codec) and hands it to the callbacks of the server; messages to the client take the way back.
  Services are provided by plugins behind C interfaces, which \<open>PluginHost\<close> plans, loads, starts and stops.
  Lua services talk to each other in the LuaPack format, and nodes of a cluster know each other through the
  cluster manager.  Paths below are relative to \<open>src/\<close>.

  The development is a shallow embedding: a class is a record or a datatype, a method a function on it, an
  exception or early return a value of a sum or option type, a loop a recursive function.  Machine integers
  keep their width where the source can overflow.  Code outside the repository is a parameter: the JSON and
  YAML libraries, OpenSSL, the file system, dynamic loading, clocks, doubles and \<open>std::sort\<close>.  What is
  relied on of it is a named hypothesis (\<open>json_laws\<close>, \<open>gcm_laws\<close>, \<open>by_order\<close>, and so on), and a concrete
  instance shows that it can hold.

  \<^bold>\<open>Shared theories.\<close>
  \<^item> \<open>Shield_Prelude\<close>: word types, association lists for \<open>std::unordered_map\<close>, the error sum and generic lemmas.
  \<^item> \<open>Stream_Scan\<close>: the loop that all \<open>feed\<close> methods share (\<open>drain\<close>), with the locale \<open>stream_scanner\<close> (a
    look at the buffer never changes its mind when more bytes arrive) and its extension \<open>framed_stream\<close> by an
    encoder.  Termination, independence of chunks and the round trip are proved in them once;
    \<open>Frame\<close> and \<open>Envelope\<close> interpret them on the code's scanners.
  \<^item> \<open>Named_Table\<close>: the locale \<open>named_table\<close> of a table with an index by name, interpreted by \<open>Route_Table\<close>
    and by the codec registry of \<open>Body_Codec\<close>.
  \<^item> \<open>Json_Api\<close>, \<open>Json_Sample\<close>: the operations of \<open>nlohmann::json\<close> the sources call, their laws, and an instance.

  \<^bold>\<open>Transport\<close> (\<open>src/transport/\<close>, \<open>include/shield/transport/\<close>, \<open>include/shield/base/\<close>).
  \<^item> \<open>Byte_Order\<close>, \<open>Byte_Buffer\<close>: integer widths and byte order (\<open>protocol.cpp\<close>), the buffer of \<open>byte_buffer.hpp\<close>.
  \<^item> \<open>Frame\<close>: \<open>frame.cpp\<close>.  Any split of the bytes of some frames gives these frames back.
  \<^item> \<open>Protocol_Types\<close>, \<open>Route_Table\<close>, \<open>Envelope\<close>, \<open>Body_Codec\<close>, \<open>Pipeline\<close>: the data, the routes, the four
    envelopes, the four codecs and the pipeline of \<open>protocol.cpp\<close>.  The lemmas show that envelopes return,
    keep their buffer bounded and reassemble packets whatever the chunks; that dispatch keeps the packet,
    reports the action of its route and decodes when it should; and that a sendable message comes out of the
    other end on its route.
  \<^item> \<open>Xmldef\<close>, \<open>Pipeline_Config\<close>: route catalogs and the pipeline built from JSON; what they build satisfies
    the invariants the other theories assume.
  \<^item> \<open>Encryption\<close>: \<open>encryption.cpp\<close> on the level of the EVP calls, with sizes narrowed to \<open>int\<close>; the round trip
    is stated below \<open>2 ^ 31\<close> bytes, and beyond it the loss is a lemma.

  \<^bold>\<open>Network\<close> (\<open>src/net/session.cpp\<close>, \<open>src/net/listener.cpp\<close>).
  \<^item> \<open>Session\<close>: callers and strand handlers cut at every access to \<open>alive_\<close> and \<open>queued_count_\<close> and at every
    call of a callback; \<open>session_act\<close> is one such step and \<open>session_reach\<close> the states of all interleavings,
    with what callbacks do as further steps.  The invariant accounts for every slot of the send queue,
    every write, read and close; a measure shows that the work of a session ends.
  \<^item> \<open>Listener\<close>: the listener over its sessions.  Its steps are the critical sections of its mutex and the
    steps of the sessions, so limits and the exactness of the table hold in every interleaving.  The
    64-bit session ids are assumed not to wrap: a run has fewer than \<open>2 ^ 64 - 1\<close> actions.

  \<^bold>\<open>Plugin host\<close> (\<open>src/plugin/\<close>).
  \<^item> \<open>Topo_Order\<close>: the start order of \<open>plan_and_resolve\<close>, sound and complete.
  \<^item> \<open>Schema_Validator\<close>: \<open>validate_config\<close> against an inductive conformance relation.  The recursion over JSON
    takes fuel, and fuel above the nesting of the value is shown to be enough.
  \<^item> \<open>Plugin_Manifest\<close>, \<open>Plugin_Host\<close>, \<open>Plugin_Lifecycle\<close>: the declarations, every stage of startup and
    shutdown, and what holds after them, after failures too.

  \<^bold>\<open>Runtime services and plugins.\<close>
  \<^item> \<open>Cluster\<close>: \<open>src/cluster/cluster_manager.cpp\<close> and the query of \<open>src/lua/lua_api.cpp\<close>, cut at the accesses of
    \<open>running\<close> and the critical sections; one thread starts and stops the manager.
  \<^item> \<open>Core_Services\<close>: starters (\<open>src/bootstrap/starter.cpp\<close>), the service registry with its handles, and the helpers of the RPC codec.
  \<^item> \<open>Lua_Pack\<close>: encoder and decoder of \<open>src/lua/lua_runtime.cpp\<close>.  The decoder recurses on the length of
    its input.
  \<^item> \<open>Matchmaking\<close>, \<open>Health\<close>, \<open>Metrics\<close>, \<open>Base64url\<close>, \<open>Auth_Jwt\<close>: the plugins under \<open>plugins/\<close> of these
    names; \<open>Plugin_Json\<close> holds the text searches the last ones share.

  \<^bold>\<open>Bounds.\<close>  \<open>drain\<close> is a partial function whose result \<open>None\<close> is a loop that does not end, and the
  feeds are proved to return.  Sizes of containers are natural numbers, compared with \<open>SIZE_MAX\<close> of a 64-bit
  platform where the source does so.  Undefined behaviour (a signed overflow, a read past a buffer, an
  unchecked failure) is a value of its own in the models that can meet it.

  \<^bold>\<open>Not modelled.\<close>  The Lua service manager and bindings, the HTTP client and server, the console, the logger,
  the configuration store, bootstrap, the database, Redis and codec plugins and the Lua scripts: they are mostly
  calls into CAF, sol2, libcurl, Beast, yaml-cpp and database clients.  Log output is left out everywhere, and
  so are memory orderings weaker than sequential consistency and concurrent use of the socket object itself.
\<close>

end
